(* ===== verification/Prelude.thy ===== *)
theory Prelude
  imports Main "HOL-Library.AList"
begin

text \<open>
  Shared vocabulary of the development: Go byte slices, error values, the three ways a Go
  call can end (a value, an error, a run-time panic), Go maps as association lists, and the
  generic lemmas the components use.
\<close>

section \<open>Go values\<close>

text \<open>A byte is a \<^typ>\<open>char\<close>; a Go \<^verbatim>\<open>[]byte\<close> is \<^const>\<open>None\<close> when it is nil.
  Ranging over, indexing or taking the length of a nil slice behaves like the empty one.\<close>

type_synonym bytes = string
type_synonym slice = "bytes option"

definition bytes_of :: "slice \<Rightarrow> bytes" where
  "bytes_of s = (case s of None \<Rightarrow> [] | Some b \<Rightarrow> b)"

text \<open>A Go map with string keys. The list order is the order in which \<^verbatim>\<open>range\<close> visits the
  entries; Go leaves it unspecified, so every theorem is about every order.\<close>

type_synonym 'v gomap = "(string \<times> 'v) list"

section \<open>Errors, results and panics\<close>

text \<open>Error values. \<open>Errorf\<close> is an error the program creates, \<open>Wrap\<close> is
  \<^verbatim>\<open>errors.Wrap\<close>, \<open>Lib\<close> an error returned by a library call; the remaining ones
  are the sentinel errors the program tests for.\<close>

datatype error =
    Errorf string
  | Wrap error string
  | Lib string
  | NotFound string
  | ErrCacheNotStarted
  | ErrWaitTimeout

datatype 'a result = Ok 'a | Fail error | Panic string

primrec bind_result :: "'a result \<Rightarrow> ('a \<Rightarrow> 'b result) \<Rightarrow> 'b result" where
  "bind_result (Ok x) f = f x"
| "bind_result (Fail e) f = Fail e"
| "bind_result (Panic m) f = Panic m"

primrec is_Ok :: "'a result \<Rightarrow> bool" where
  "is_Ok (Ok _) = True"
| "is_Ok (Fail _) = False"
| "is_Ok (Panic _) = False"

primrec is_Panic :: "'a result \<Rightarrow> bool" where
  "is_Panic (Ok _) = False"
| "is_Panic (Fail _) = False"
| "is_Panic (Panic _) = True"

definition lib_result :: "string + 'a \<Rightarrow> 'a result" where
  "lib_result r = (case r of Inl m \<Rightarrow> Fail (Lib m) | Inr x \<Rightarrow> Ok x)"

definition map_values :: "('v \<Rightarrow> 'w) \<Rightarrow> ('k \<times> 'v) list \<Rightarrow> ('k \<times> 'w) list" where
  "map_values f m = map (\<lambda>(k, v). (k, f v)) m"

section \<open>Generic lemmas\<close>

named_theorems go_simps \<open>unfolding rules of the run-time vocabulary\<close>

lemma bytes_of_simps [simp, go_simps]:
  "bytes_of None = []" "bytes_of (Some b) = b"
  by (simp_all add: bytes_of_def)

lemma lib_result_simps [simp, go_simps]:
  "lib_result (Inl m) = Fail (Lib m)" "lib_result (Inr x) = Ok x"
  by (simp_all add: lib_result_def)

lemma bind_result_eq_Ok [simp]:
  "bind_result r f = Ok y \<longleftrightarrow> (\<exists>x. r = Ok x \<and> f x = Ok y)"
  by (cases r) auto

lemma bind_result_panic:
  "is_Panic (bind_result r f) \<longleftrightarrow> is_Panic r \<or> (\<exists>x. r = Ok x \<and> is_Panic (f x))"
  by (cases r) auto

lemma is_Ok_iff: "is_Ok r \<longleftrightarrow> (\<exists>x. r = Ok x)"
  by (cases r) auto

lemma is_Panic_iff: "is_Panic r \<longleftrightarrow> (\<exists>m. r = Panic m)"
  by (cases r) auto

lemma map_values_Nil [simp]: "map_values f [] = []"
  by (simp add: map_values_def)

lemma map_values_Cons [simp]: "map_values f ((k, v) # m) = (k, f v) # map_values f m"
  by (simp add: map_values_def)

lemma keys_map_values [simp]: "map fst (map_values f m) = map fst m"
  by (induction m) auto

lemma map_of_map_values [simp]: "map_of (map_values f m) k = map_option f (map_of m k)"
  by (induction m) auto

lemma set_map_values: "set (map_values f m) = (\<lambda>(k, v). (k, f v)) ` set m"
  by (simp add: map_values_def)

lemma mem_map_values: "(k, w) \<in> set (map_values f m) \<longleftrightarrow> (\<exists>v. (k, v) \<in> set m \<and> w = f v)"
  by (auto simp: set_map_values)

lemma map_values_id: "(\<And>k v. (k, v) \<in> set m \<Longrightarrow> f v = v) \<Longrightarrow> map_values f m = m"
  by (induction m) (auto, blast+)

lemma map_values_eq_Nil [simp]: "map_values f m = [] \<longleftrightarrow> m = []"
  by (cases m) auto

lemma drop_eq_length_append [simp]: "drop (length xs) (xs @ ys) = ys"
  by simp

section \<open>Relating two states of a map\<close>

text \<open>Two maps with the same keys in the same order whose values are related.\<close>

definition gomap_rel :: "('v \<Rightarrow> 'w \<Rightarrow> bool) \<Rightarrow> ('k \<times> 'v) list \<Rightarrow> ('k \<times> 'w) list \<Rightarrow> bool" where
  "gomap_rel R m m' = list_all2 (\<lambda>(k, v) (k', v'). k = k' \<and> R v v') m m'"

lemma gomap_rel_Nil [simp]: "gomap_rel R [] m' \<longleftrightarrow> m' = []" "gomap_rel R m [] \<longleftrightarrow> m = []"
  by (simp_all add: gomap_rel_def)

lemma gomap_rel_Cons [simp]:
  "gomap_rel R ((k, v) # m) ((k', v') # m') \<longleftrightarrow> k = k' \<and> R v v' \<and> gomap_rel R m m'"
  by (simp add: gomap_rel_def)

lemma gomap_rel_mono: "gomap_rel R m m' \<Longrightarrow> (\<And>v v'. R v v' \<Longrightarrow> S v v') \<Longrightarrow> gomap_rel S m m'"
  unfolding gomap_rel_def by (erule list_all2_mono) auto

lemma gomap_rel_mono_in:
  "gomap_rel R m m' \<Longrightarrow> (\<And>k v v'. (k, v) \<in> set m \<Longrightarrow> (k, v') \<in> set m' \<Longrightarrow> R v v' \<Longrightarrow> S v v') \<Longrightarrow>
   gomap_rel S m m'"
  unfolding gomap_rel_def by (erule list.rel_mono_strong) auto

lemma gomap_rel_keys: "gomap_rel R m m' \<Longrightarrow> map fst m' = map fst m"
  unfolding gomap_rel_def by (induction rule: list_all2_induct) auto

lemma gomap_rel_trans:
  assumes "gomap_rel R m m'" "gomap_rel S m' m''" "\<And>u v w. R u v \<Longrightarrow> S v w \<Longrightarrow> T u w"
  shows "gomap_rel T m m''"
  using assms(1,2) unfolding gomap_rel_def
  by (rule list_all2_trans [rotated]) (use assms(3) in auto)

lemma gomap_rel_map_values: "gomap_rel (\<lambda>v w. w = f v) m (map_values f m)"
  by (induction m) auto

lemma gomap_rel_refl: "(\<And>k v. (k, v) \<in> set m \<Longrightarrow> R v v) \<Longrightarrow> gomap_rel R m m"
  by (auto simp: gomap_rel_def list_all2_same)

lemma gomap_rel_in2:
  "gomap_rel R m m' \<Longrightarrow> (k, v') \<in> set m' \<Longrightarrow> \<exists>v. (k, v) \<in> set m \<and> R v v'"
proof (induction m arbitrary: m')
  case (Cons p m)
  then obtain p' ms where "m' = p' # ms" by (cases m') auto
  with Cons show ?case by (cases p; cases p') fastforce
qed simp

lemma gomap_rel_in1:
  "gomap_rel R m m' \<Longrightarrow> (k, v) \<in> set m \<Longrightarrow> \<exists>v'. (k, v') \<in> set m' \<and> R v v'"
proof (induction m arbitrary: m')
  case (Cons p m)
  then obtain p' ms where "m' = p' # ms" by (cases m') auto
  with Cons show ?case by (cases p; cases p') fastforce
qed simp

lemma gomap_rel_map_snd: "gomap_rel (\<lambda>v w. f w = f v) m m' \<Longrightarrow> map f (map snd m') = map f (map snd m)"
  unfolding gomap_rel_def by (induction rule: list_all2_induct) auto

text \<open>Storing at a key that is present.\<close>

lemma AList_update_append:
  "k \<notin> fst ` set pre \<Longrightarrow> AList.update k v (pre @ (k, x) # m) = pre @ (k, v) # m"
  by (induction pre) auto

lemma AList_update_subset: "set (AList.update k v m) \<subseteq> insert (k, v) (set m)"
  by (induction m) auto

text \<open>Joining two names with a dot.\<close>

lemma append_dot_inject:
  assumes "CHR ''.'' \<notin> set a" "CHR ''.'' \<notin> set b" "a @ CHR ''.'' # x = b @ CHR ''.'' # y"
  shows "a = b \<and> x = y"
  using assms by (induction a arbitrary: b) (auto simp: append_eq_Cons_conv Cons_eq_append_conv)

end
