(* ===== verification/Pem_Codec.thy ===== *)
theory Pem_Codec
  imports Prelude
begin

text \<open>
  Packages \<^verbatim>\<open>encoding/base64\<close> (\<^verbatim>\<open>StdEncoding\<close>) and \<^verbatim>\<open>encoding/pem\<close> of the Go
  standard library, byte by byte: what \<^verbatim>\<open>pem.EncodeToMemory\<close> writes for a block without
  headers, and how \<^verbatim>\<open>pem.Decode\<close> finds the next block of its input, skipping anything that
  is not a well-formed block. The main result is the round trip that the PEM functions of
  \<^verbatim>\<open>src/pkg/certificate/triple/pem.go\<close> rely on, stated as the interface
  \<open>pem_codec\<close>.
\<close>

section \<open>Base 64\<close>

definition b64_alphabet :: string where
  "b64_alphabet = ''ABCDEFGHIJKLMNOPQRSTUVWXYZabcdefghijklmnopqrstuvwxyz0123456789+/''"

definition b64_enc6 :: "nat \<Rightarrow> char" where
  "b64_enc6 n = b64_alphabet ! n"

definition byte_nat :: "char \<Rightarrow> nat" where
  "byte_nat c = of_char c"

definition nat_byte :: "nat \<Rightarrow> char" where
  "nat_byte n = char_of n"

definition b64_dec6 :: "char \<Rightarrow> nat option" where
  "b64_dec6 c = (let n = byte_nat c in
     if 65 \<le> n \<and> n \<le> 90 then Some (n - 65)
     else if 97 \<le> n \<and> n \<le> 122 then Some (n - 71)
     else if 48 \<le> n \<and> n \<le> 57 then Some (n + 4)
     else if n = 43 then Some 62
     else if n = 47 then Some 63
     else None)"

definition b64_pad :: char where
  "b64_pad = CHR ''=''"

fun b64_encode :: "bytes \<Rightarrow> bytes" where
  "b64_encode [] = []"
| "b64_encode [x] =
     (let a = byte_nat x in
      [b64_enc6 (a div 4), b64_enc6 ((a mod 4) * 16), b64_pad, b64_pad])"
| "b64_encode [x, y] =
     (let a = byte_nat x; b = byte_nat y in
      [b64_enc6 (a div 4), b64_enc6 ((a mod 4) * 16 + b div 16),
       b64_enc6 ((b mod 16) * 4), b64_pad])"
| "b64_encode (x # y # z # rest) =
     (let a = byte_nat x; b = byte_nat y; c = byte_nat z in
      [b64_enc6 (a div 4), b64_enc6 ((a mod 4) * 16 + b div 16),
       b64_enc6 ((b mod 16) * 4 + c div 64), b64_enc6 (c mod 64)] @ b64_encode rest)"

text \<open>Decoding of whole quanta; padding is allowed in the last quantum only.\<close>

fun b64_quanta :: "bytes \<Rightarrow> bytes option" where
  "b64_quanta [] = Some []"
| "b64_quanta (p # q # r # s # rest) =
     (case (b64_dec6 p, b64_dec6 q) of
        (Some a, Some b) \<Rightarrow>
          (if r = b64_pad then
             (if s = b64_pad \<and> rest = [] then Some [nat_byte (a * 4 + b div 16)] else None)
           else case b64_dec6 r of
             None \<Rightarrow> None
           | Some c \<Rightarrow>
               (if s = b64_pad then
                  (if rest = [] then Some [nat_byte (a * 4 + b div 16),
                     nat_byte ((b mod 16) * 16 + c div 4)] else None)
                else case b64_dec6 s of
                  None \<Rightarrow> None
                | Some d \<Rightarrow> map_option (\<lambda>tl. nat_byte (a * 4 + b div 16) #
                    nat_byte ((b mod 16) * 16 + c div 4) # nat_byte ((c mod 4) * 64 + d) # tl)
                    (b64_quanta rest)))
      | _ \<Rightarrow> None)"
| "b64_quanta _ = None"

definition newline :: char where
  "newline = CHR 0x0A"

definition carriage_return :: char where
  "carriage_return = CHR 0x0D"

definition b64_decode :: "bytes \<Rightarrow> bytes option" where
  "b64_decode bs = b64_quanta (filter (\<lambda>c. c \<noteq> newline \<and> c \<noteq> carriage_return) bs)"

section \<open>PEM blocks\<close>

record pem_block =
  Type :: string
  Headers :: "(string \<times> string) list"
  Bytes :: bytes

definition pemBegin :: string where
  "pemBegin = ''-----BEGIN ''"

definition pemEnd :: string where
  "pemEnd = ''-----END ''"

definition pemEndOfLine :: string where
  "pemEndOfLine = ''-----''"

text \<open>The line breaker of \<^verbatim>\<open>pem.Encode\<close>: 64 characters per line, each line terminated.\<close>

fun break_lines :: "bytes \<Rightarrow> bytes" where
  "break_lines bs = (if bs = [] then [] else take 64 bs @ [newline] @ break_lines (drop 64 bs))"

declare break_lines.simps [simp del]

definition EncodeToMemory :: "string \<Rightarrow> bytes \<Rightarrow> bytes" where
  "EncodeToMemory typ bs =
     pemBegin @ typ @ pemEndOfLine @ [newline]
     @ break_lines (b64_encode bs)
     @ pemEnd @ typ @ pemEndOfLine @ [newline]"

text \<open>\<^verbatim>\<open>bytes.HasPrefix\<close>, \<^verbatim>\<open>bytes.HasSuffix\<close> and a search that returns what is before
  and after the first occurrence.\<close>

definition HasPrefix :: "bytes \<Rightarrow> bytes \<Rightarrow> bool" where
  "HasPrefix s p = (take (length p) s = p)"

definition HasSuffix :: "bytes \<Rightarrow> bytes \<Rightarrow> bool" where
  "HasSuffix s p = HasPrefix (rev s) (rev p)"

fun break_on :: "bytes \<Rightarrow> bytes \<Rightarrow> (bytes \<times> bytes) option" where
  "break_on sub [] = (if sub = [] then Some ([], []) else None)"
| "break_on sub (c # cs) =
     (if HasPrefix (c # cs) sub then Some ([], drop (length sub) (c # cs))
      else map_option (\<lambda>(a, b). (c # a, b)) (break_on sub cs))"

definition is_blank :: "char \<Rightarrow> bool" where
  "is_blank c = (c = CHR '' '' \<or> c = CHR 0x09)"

definition is_space :: "char \<Rightarrow> bool" where
  "is_space c = (is_blank c \<or> c = newline \<or> c = carriage_return \<or> c = CHR 0x0B \<or> c = CHR 0x0C)"

definition trim_right :: "bytes \<Rightarrow> bytes" where
  "trim_right s = rev (dropWhile is_blank (rev s))"

definition trim_space :: "bytes \<Rightarrow> bytes" where
  "trim_space s = rev (dropWhile is_space (rev (dropWhile is_space s)))"

definition getLine :: "bytes \<Rightarrow> bytes \<times> bytes" where
  "getLine s =
     (let l = takeWhile (\<lambda>c. c \<noteq> newline) s in
      case dropWhile (\<lambda>c. c \<noteq> newline) s of
        [] \<Rightarrow> (trim_right l, [])
      | _ # rest \<Rightarrow>
          (trim_right (if l \<noteq> [] \<and> last l = carriage_return then butlast l else l), rest))"

lemma getLine_shorter: "s \<noteq> [] \<Longrightarrow> length (snd (getLine s)) < length s"
proof -
  assume "s \<noteq> []"
  moreover have "length (dropWhile (\<lambda>c. c \<noteq> newline) s) \<le> length s"
    by (rule length_dropWhile_le)
  ultimately show ?thesis
    by (auto simp: getLine_def Let_def split: list.split)
qed

lemma getLine_le: "length (snd (getLine s)) \<le> length s"
proof -
  have "length (dropWhile (\<lambda>c. c \<noteq> newline) s) \<le> length s"
    by (rule length_dropWhile_le)
  then show ?thesis
    by (auto simp: getLine_def Let_def split: list.split)
qed

text \<open>The header loop of \<^verbatim>\<open>pem.Decode\<close>: lines with a colon are headers; the input may not
  end inside them.\<close>

function read_headers ::
  "(string \<times> string) list \<Rightarrow> bytes \<Rightarrow> ((string \<times> string) list \<times> bytes) option" where
  "read_headers hs s =
     (if s = [] then None
      else let (line, rest) = getLine s in
        if CHR '':'' \<in> set line then
          let k = trim_space (takeWhile (\<lambda>c. c \<noteq> CHR '':'') line);
              v = trim_space (drop 1 (dropWhile (\<lambda>c. c \<noteq> CHR '':'') line))
          in read_headers (AList.update k v hs) rest
        else Some (hs, s))"
  by pat_completeness auto
termination
  by (relation "measure (\<lambda>(hs, s). length s)") (auto dest!: getLine_shorter simp: prod_eq_iff)

declare read_headers.simps [simp del]

datatype decoding = Found pem_block bytes | Retry bytes | NoBlock

text \<open>One attempt of \<^verbatim>\<open>pem.Decode\<close>: \<open>Retry\<close> is a call of \<^verbatim>\<open>decodeError\<close>, which starts
  again at the given position.\<close>

definition decode_body :: "string \<Rightarrow> (string \<times> string) list \<Rightarrow> bytes \<Rightarrow> decoding" where
  "decode_body typ hs s =
     (case (if hs = [] \<and> HasPrefix s pemEnd then Some ([], drop (length pemEnd) s)
            else break_on (newline # pemEnd) s) of
        None \<Rightarrow> Retry s
      | Some (body, trailer) \<Rightarrow>
          (let n = length typ + length pemEndOfLine in
           if length trailer < n then Retry s
           else if \<not> HasPrefix (take n trailer) typ \<or> \<not> HasSuffix (take n trailer) pemEndOfLine
             then Retry s
           else if fst (getLine (drop n trailer)) \<noteq> [] then Retry s
           else case b64_decode (filter (\<lambda>c. \<not> is_blank c) body) of
             None \<Rightarrow> Retry s
           | Some bs \<Rightarrow> Found \<lparr>Type = typ, Headers = hs, Bytes = bs\<rparr> (snd (getLine trailer))))"

definition decode_at :: "bytes \<Rightarrow> decoding" where
  "decode_at s =
     (let (line, rest) = getLine s in
      if \<not> HasSuffix line pemEndOfLine then Retry rest
      else case read_headers [] rest of
        None \<Rightarrow> NoBlock
      | Some (hs, rest') \<Rightarrow> decode_body (take (length line - length pemEndOfLine) line) hs rest')"

definition decode_once :: "bytes \<Rightarrow> decoding" where
  "decode_once s =
     (if HasPrefix s pemBegin then decode_at (drop (length pemBegin) s)
      else case break_on (newline # pemBegin) s of
        None \<Rightarrow> NoBlock
      | Some (_, rest) \<Rightarrow> decode_at rest)"

text \<open>Every attempt makes progress, so the restarts of \<^verbatim>\<open>decodeError\<close> end.\<close>

lemma break_on_eq: "break_on sub s = Some (a, b) \<Longrightarrow> s = a @ sub @ b"
proof (induction s arbitrary: a)
  case Nil
  then show ?case by (simp split: if_splits)
next
  case (Cons c cs)
  show ?case
  proof (cases "HasPrefix (c # cs) sub")
    case True
    with Cons.prems show ?thesis
      by (auto simp: HasPrefix_def) (metis append_take_drop_id)
  next
    case False
    with Cons show ?thesis by auto
  qed
qed

lemma read_headers_le: "read_headers hs s = Some (hs', s') \<Longrightarrow> length s' \<le> length s"
proof (induction hs s rule: read_headers.induct)
  case (1 hs s)
  obtain line rest where gl: "getLine s = (line, rest)" by fastforce
  from 1 gl show ?case
    using getLine_le [of s]
    by (subst (asm) (2) read_headers.simps) (fastforce simp: Let_def split: if_splits)
qed

lemma decode_body_Retry: "decode_body typ hs s = Retry r \<Longrightarrow> r = s"
  by (auto simp: decode_body_def Let_def split: option.splits if_splits prod.splits)

lemma decode_body_Found:
  "decode_body typ hs s = Found b r \<Longrightarrow> length r \<le> length s"
proof -
  assume "decode_body typ hs s = Found b r"
  then obtain body trailer where
    f: "(if hs = [] \<and> HasPrefix s pemEnd then Some ([], drop (length pemEnd) s)
         else break_on (newline # pemEnd) s) = Some (body, trailer)"
    and r: "r = snd (getLine trailer)"
    by (auto simp: decode_body_def Let_def split: option.splits if_splits prod.splits)
  have "length trailer \<le> length s"
    using f by (auto split: if_splits dest: break_on_eq)
  then show ?thesis using getLine_le [of trailer] r by simp
qed

lemma decode_at_le:
  "decode_at s = Found b r \<Longrightarrow> length r \<le> length s"
  "decode_at s = Retry r \<Longrightarrow> length r \<le> length s"
  using getLine_le [of s]
  by (fastforce simp: decode_at_def Let_def split: if_splits option.splits prod.splits
      dest: decode_body_Found decode_body_Retry read_headers_le)+

lemma decode_once_less:
  "decode_once s = Found b r \<Longrightarrow> length r < length s"
  "decode_once s = Retry r \<Longrightarrow> length r < length s"
proof -
  have drop_less: "HasPrefix s pemBegin \<Longrightarrow> length (drop (length pemBegin) s) < length s"
    by (cases s) (auto simp: HasPrefix_def pemBegin_def)
  have brk_less: "break_on (newline # pemBegin) s = Some (a, t) \<Longrightarrow> length t < length s" for a t
    using break_on_eq [of "newline # pemBegin" s a t] by auto
  show "decode_once s = Found b r \<Longrightarrow> length r < length s"
    using decode_at_le(1) drop_less brk_less
    by (fastforce simp: decode_once_def split: if_splits option.splits prod.splits)
  show "decode_once s = Retry r \<Longrightarrow> length r < length s"
    using decode_at_le(2) drop_less brk_less
    by (fastforce simp: decode_once_def split: if_splits option.splits prod.splits)
qed

function Decode :: "bytes \<Rightarrow> pem_block option \<times> bytes" where
  "Decode s =
     (case decode_once s of
        Found b rest \<Rightarrow> (Some b, rest)
      | NoBlock \<Rightarrow> (None, s)
      | Retry rest \<Rightarrow>
          (case Decode rest of
             (None, _) \<Rightarrow> (None, s)
           | (Some b, rest') \<Rightarrow> (Some b, rest')))"
  by pat_completeness auto
termination
  by (relation "measure length") (auto dest: decode_once_less)

declare Decode.simps [simp del]

lemma Decode_shorter: "Decode s = (Some b, r) \<Longrightarrow> length r < length s"
proof (induction s rule: Decode.induct)
  case (1 s)
  show ?case
  proof (cases "decode_once s")
    case (Found b' r')
    with "1.prems" show ?thesis
      by (subst (asm) Decode.simps) (auto dest: decode_once_less)
  next
    case (Retry r')
    with "1.prems" have "Decode r' = (Some b, r)"
      by (subst (asm) Decode.simps) (auto split: prod.splits option.splits)
    with "1.IH" Retry have "length r < length r'" by blast
    with Retry show ?thesis by (auto dest!: decode_once_less)
  next
    case NoBlock
    with "1.prems" show ?thesis by (subst (asm) Decode.simps) auto
  qed
qed

lemma Decode_None: "Decode s = (None, r) \<Longrightarrow> r = s"
  by (subst (asm) Decode.simps) (auto split: decoding.splits prod.splits option.splits)

lemma Decode_Nil [simp]: "Decode [] = (None, [])"
  by (subst Decode.simps) (simp add: decode_once_def HasPrefix_def pemBegin_def)

section \<open>The base 64 round trip\<close>

lemma byte_nat_less [simp]: "byte_nat c < 256"
  by (simp add: byte_nat_def)

lemma nat_byte_byte_nat [simp]: "nat_byte (byte_nat c) = c"
  by (simp add: byte_nat_def nat_byte_def)

lemma b64_dec6_alphabet: "map b64_dec6 b64_alphabet = map Some [0..<64]"
  by (simp add: b64_alphabet_def b64_dec6_def byte_nat_def upt_conv_Cons)

lemma b64_dec6_enc6 [simp]: "n < 64 \<Longrightarrow> b64_dec6 (b64_enc6 n) = Some n"
proof -
  assume n: "n < 64"
  have len: "length b64_alphabet = 64" by (simp add: b64_alphabet_def)
  have "map b64_dec6 b64_alphabet ! n = map Some [0..<64] ! n"
    by (simp only: b64_dec6_alphabet)
  then show ?thesis using n len by (simp add: b64_enc6_def)
qed

lemma b64_enc6_in: "n < 64 \<Longrightarrow> b64_enc6 n \<in> set b64_alphabet"
  unfolding b64_enc6_def by (rule nth_mem) (simp add: b64_alphabet_def)

lemma b64_pad_notin: "b64_pad \<notin> set b64_alphabet"
  by (simp add: b64_pad_def b64_alphabet_def)

lemma b64_enc6_not_pad [simp]: "n < 64 \<Longrightarrow> b64_enc6 n \<noteq> b64_pad"
  using b64_enc6_in b64_pad_notin by metis

lemma b64_sextets_less:
  assumes "(a::nat) < 256" "(b::nat) < 256" "(c::nat) < 256"
  shows "a div 4 < 64" "a mod 4 * 16 + b div 16 < 64" "b mod 16 * 4 + c div 64 < 64"
    "c mod 64 < 64" "a mod 4 * 16 < 64" "b mod 16 * 4 < 64"
proof -
  have "a div 4 < 64" "b div 16 < 16" "c div 64 < 4" "a mod 4 < 4" "b mod 16 < 16" "c mod 64 < 64"
    using assms by auto
  then show "a div 4 < 64" "a mod 4 * 16 + b div 16 < 64" "b mod 16 * 4 + c div 64 < 64"
    "c mod 64 < 64" "a mod 4 * 16 < 64" "b mod 16 * 4 < 64"
    by linarith+
qed

lemma b64_join:
  assumes "(b::nat) < 256" "(c::nat) < 256"
  shows "(a mod 4 * 16 + b div 16) div 16 = a mod 4" "(a mod 4 * 16 + b div 16) mod 16 = b div 16"
    "(b mod 16 * 4 + c div 64) div 4 = b mod 16" "(b mod 16 * 4 + c div 64) mod 4 = c div 64"
    "b div 16 mod 16 = b div 16" "c div 64 mod 4 = c div 64"
proof -
  have "b div 16 < 16" "c div 64 < 4" using assms by auto
  then show "(a mod 4 * 16 + b div 16) div 16 = a mod 4"
    "(a mod 4 * 16 + b div 16) mod 16 = b div 16"
    "(b mod 16 * 4 + c div 64) div 4 = b mod 16" "(b mod 16 * 4 + c div 64) mod 4 = c div 64"
    "b div 16 mod 16 = b div 16" "c div 64 mod 4 = c div 64"
    by simp_all
qed

lemmas b64_sextets =
  b64_sextets_less [OF byte_nat_less byte_nat_less byte_nat_less]
  b64_join [OF byte_nat_less byte_nat_less]

lemma b64_quanta_encode [simp]: "b64_quanta (b64_encode bs) = Some bs"
proof (induction bs rule: b64_encode.induct)
  case (2 x)
  show ?case by (simp add: Let_def b64_sextets)
next
  case (3 x y)
  show ?case by (simp add: Let_def b64_sextets)
next
  case (4 x y z rest)
  from 4 show ?case by (simp add: Let_def b64_sextets)
qed simp

definition b64_chars :: "char set" where
  "b64_chars = set (b64_pad # b64_alphabet)"

lemma b64_chars_safe:
  "c \<in> b64_chars \<Longrightarrow> c \<noteq> newline \<and> c \<noteq> carriage_return \<and> \<not> is_blank c \<and> c \<noteq> CHR '':'' \<and> c \<noteq> CHR ''-''"
  unfolding b64_chars_def b64_alphabet_def b64_pad_def newline_def carriage_return_def is_blank_def
  by auto

lemma b64_encode_chars: "set (b64_encode bs) \<subseteq> b64_chars"
proof (induction bs rule: b64_encode.induct)
  case (2 x)
  show ?case by (simp add: Let_def b64_sextets b64_enc6_in b64_chars_def)
next
  case (3 x y)
  show ?case by (simp add: Let_def b64_sextets b64_enc6_in b64_chars_def)
next
  case (4 x y z rest)
  from 4 show ?case by (simp add: Let_def b64_sextets b64_enc6_in b64_chars_def)
qed simp

lemma break_lines_filter:
  "newline \<notin> set cs \<Longrightarrow> filter (\<lambda>c. c \<noteq> newline) (break_lines cs) = cs"
proof (induction cs rule: break_lines.induct)
  case (1 cs)
  show ?case
  proof (cases "cs = []")
    case True
    then show ?thesis by (simp add: break_lines.simps)
  next
    case False
    have "newline \<notin> set (drop 64 cs)" "newline \<notin> set (take 64 cs)"
      using "1.prems" by (auto dest: in_set_dropD in_set_takeD)
    moreover from this have "filter (\<lambda>c. c \<noteq> newline) (take 64 cs) = take 64 cs"
      by (metis (mono_tags, lifting) filter_True)
    ultimately show ?thesis
      using False "1.IH" by (subst break_lines.simps) simp
  qed
qed

lemma set_break_lines: "set (break_lines cs) \<subseteq> insert newline (set cs)"
proof (induction cs rule: break_lines.induct)
  case (1 cs)
  show ?case
  proof (cases "cs = []")
    case True
    then show ?thesis by (simp add: break_lines.simps)
  next
    case False
    with "1.IH" show ?thesis
      by (subst break_lines.simps) (auto dest: in_set_dropD in_set_takeD)
  qed
qed

lemma break_lines_snoc:
  "cs \<noteq> [] \<Longrightarrow> \<exists>l. break_lines cs = l @ [newline]"
proof (induction cs rule: break_lines.induct)
  case (1 cs)
  show ?case
  proof (cases "drop 64 cs = []")
    case True
    with "1.prems" show ?thesis
      by (subst break_lines.simps) (auto simp: break_lines.simps [of "[]"])
  next
    case False
    with "1.IH" "1.prems" obtain l where "break_lines (drop 64 cs) = l @ [newline]" by blast
    with "1.prems" show ?thesis by (subst break_lines.simps) simp
  qed
qed

section \<open>The PEM round trip\<close>

text \<open>Block types without a line feed or a colon survive encoding; all types the program
  writes are of this kind.\<close>

definition pem_type :: "string \<Rightarrow> bool" where
  "pem_type t = (newline \<notin> set t \<and> CHR '':'' \<notin> set t)"

lemma getLine_line:
  assumes "newline \<notin> set l" "l = [] \<or> (last l \<noteq> carriage_return \<and> \<not> is_blank (last l))"
  shows "getLine (l @ newline # r) = (l, r)"
proof -
  have tw: "takeWhile (\<lambda>c. c \<noteq> newline) (l @ newline # r) = l"
    and dw: "dropWhile (\<lambda>c. c \<noteq> newline) (l @ newline # r) = newline # r"
    using assms(1) by (auto simp: takeWhile_append dropWhile_append)
  have "trim_right l = l"
    using assms(2) by (cases l rule: rev_cases) (auto simp: trim_right_def)
  then show ?thesis using assms(2) by (auto simp: getLine_def tw dw)
qed

lemma HasPrefix_append [simp]: "HasPrefix (p @ s) p"
  by (simp add: HasPrefix_def)

lemma HasSuffix_append [simp]: "HasSuffix (s @ p) p"
  by (simp add: HasSuffix_def)

text \<open>The end line of a body is found although every body line ends in a line feed: the
  character after each of them is not a dash.\<close>

lemma break_on_body:
  assumes "CHR ''-'' \<notin> set a"
  shows "break_on (newline # pemEnd) (a @ newline # pemEnd @ r) = Some (a, r)"
  using assms
proof (induction a)
  case Nil
  then show ?case by (simp add: HasPrefix_def)
next
  case (Cons c cs)
  have "\<not> HasPrefix ((c # cs) @ newline # pemEnd @ r) (newline # pemEnd)"
    using Cons.prems by (cases cs) (auto simp: HasPrefix_def pemEnd_def newline_def)
  with Cons show ?case by simp
qed

text \<open>The base 64 body of an encoded block.\<close>

definition pem_body :: "bytes \<Rightarrow> bytes" where
  "pem_body bs = break_lines (b64_encode bs)"

lemma b64_encode_eq_Nil [simp]: "b64_encode bs = [] \<longleftrightarrow> bs = []"
  by (cases bs rule: b64_encode.cases) (auto simp: Let_def)

lemma pem_body_Nil [simp]: "pem_body [] = []"
  by (simp add: pem_body_def break_lines.simps)

lemma pem_body_chars: "set (pem_body bs) \<subseteq> insert newline b64_chars"
  using set_break_lines [of "b64_encode bs"] b64_encode_chars [of bs]
  by (auto simp: pem_body_def)

lemma pem_body_snoc: "bs \<noteq> [] \<Longrightarrow> \<exists>l. pem_body bs = l @ [newline]"
  unfolding pem_body_def by (rule break_lines_snoc) simp

lemma pem_body_decode:
  assumes "pem_body bs = l @ [newline]"
  shows "b64_decode (filter (\<lambda>c. \<not> is_blank c) l) = Some bs"
proof -
  have enc: "newline \<notin> set (b64_encode bs)" "\<forall>c \<in> set (b64_encode bs). c \<noteq> carriage_return \<and> \<not> is_blank c"
    using b64_encode_chars [of bs] b64_chars_safe by blast+
  have l: "\<forall>c \<in> set l. c \<noteq> carriage_return \<and> \<not> is_blank c"
  proof -
    have "set l \<subseteq> insert newline b64_chars" using pem_body_chars [of bs] assms by auto
    moreover have "newline \<noteq> carriage_return \<and> \<not> is_blank newline"
      by (simp add: newline_def carriage_return_def is_blank_def)
    ultimately show ?thesis by (metis b64_chars_safe insert_iff subsetD)
  qed
  have "filter (\<lambda>c. c \<noteq> newline) (l @ [newline]) = b64_encode bs"
    using break_lines_filter [OF enc(1)] assms by (simp add: pem_body_def)
  then have "filter (\<lambda>c. c \<noteq> newline) l = b64_encode bs" by simp
  moreover have "filter (\<lambda>c. \<not> is_blank c) l = l" using l by simp
  moreover have "filter (\<lambda>c. c \<noteq> newline \<and> c \<noteq> carriage_return) l = filter (\<lambda>c. c \<noteq> newline) l"
    using l by (auto intro: filter_cong)
  ultimately show ?thesis by (simp add: b64_decode_def)
qed

lemma getLine_type:
  "pem_type t \<Longrightarrow> getLine (t @ pemEndOfLine @ newline # r) = (t @ pemEndOfLine, r)"
  using getLine_line [of "t @ pemEndOfLine" r]
  by (simp add: pem_type_def pemEndOfLine_def newline_def carriage_return_def is_blank_def)

lemma decode_body_encoded:
  assumes "pem_type t"
  shows "decode_body t [] (pem_body bs @ pemEnd @ t @ pemEndOfLine @ newline # r)
    = Found \<lparr>Type = t, Headers = [], Bytes = bs\<rparr> r"
proof -
  define trailer where "trailer = t @ pemEndOfLine @ newline # r"
  have trailer: "take (length t + length pemEndOfLine) trailer = t @ pemEndOfLine"
    "drop (length t + length pemEndOfLine) trailer = newline # r"
    "snd (getLine trailer) = r" "\<not> length trailer < length t + length pemEndOfLine"
    using getLine_type [OF assms] by (simp_all add: trailer_def)
  have nl: "fst (getLine (newline # r)) = []"
    using getLine_line [of "[]" r] by simp
  show ?thesis
  proof (cases "bs = []")
    case True
    have "b64_decode [] = Some []" by (simp add: b64_decode_def)
    then show ?thesis
      using True trailer nl by (simp add: decode_body_def Let_def trailer_def)
  next
    case False
    then obtain l where l: "pem_body bs = l @ [newline]" using pem_body_snoc by blast
    have chars: "set l \<subseteq> insert newline b64_chars" using pem_body_chars [of bs] l by auto
    have dash: "CHR ''-'' \<notin> set l"
      using chars b64_chars_safe by (auto simp: newline_def)
    have pre: "\<not> HasPrefix (l @ newline # pemEnd @ trailer) pemEnd"
      using dash by (cases l) (auto simp: HasPrefix_def pemEnd_def newline_def)
    have brk: "break_on (newline # pemEnd) (l @ newline # pemEnd @ trailer) = Some (l, trailer)"
      using dash by (rule break_on_body)
    show ?thesis
      using pre brk trailer nl pem_body_decode [OF l]
      by (simp add: decode_body_def Let_def l trailer_def [symmetric])
  qed
qed

lemma set_trim_right: "set (trim_right s) \<subseteq> set s"
  unfolding trim_right_def using set_dropWhileD [of _ is_blank "rev s"] by auto

lemma set_fst_getLine: "set (fst (getLine s)) \<subseteq> set (takeWhile (\<lambda>c. c \<noteq> newline) s)"
proof -
  define l where "l = takeWhile (\<lambda>c. c \<noteq> newline) s"
  have "fst (getLine s) = trim_right l \<or> fst (getLine s) = trim_right (butlast l)"
    by (auto simp: getLine_def Let_def l_def split: list.split)
  moreover have "set (butlast l) \<subseteq> set l" by (auto dest: in_set_butlastD)
  ultimately show ?thesis using set_trim_right [of l] set_trim_right [of "butlast l"]
    unfolding l_def by auto
qed

lemma read_headers_body:
  assumes "pem_type t"
  shows "read_headers [] (pem_body bs @ pemEnd @ t @ pemEndOfLine @ newline # r)
    = Some ([], pem_body bs @ pemEnd @ t @ pemEndOfLine @ newline # r)"
proof -
  let ?s = "pem_body bs @ pemEnd @ t @ pemEndOfLine @ newline # r"
  let ?w = "takeWhile (\<lambda>c. c \<noteq> newline) ?s"
  have colon: "CHR '':'' \<notin> set (pem_body bs @ pemEnd @ t @ pemEndOfLine)"
    using pem_body_chars [of bs] b64_chars_safe assms
    by (auto simp: pem_type_def pemEnd_def pemEndOfLine_def newline_def)
  have w: "set ?w \<subseteq> set (pem_body bs @ pemEnd @ t @ pemEndOfLine)"
  proof -
    have "?w = takeWhile (\<lambda>c. c \<noteq> newline) (pem_body bs @ pemEnd @ t @ pemEndOfLine)"
      using takeWhile_tail [of "\<lambda>c. c \<noteq> newline" newline
          "pem_body bs @ pemEnd @ t @ pemEndOfLine" r] by simp
    then show ?thesis by (auto dest: set_takeWhileD)
  qed
  from set_fst_getLine w colon have "CHR '':'' \<notin> set (fst (getLine ?s))" by blast
  moreover have "?s \<noteq> []" by simp
  ultimately show ?thesis
    by (subst read_headers.simps) (simp add: case_prod_unfold)
qed

lemma Decode_EncodeToMemory:
  assumes "pem_type t"
  shows "Decode (EncodeToMemory t bs @ r) = (Some \<lparr>Type = t, Headers = [], Bytes = bs\<rparr>, r)"
proof -
  let ?tl = "pem_body bs @ pemEnd @ t @ pemEndOfLine @ newline # r"
  have enc: "EncodeToMemory t bs @ r = pemBegin @ t @ pemEndOfLine @ newline # ?tl"
    by (simp add: EncodeToMemory_def pem_body_def)
  have "decode_at (t @ pemEndOfLine @ newline # ?tl)
      = Found \<lparr>Type = t, Headers = [], Bytes = bs\<rparr> r"
    by (simp add: decode_at_def getLine_type [OF assms] read_headers_body [OF assms]
        decode_body_encoded [OF assms])
  then have "decode_once (EncodeToMemory t bs @ r) = Found \<lparr>Type = t, Headers = [], Bytes = bs\<rparr> r"
    unfolding enc decode_once_def by simp
  then show ?thesis by (subst Decode.simps) simp
qed

lemma EncodeToMemory_not_Nil [simp]: "EncodeToMemory t bs \<noteq> []"
  by (simp add: EncodeToMemory_def pemBegin_def)

section \<open>The interface of a PEM codec\<close>

text \<open>What the PEM functions of the program rely on: a block of an admissible type that was
  encoded at the front of the data is the next block decoded, and decoding makes progress.\<close>

locale pem_codec =
  fixes encode :: "string \<Rightarrow> bytes \<Rightarrow> bytes"
    and decode :: "bytes \<Rightarrow> pem_block option \<times> bytes"
    and admissible :: "string \<Rightarrow> bool"
  assumes decode_encode:
      "admissible t \<Longrightarrow> decode (encode t bs @ r) = (Some \<lparr>Type = t, Headers = [], Bytes = bs\<rparr>, r)"
    and decode_progress: "decode s = (Some b, r) \<Longrightarrow> length r < length s"
    and decode_end: "decode [] = (None, [])"
begin

text \<open>All blocks of the data, in order: the inductive relation the parsing loops follow.\<close>

inductive blocks :: "bytes \<Rightarrow> pem_block list \<Rightarrow> bool" where
  no_block: "decode s = (None, r) \<Longrightarrow> blocks s []"
| next_block: "decode s = (Some b, r) \<Longrightarrow> blocks r bs \<Longrightarrow> blocks s (b # bs)"

lemma blocks_exists: "\<exists>bs. blocks s bs"
proof (induction s rule: length_induct)
  case (1 s)
  obtain o' r where d: "decode s = (o', r)" by fastforce
  show ?case
  proof (cases o')
    case None
    with d show ?thesis by (auto intro: no_block)
  next
    case (Some b)
    with d decode_progress have "length r < length s" by blast
    with 1 obtain bs where "blocks r bs" by blast
    with d Some show ?thesis by (auto intro: next_block)
  qed
qed

lemma blocks_unique: "blocks s bs \<Longrightarrow> blocks s bs' \<Longrightarrow> bs = bs'"
proof (induction arbitrary: bs' rule: blocks.induct)
  case (no_block s r)
  then show ?case by (auto elim: blocks.cases)
next
  case (next_block s b r bs)
  from next_block.prems next_block.hyps obtain bs2 where "bs' = b # bs2" "blocks r bs2"
    by (auto elim: blocks.cases)
  then show ?case using next_block.IH by blast
qed

lemma blocks_encoded:
  "admissible t \<Longrightarrow>
   blocks (concat (map (encode t) bss)) (map (\<lambda>bs. \<lparr>Type = t, Headers = [], Bytes = bs\<rparr>) bss)"
  by (induction bss) (auto intro: blocks.intros simp: decode_encode decode_end)

end

interpretation pem: pem_codec EncodeToMemory Decode pem_type
  by unfold_locales (auto intro: Decode_EncodeToMemory Decode_shorter)

end
