(* ===== verification/Go_Time.thy ===== *)
theory Go_Time
  imports Prelude "HOL-Library.Signed_Division"
begin

text \<open>
  Package \<^verbatim>\<open>time\<close> as the program uses it. A \<^verbatim>\<open>time.Time\<close> is the number of
  nanoseconds since the zero time \<^verbatim>\<open>time.Time{}\<close>, a \<^verbatim>\<open>time.Duration\<close> a number of
  nanoseconds within 64 bits; \<^verbatim>\<open>Time.Sub\<close> saturates. The conversions between
  \<^verbatim>\<open>Duration\<close> and \<^verbatim>\<open>float64\<close> round to 53 bits, ties to even. All floating point values
  of the program are integral, so they are represented by integers.
\<close>

type_synonym time = int
type_synonym duration = int

definition zero_time :: time where
  "zero_time = 0"

definition min_duration :: duration where
  "min_duration = - (2 ^ 63)"

definition max_duration :: duration where
  "max_duration = 2 ^ 63 - 1"

definition Second :: duration where
  "Second = 1000000000"

definition Hour :: duration where
  "Hour = 3600 * Second"

definition Sub :: "time \<Rightarrow> time \<Rightarrow> duration" where
  "Sub t u = (if t - u < min_duration then min_duration
              else if max_duration < t - u then max_duration else t - u)"

definition Add :: "time \<Rightarrow> duration \<Rightarrow> time" where
  "Add t d = t + d"

definition Before :: "time \<Rightarrow> time \<Rightarrow> bool" where
  "Before t u = (t < u)"

definition After :: "time \<Rightarrow> time \<Rightarrow> bool" where
  "After t u = (u < t)"

text \<open>ASN.1 times carry whole seconds.\<close>

definition trunc_second :: "time \<Rightarrow> time" where
  "trunc_second t = t - t mod Second"

section \<open>Rounding to \<^verbatim>\<open>float64\<close>\<close>

fun f64_exp :: "nat \<Rightarrow> nat" where
  "f64_exp a = (if a < 2 ^ 53 then 0 else Suc (f64_exp (a div 2)))"

declare f64_exp.simps [simp del]

definition f64_nat :: "nat \<Rightarrow> nat" where
  "f64_nat a = (let e = f64_exp a; q = a div 2 ^ e; r = a mod 2 ^ e in
     (if 2 * r < 2 ^ e \<or> (2 * r = 2 ^ e \<and> even q) then q else Suc q) * 2 ^ e)"

definition f64 :: "int \<Rightarrow> int" where
  "f64 x = sgn x * int (f64_nat (nat \<bar>x\<bar>))"

text \<open>Conversion back to a 64-bit integer; out-of-range values give the minimum, as the
  amd64 conversion instruction does.\<close>

definition f64_to_int64 :: "int \<Rightarrow> int" where
  "f64_to_int64 x = (if min_duration \<le> x \<and> x \<le> max_duration then x else min_duration)"

section \<open>Lemmas\<close>

lemmas time_defs = zero_time_def min_duration_def max_duration_def Second_def Hour_def
  Sub_def Add_def Before_def After_def

lemma trunc_second_le: "trunc_second t \<le> t"
  by (simp add: trunc_second_def Second_def)

lemma trunc_second_gt: "t - Second < trunc_second t"
proof -
  have "t mod Second < Second" by (simp add: Second_def)
  then show ?thesis by (simp add: trunc_second_def)
qed

lemma trunc_second_dvd: "Second dvd trunc_second t"
  by (simp add: trunc_second_def Second_def dvd_minus_mod)

lemma trunc_second_mono: "t \<le> u \<Longrightarrow> trunc_second t \<le> trunc_second u"
proof -
  assume "t \<le> u"
  then have "t div Second * Second \<le> u div Second * Second"
    by (simp add: Second_def zdiv_mono1)
  then show ?thesis
    by (simp add: trunc_second_def minus_mod_eq_div_mult)
qed

lemma Sub_exact: "min_duration \<le> t - u \<Longrightarrow> t - u \<le> max_duration \<Longrightarrow> Sub t u = t - u"
  by (simp add: Sub_def)

lemma f64_exp_small: "a < 2 ^ 53 \<Longrightarrow> f64_exp a = 0"
  by (subst f64_exp.simps) simp

lemma f64_exp_bound: "a < 2 ^ (53 + k) \<Longrightarrow> f64_exp a \<le> k"
proof (induction k arbitrary: a)
  case 0
  then show ?case by (simp add: f64_exp_small)
next
  case (Suc k)
  show ?case
  proof (cases "a < 2 ^ 53")
    case True
    then show ?thesis by (simp add: f64_exp_small)
  next
    case False
    have "a < 2 * 2 ^ (53 + k)" using Suc.prems by (simp only: add_Suc_right power_Suc)
    then have "a div 2 < 2 ^ (53 + k)" by (simp only: less_mult_imp_div_less mult.commute)
    then have "f64_exp (a div 2) \<le> k" by (rule Suc.IH)
    with False show ?thesis by (subst f64_exp.simps) simp
  qed
qed

lemma f64_nat_exact: "2 ^ f64_exp a dvd a \<Longrightarrow> f64_nat a = a"
  by (simp add: f64_nat_def Let_def)

lemma f64_nat_error: "2 * \<bar>int (f64_nat a) - int a\<bar> \<le> 2 ^ f64_exp a"
proof -
  define e q r where "e = f64_exp a" and "q = a div 2 ^ e" and "r = a mod 2 ^ e"
  have a: "int a = int q * 2 ^ e + int r"
  proof -
    have "a = q * 2 ^ e + r" unfolding q_def r_def by (simp add: div_mult_mod_eq)
    then have "int a = int (q * 2 ^ e + r)" by (rule arg_cong)
    then show ?thesis by simp
  qed
  have "r < 2 ^ e" unfolding r_def by simp
  then have "int r < int (2 ^ e)" by (simp only: of_nat_less_iff)
  then have r: "int r < 2 ^ e" by simp
  show ?thesis
  proof (cases "2 * r < 2 ^ e \<or> (2 * r = 2 ^ e \<and> even q)")
    case True
    then have "f64_nat a = q * 2 ^ e" by (simp add: f64_nat_def Let_def e_def q_def r_def)
    moreover from True have "2 * int r \<le> 2 ^ e"
    proof -
      from True have "2 * r \<le> 2 ^ e" by linarith
      then have "int (2 * r) \<le> int (2 ^ e)" by (simp only: of_nat_le_iff)
      then show ?thesis by simp
    qed
    ultimately show ?thesis using a by (simp add: e_def)
  next
    case False
    then have "f64_nat a = Suc q * 2 ^ e" by (auto simp: f64_nat_def Let_def e_def q_def r_def)
    moreover from False have "2 ^ e \<le> 2 * int r"
    proof -
      from False have "2 ^ e \<le> 2 * r" by linarith
      then have "int (2 ^ e) \<le> int (2 * r)" by (simp only: of_nat_le_iff)
      then show ?thesis by simp
    qed
    ultimately show ?thesis using a r by (simp add: e_def algebra_simps)
  qed
qed

lemma f64_error:
  assumes "\<bar>x\<bar> < 2 ^ (53 + k)"
  shows "2 * \<bar>f64 x - x\<bar> \<le> 2 ^ k"
proof -
  have "f64 x - x = sgn x * (int (f64_nat (nat \<bar>x\<bar>)) - int (nat \<bar>x\<bar>))"
    by (simp add: f64_def right_diff_distrib sgn_mult_abs)
  then have "\<bar>f64 x - x\<bar> \<le> \<bar>int (f64_nat (nat \<bar>x\<bar>)) - int (nat \<bar>x\<bar>)\<bar>"
    by (simp add: abs_mult sgn_if)
  then have "2 * \<bar>f64 x - x\<bar> \<le> 2 ^ f64_exp (nat \<bar>x\<bar>)"
    using f64_nat_error [of "nat \<bar>x\<bar>"] by linarith
  also have "\<dots> \<le> (2::int) ^ k"
  proof (rule power_increasing)
    have "nat \<bar>x\<bar> < 2 ^ (53 + k)" using assms by (simp add: nat_less_iff)
    then show "f64_exp (nat \<bar>x\<bar>) \<le> k" by (rule f64_exp_bound)
  qed simp
  finally show ?thesis .
qed

lemma f64_exact:
  assumes "\<bar>x\<bar> < 2 ^ (53 + k)" and "2 ^ k dvd x"
  shows "f64 x = x"
proof -
  have "nat \<bar>x\<bar> < 2 ^ (53 + k)" using assms(1) by (simp add: nat_less_iff)
  then have "f64_exp (nat \<bar>x\<bar>) \<le> k" by (rule f64_exp_bound)
  moreover have "2 ^ k dvd nat \<bar>x\<bar>"
    using assms(2) by (metis abs_ge_zero dvd_abs_iff nat_0_le of_nat_dvd_iff of_nat_numeral of_nat_power)
  ultimately have "2 ^ f64_exp (nat \<bar>x\<bar>) dvd nat \<bar>x\<bar>"
    using le_imp_power_dvd dvd_trans by blast
  then show ?thesis by (simp add: f64_def f64_nat_exact sgn_mult_abs)
qed

lemma f64_exact_small: "\<bar>x\<bar> < 2 ^ 53 \<Longrightarrow> f64 x = x"
  using f64_exact [of x 0] by simp

end
