(* ===== verification/X509.thy ===== *)
theory X509
  imports Go_Time
begin

text \<open>
  The data of \<^verbatim>\<open>crypto/rsa\<close>, \<^verbatim>\<open>crypto/ecdsa\<close> and \<^verbatim>\<open>crypto/x509\<close> that the program
  handles, and the cryptographic operations it calls. DER encodings, signatures, path
  validation, the entropy source and the system clock are not code of the repository: they
  are the fields of a \<open>go_lib\<close>, an argument of every definition that uses them. What
  the program relies on is their documented behaviour, the laws of the locale
  \<open>x509_lib\<close>.
\<close>

unbundle bit_operations_syntax

section \<open>Keys\<close>

record rsa_PublicKey =
  rsa_N :: int
  rsa_E :: int

record rsa_PrivateKey =
  rsa_Public :: rsa_PublicKey
  rsa_D :: int

record ecdsa_PublicKey =
  ec_X :: int
  ec_Y :: int

record ecdsa_PrivateKey =
  ec_Public :: ecdsa_PublicKey
  ec_D :: int

datatype private_key = RSA_key rsa_PrivateKey | EC_key ecdsa_PrivateKey | Other_key bytes

datatype public_key = RSA_pub rsa_PublicKey | EC_pub ecdsa_PublicKey | Other_pub bytes

section \<open>Certificates\<close>

datatype ext_key_usage = ExtKeyUsageServerAuth | ExtKeyUsageClientAuth

definition KeyUsageDigitalSignature :: int where
  "KeyUsageDigitalSignature = push_bit 0 1"

definition KeyUsageKeyEncipherment :: int where
  "KeyUsageKeyEncipherment = push_bit 2 1"

definition KeyUsageCertSign :: int where
  "KeyUsageCertSign = push_bit 5 1"

text \<open>\<^verbatim>\<open>x509.Certificate\<close>, as a template and as a parsed certificate. \<open>Signature\<close> stands
  for the signature and every other field that the raw encoding determines.\<close>

record certificate =
  Raw :: bytes
  Signature :: bytes
  SerialNumber :: int
  SubjectCommonName :: string
  SubjectOrganization :: "string list"
  NotBefore :: time
  NotAfter :: time
  KeyUsage :: int
  ExtKeyUsage :: "ext_key_usage list"
  BasicConstraintsValid :: bool
  IsCA :: bool
  DNSNames :: "string list"
  IPAddresses :: "bytes list"
  PublicKey :: public_key

section \<open>The library and the environment\<close>

text \<open>The clock and the entropy source are indexed by how often they have been read. A field
  that may return an error returns \<^const>\<open>Inl\<close> of its message.\<close>

record go_lib =
  lib_now :: "nat \<Rightarrow> time"
  lib_GenerateKey :: "nat \<Rightarrow> string + rsa_PrivateKey"
  lib_ecdsa_GenerateKey :: "nat \<Rightarrow> string + ecdsa_PrivateKey"
  lib_rand_Int :: "nat \<Rightarrow> string + int"
  lib_CreateCertificate ::
    "nat \<Rightarrow> certificate \<Rightarrow> certificate \<Rightarrow> public_key \<Rightarrow> rsa_PrivateKey \<Rightarrow> string + bytes"
  lib_ParseCertificate :: "bytes \<Rightarrow> string + certificate"
  lib_Verify :: "certificate list \<Rightarrow> string \<Rightarrow> time \<Rightarrow> certificate \<Rightarrow> string option"
  lib_MarshalPKCS1PrivateKey :: "rsa_PrivateKey \<Rightarrow> bytes"
  lib_ParsePKCS1PrivateKey :: "bytes \<Rightarrow> string + rsa_PrivateKey"
  lib_ParsePKCS8PrivateKey :: "bytes \<Rightarrow> string + private_key"
  lib_MarshalECPrivateKey :: "ecdsa_PrivateKey \<Rightarrow> string + bytes"
  lib_ParseECPrivateKey :: "bytes \<Rightarrow> string + ecdsa_PrivateKey"
  lib_MarshalPKIXPublicKey :: "rsa_PublicKey \<Rightarrow> string + bytes"
  lib_ParsePKIXPublicKey :: "bytes \<Rightarrow> string + public_key"
  lib_ParseIP :: "string \<Rightarrow> bytes option"
  lib_IPString :: "bytes \<Rightarrow> string"

text \<open>How much of the clock and of the entropy source has been consumed.\<close>

record env =
  ticks :: nat
  draws :: nat

definition tick :: "env \<Rightarrow> env" where
  "tick e = e\<lparr>ticks := Suc (ticks e)\<rparr>"

definition draw :: "env \<Rightarrow> env" where
  "draw e = e\<lparr>draws := Suc (draws e)\<rparr>"

definition clock_at :: "go_lib \<Rightarrow> env \<Rightarrow> time" where
  "clock_at lib e = lib_now lib (ticks e)"

text \<open>A name that \<^verbatim>\<open>Certificate.VerifyHostname\<close> matches as a DNS name.\<close>

definition hostname_ok :: "go_lib \<Rightarrow> string \<Rightarrow> bool" where
  "hostname_ok lib h = (h \<noteq> [] \<and> h \<noteq> ''.'' \<and> hd h \<noteq> CHR ''['' \<and> lib_ParseIP lib h = None)"

text \<open>The members of a template that \<^verbatim>\<open>CreateCertificate\<close> copies to the certificate; ASN.1
  times carry whole seconds.\<close>

definition issued_as :: "certificate \<Rightarrow> public_key \<Rightarrow> certificate \<Rightarrow> bool" where
  "issued_as tmpl pub c =
     (SerialNumber c = SerialNumber tmpl
      \<and> SubjectCommonName c = SubjectCommonName tmpl
      \<and> SubjectOrganization c = SubjectOrganization tmpl
      \<and> NotBefore c = trunc_second (NotBefore tmpl)
      \<and> NotAfter c = trunc_second (NotAfter tmpl)
      \<and> KeyUsage c = KeyUsage tmpl
      \<and> ExtKeyUsage c = ExtKeyUsage tmpl
      \<and> BasicConstraintsValid c = BasicConstraintsValid tmpl
      \<and> (BasicConstraintsValid tmpl \<longrightarrow> IsCA c = IsCA tmpl)
      \<and> DNSNames c = DNSNames tmpl
      \<and> PublicKey c = pub)"

definition valid_at :: "time \<Rightarrow> certificate \<Rightarrow> bool" where
  "valid_at t c = (NotBefore c \<le> t \<and> t \<le> NotAfter c)"

text \<open>A certificate that may sign others with the given key.\<close>

definition signing_ca :: "certificate \<Rightarrow> rsa_PrivateKey \<Rightarrow> bool" where
  "signing_ca ca k =
     (BasicConstraintsValid ca \<and> IsCA ca \<and> KeyUsage ca AND KeyUsageCertSign \<noteq> 0
      \<and> PublicKey ca = RSA_pub (rsa_Public k))"

text \<open>Provenance: \<open>ca\<close> is a certificate that this library made by self-signing with
  \<open>k\<close>; \<open>c\<close> is one that it made with the parent \<open>ca\<close> and the signer \<open>k\<close>.\<close>

definition self_signed :: "go_lib \<Rightarrow> certificate \<Rightarrow> rsa_PrivateKey \<Rightarrow> bool" where
  "self_signed lib ca k \<longleftrightarrow> (\<exists>n tmpl der.
     lib_CreateCertificate lib n tmpl tmpl (RSA_pub (rsa_Public k)) k = Inr der
     \<and> lib_ParseCertificate lib der = Inr ca)"

definition issued_by :: "go_lib \<Rightarrow> certificate \<Rightarrow> rsa_PrivateKey \<Rightarrow> certificate \<Rightarrow> bool" where
  "issued_by lib ca k c \<longleftrightarrow> (\<exists>n tmpl pub der.
     lib_CreateCertificate lib n tmpl ca pub k = Inr der \<and> lib_ParseCertificate lib der = Inr c)"

section \<open>The laws of the library\<close>

locale x509_lib =
  fixes lib :: go_lib
  assumes parse_raw: "lib_ParseCertificate lib der = Inr c \<Longrightarrow> Raw c = der"
    and create_parse: "lib_CreateCertificate lib n tmpl parent pub k = Inr der \<Longrightarrow>
      \<exists>c. lib_ParseCertificate lib der = Inr c \<and> issued_as tmpl pub c"
    and pkcs1_roundtrip: "lib_GenerateKey lib n = Inr k \<Longrightarrow>
      lib_ParsePKCS1PrivateKey lib (lib_MarshalPKCS1PrivateKey lib k) = Inr k"
    and verify_issued: "self_signed lib ca k \<Longrightarrow> signing_ca ca k \<Longrightarrow> issued_by lib ca k c \<Longrightarrow>
      ca \<in> set roots \<Longrightarrow> valid_at t ca \<Longrightarrow> valid_at t c \<Longrightarrow>
      h \<in> set (DNSNames c) \<Longrightarrow> hostname_ok lib h \<Longrightarrow>
      ExtKeyUsageServerAuth \<in> set (ExtKeyUsage c) \<Longrightarrow> lib_Verify lib roots h t c = None"
    and verify_valid: "lib_Verify lib roots h t c = None \<Longrightarrow> valid_at t c"

section \<open>Lemmas\<close>

lemma ticks_simps [simp]: "ticks (tick e) = Suc (ticks e)" "ticks (draw e) = ticks e"
  by (simp_all add: tick_def draw_def)

lemma draws_simps [simp]: "draws (tick e) = draws e" "draws (draw e) = Suc (draws e)"
  by (simp_all add: tick_def draw_def)

lemma key_usage_values [simp]:
  "KeyUsageDigitalSignature = 1" "KeyUsageKeyEncipherment = 4" "KeyUsageCertSign = 32"
  by (simp_all add: KeyUsageDigitalSignature_def KeyUsageKeyEncipherment_def KeyUsageCertSign_def)

end
