(* ===== verification/Triple.thy ===== *)
theory Triple
  imports Pem_Codec X509
begin

text \<open>
  Package \<^verbatim>\<open>src/pkg/certificate/triple\<close>: PEM encoding and parsing of keys and certificates
  (\<^verbatim>\<open>pem.go\<close>), creation and verification of certificates (\<^verbatim>\<open>cert.go\<close>), and key pairs for the
  CA, a server and a client (\<^verbatim>\<open>triple.go\<close>).
\<close>

unbundle bit_operations_syntax

section \<open>\<^verbatim>\<open>pem.go\<close>: encoding\<close>

definition ECPrivateKeyBlockType :: string where
  "ECPrivateKeyBlockType = ''EC PRIVATE KEY''"

definition RSAPrivateKeyBlockType :: string where
  "RSAPrivateKeyBlockType = ''RSA PRIVATE KEY''"

definition PrivateKeyBlockType :: string where
  "PrivateKeyBlockType = ''PRIVATE KEY''"

definition PublicKeyBlockType :: string where
  "PublicKeyBlockType = ''PUBLIC KEY''"

definition CertificateBlockType :: string where
  "CertificateBlockType = ''CERTIFICATE''"

definition EncodePublicKeyPEM :: "go_lib \<Rightarrow> rsa_PublicKey \<Rightarrow> bytes result" where
  "EncodePublicKeyPEM lib k =
     (case lib_MarshalPKIXPublicKey lib k of
        Inl m \<Rightarrow> Fail (Lib m)
      | Inr der \<Rightarrow> Ok (EncodeToMemory PublicKeyBlockType der))"

definition EncodePrivateKeyPEM :: "go_lib \<Rightarrow> rsa_PrivateKey \<Rightarrow> bytes" where
  "EncodePrivateKeyPEM lib k =
     EncodeToMemory RSAPrivateKeyBlockType (lib_MarshalPKCS1PrivateKey lib k)"

definition EncodeCertPEM :: "certificate \<Rightarrow> bytes" where
  "EncodeCertPEM c = EncodeToMemory CertificateBlockType (Raw c)"

text \<open>The loop of \<^verbatim>\<open>EncodeCertsPEM\<close> with its accumulator.\<close>

fun encode_certs_loop :: "bytes \<Rightarrow> certificate list \<Rightarrow> bytes" where
  "encode_certs_loop acc [] = acc"
| "encode_certs_loop acc (c # cs) = encode_certs_loop (acc @ EncodeCertPEM c) cs"

definition EncodeCertsPEM :: "certificate list \<Rightarrow> bytes" where
  "EncodeCertsPEM cs = encode_certs_loop [] cs"

section \<open>\<^verbatim>\<open>pem.go\<close>: parsing\<close>

text \<open>The attempt at one block; \<^const>\<open>None\<close> goes on to the next block.\<close>

definition parse_private_block :: "go_lib \<Rightarrow> pem_block \<Rightarrow> private_key option" where
  "parse_private_block lib b =
     (if Type b = ECPrivateKeyBlockType then
        (case lib_ParseECPrivateKey lib (Bytes b) of Inr k \<Rightarrow> Some (EC_key k) | Inl _ \<Rightarrow> None)
      else if Type b = RSAPrivateKeyBlockType then
        (case lib_ParsePKCS1PrivateKey lib (Bytes b) of Inr k \<Rightarrow> Some (RSA_key k) | Inl _ \<Rightarrow> None)
      else if Type b = PrivateKeyBlockType then
        (case lib_ParsePKCS8PrivateKey lib (Bytes b) of Inr k \<Rightarrow> Some k | Inl _ \<Rightarrow> None)
      else None)"

function ParsePrivateKeyPEM :: "go_lib \<Rightarrow> bytes \<Rightarrow> private_key result" where
  "ParsePrivateKeyPEM lib keyData =
     (case Decode keyData of
        (None, _) \<Rightarrow> Fail (Errorf ''data does not contain a valid RSA or ECDSA private key'')
      | (Some b, rest) \<Rightarrow>
          (case parse_private_block lib b of
             Some k \<Rightarrow> Ok k
           | None \<Rightarrow> ParsePrivateKeyPEM lib rest))"
  by pat_completeness auto
termination
  by (relation "measure (\<lambda>(lib, s). length s)") (auto dest: Decode_shorter [OF sym])

declare ParsePrivateKeyPEM.simps [simp del]

definition parseRSAPublicKey :: "go_lib \<Rightarrow> bytes \<Rightarrow> rsa_PublicKey result" where
  "parseRSAPublicKey lib d =
     bind_result
       (case lib_ParsePKIXPublicKey lib d of
          Inr k \<Rightarrow> Ok k
        | Inl _ \<Rightarrow> (case lib_ParseCertificate lib d of Inr c \<Rightarrow> Ok (PublicKey c) | Inl m \<Rightarrow> Fail (Lib m)))
       (\<lambda>k. case k of RSA_pub p \<Rightarrow> Ok p
            | _ \<Rightarrow> Fail (Errorf ''data doesn't contain valid RSA Public Key''))"

definition parseRSAPrivateKey :: "go_lib \<Rightarrow> bytes \<Rightarrow> rsa_PrivateKey result" where
  "parseRSAPrivateKey lib d =
     bind_result
       (case lib_ParsePKCS1PrivateKey lib d of
          Inr k \<Rightarrow> Ok (RSA_key k)
        | Inl _ \<Rightarrow> lib_result (lib_ParsePKCS8PrivateKey lib d))
       (\<lambda>k. case k of RSA_key p \<Rightarrow> Ok p
            | _ \<Rightarrow> Fail (Errorf ''data doesn't contain valid RSA Private Key''))"

definition parseECPublicKey :: "go_lib \<Rightarrow> bytes \<Rightarrow> ecdsa_PublicKey result" where
  "parseECPublicKey lib d =
     bind_result
       (case lib_ParsePKIXPublicKey lib d of
          Inr k \<Rightarrow> Ok k
        | Inl _ \<Rightarrow> (case lib_ParseCertificate lib d of Inr c \<Rightarrow> Ok (PublicKey c) | Inl m \<Rightarrow> Fail (Lib m)))
       (\<lambda>k. case k of EC_pub p \<Rightarrow> Ok p
            | _ \<Rightarrow> Fail (Errorf ''data doesn't contain valid ECDSA Public Key''))"

text \<open>\<^verbatim>\<open>x509.ParseECPrivateKey\<close> returns an ECDSA key, so the type assertion of
  \<^verbatim>\<open>parseECPrivateKey\<close> cannot fail.\<close>

definition parseECPrivateKey :: "go_lib \<Rightarrow> bytes \<Rightarrow> ecdsa_PrivateKey result" where
  "parseECPrivateKey lib d = lib_result (lib_ParseECPrivateKey lib d)"

text \<open>The four attempts of \<^verbatim>\<open>ParsePublicKeysPEM\<close> at one block, in order.\<close>

definition parse_public_block :: "go_lib \<Rightarrow> bytes \<Rightarrow> public_key option" where
  "parse_public_block lib d =
     (case parseRSAPrivateKey lib d of
        Ok k \<Rightarrow> Some (RSA_pub (rsa_Public k))
      | _ \<Rightarrow> (case parseRSAPublicKey lib d of
          Ok k \<Rightarrow> Some (RSA_pub k)
        | _ \<Rightarrow> (case parseECPrivateKey lib d of
            Ok k \<Rightarrow> Some (EC_pub (ec_Public k))
          | _ \<Rightarrow> (case parseECPublicKey lib d of
              Ok k \<Rightarrow> Some (EC_pub k)
            | _ \<Rightarrow> None))))"

function parse_public_loop :: "go_lib \<Rightarrow> public_key list \<Rightarrow> bytes \<Rightarrow> public_key list" where
  "parse_public_loop lib keys keyData =
     (case Decode keyData of
        (None, _) \<Rightarrow> keys
      | (Some b, rest) \<Rightarrow>
          (case parse_public_block lib (Bytes b) of
             Some k \<Rightarrow> parse_public_loop lib (keys @ [k]) rest
           | None \<Rightarrow> parse_public_loop lib keys rest))"
  by pat_completeness auto
termination
  by (relation "measure (\<lambda>(lib, keys, s). length s)") (auto dest: Decode_shorter [OF sym])

declare parse_public_loop.simps [simp del]

definition ParsePublicKeysPEM :: "go_lib \<Rightarrow> bytes \<Rightarrow> public_key list result" where
  "ParsePublicKeysPEM lib keyData =
     (let keys = parse_public_loop lib [] keyData in
      if length keys = 0
      then Fail (Errorf ''data does not contain any valid RSA or ECDSA public keys'')
      else Ok keys)"

text \<open>\<^verbatim>\<open>ParseCertsPEM\<close> returns the certificates parsed so far also when it returns an error,
  and its callers use them.\<close>

function parse_certs_loop ::
  "go_lib \<Rightarrow> bool \<Rightarrow> certificate list \<Rightarrow> bytes \<Rightarrow> certificate list \<times> error option" where
  "parse_certs_loop lib ok cs pemCerts =
     (let finished = (cs, if ok then None
            else Some (Errorf ''data does not contain any valid RSA or ECDSA certificates'')) in
      if pemCerts = [] then finished
      else case Decode pemCerts of
        (None, _) \<Rightarrow> finished
      | (Some b, rest) \<Rightarrow>
          (if Type b \<noteq> CertificateBlockType \<or> length (Headers b) \<noteq> 0
           then parse_certs_loop lib ok cs rest
           else case lib_ParseCertificate lib (Bytes b) of
             Inl m \<Rightarrow> (cs, Some (Lib m))
           | Inr c \<Rightarrow> parse_certs_loop lib True (cs @ [c]) rest))"
  by pat_completeness auto
termination
  by (relation "measure (\<lambda>(lib, ok, cs, s). length s)") (auto dest: Decode_shorter [OF sym])

declare parse_certs_loop.simps [simp del]

definition ParseCertsPEM :: "go_lib \<Rightarrow> bytes \<Rightarrow> certificate list \<times> error option" where
  "ParseCertsPEM lib pemCerts = parse_certs_loop lib False [] pemCerts"

definition AddCertToPEM :: "go_lib \<Rightarrow> certificate \<Rightarrow> bytes \<Rightarrow> bytes result" where
  "AddCertToPEM lib c pemCerts =
     (if 0 < length pemCerts then
        (case ParseCertsPEM lib pemCerts of
           (_, Some e) \<Rightarrow> Fail (Wrap e ''failed parsing current certs PEM'')
         | (cs, None) \<Rightarrow> Ok (EncodeCertsPEM (cs @ [c])))
      else Ok (EncodeCertsPEM ([] @ [c])))"

section \<open>\<^verbatim>\<open>cert.go\<close>\<close>

record AltNames =
  Alt_DNSNames :: "string list"
  Alt_IPs :: "bytes list"

record Config =
  CommonName :: string
  Organization :: "string list"
  Config_AltNames :: AltNames
  Usages :: "ext_key_usage list"

definition NewPrivateKey :: "go_lib \<Rightarrow> env \<Rightarrow> rsa_PrivateKey result \<times> env" where
  "NewPrivateKey lib e = (lib_result (lib_GenerateKey lib (draws e)), draw e)"

definition ca_template :: "Config \<Rightarrow> time \<Rightarrow> duration \<Rightarrow> certificate" where
  "ca_template cfg t d = \<lparr>Raw = [], Signature = [], SerialNumber = 0,
     SubjectCommonName = CommonName cfg, SubjectOrganization = Organization cfg,
     NotBefore = t, NotAfter = Add t d,
     KeyUsage = KeyUsageKeyEncipherment OR KeyUsageDigitalSignature OR KeyUsageCertSign,
     ExtKeyUsage = [], BasicConstraintsValid = True, IsCA = True,
     DNSNames = [], IPAddresses = [], PublicKey = Other_pub []\<rparr>"

definition NewSelfSignedCACert ::
  "go_lib \<Rightarrow> Config \<Rightarrow> rsa_PrivateKey \<Rightarrow> duration \<Rightarrow> env \<Rightarrow> certificate result \<times> env" where
  "NewSelfSignedCACert lib cfg k d e =
     (let tmpl = ca_template cfg (clock_at lib e) d; e1 = tick e in
      case lib_CreateCertificate lib (draws e1) tmpl tmpl (RSA_pub (rsa_Public k)) k of
        Inl m \<Rightarrow> (Fail (Lib m), draw e1)
      | Inr der \<Rightarrow> (lib_result (lib_ParseCertificate lib der), draw e1))"

definition server_template :: "Config \<Rightarrow> int \<Rightarrow> certificate \<Rightarrow> time \<Rightarrow> duration \<Rightarrow> certificate" where
  "server_template cfg serial caCert t d = \<lparr>Raw = [], Signature = [], SerialNumber = serial,
     SubjectCommonName = CommonName cfg, SubjectOrganization = Organization cfg,
     NotBefore = NotBefore caCert, NotAfter = Add t d,
     KeyUsage = KeyUsageKeyEncipherment OR KeyUsageDigitalSignature,
     ExtKeyUsage = Usages cfg, BasicConstraintsValid = False, IsCA = False,
     DNSNames = Alt_DNSNames (Config_AltNames cfg), IPAddresses = Alt_IPs (Config_AltNames cfg),
     PublicKey = Other_pub []\<rparr>"

text \<open>\<open>caCert\<close> and \<open>caKey\<close> are pointers; reading a member of a nil certificate, or
  signing with a nil key, panics.\<close>

definition NewSignedCert ::
  "go_lib \<Rightarrow> Config \<Rightarrow> rsa_PrivateKey \<Rightarrow> certificate option \<Rightarrow> rsa_PrivateKey option \<Rightarrow> duration
   \<Rightarrow> env \<Rightarrow> certificate result \<times> env" where
  "NewSignedCert lib cfg k caCert caKey d e =
     (case lib_rand_Int lib (draws e) of
        Inl m \<Rightarrow> (Fail (Lib m), draw e)
      | Inr serial \<Rightarrow>
          (let e1 = draw e in
           if length (CommonName cfg) = 0 then (Fail (Errorf ''must specify a CommonName''), e1)
           else if length (Usages cfg) = 0
             then (Fail (Errorf ''must specify at least one ExtKeyUsage''), e1)
           else case caCert of
             None \<Rightarrow> (Panic ''nil pointer dereference: caCert'', e1)
           | Some ca \<Rightarrow>
               (let tmpl = server_template cfg serial ca (clock_at lib e1) d; e2 = tick e1 in
                case caKey of
                  None \<Rightarrow> (Panic ''nil pointer dereference: caKey'', e2)
                | Some ck \<Rightarrow>
                    (case lib_CreateCertificate lib (draws e2) tmpl ca (RSA_pub (rsa_Public k)) ck of
                       Inl m \<Rightarrow> (Fail (Lib m), draw e2)
                     | Inr der \<Rightarrow> (lib_result (lib_ParseCertificate lib der), draw e2)))))"

definition MakeEllipticPrivateKeyPEM :: "go_lib \<Rightarrow> env \<Rightarrow> bytes result \<times> env" where
  "MakeEllipticPrivateKeyPEM lib e =
     (case lib_ecdsa_GenerateKey lib (draws e) of
        Inl m \<Rightarrow> (Fail (Lib m), draw e)
      | Inr k \<Rightarrow> (case lib_MarshalECPrivateKey lib k of
          Inl m \<Rightarrow> (Fail (Lib m), draw e)
        | Inr der \<Rightarrow> (Ok (EncodeToMemory ECPrivateKeyBlockType der), draw e)))"

fun ipsToStrings :: "go_lib \<Rightarrow> bytes list \<Rightarrow> string list" where
  "ipsToStrings lib [] = []"
| "ipsToStrings lib (ip # ips) = lib_IPString lib ip # ipsToStrings lib ips"

text \<open>\<^verbatim>\<open>CertPool.AppendCertsFromPEM\<close> of the standard library: blocks that are not parsable
  certificates are skipped; it reports whether any certificate was added.\<close>

function AppendCertsFromPEM :: "go_lib \<Rightarrow> certificate list \<Rightarrow> bytes \<Rightarrow> certificate list" where
  "AppendCertsFromPEM lib pool pemCerts =
     (if pemCerts = [] then pool
      else case Decode pemCerts of
        (None, _) \<Rightarrow> pool
      | (Some b, rest) \<Rightarrow>
          (if Type b \<noteq> ''CERTIFICATE'' \<or> length (Headers b) \<noteq> 0
           then AppendCertsFromPEM lib pool rest
           else case lib_ParseCertificate lib (Bytes b) of
             Inl _ \<Rightarrow> AppendCertsFromPEM lib pool rest
           | Inr c \<Rightarrow> AppendCertsFromPEM lib (pool @ [c]) rest))"
  by pat_completeness auto
termination
  by (relation "measure (\<lambda>(lib, pool, s). length s)") (auto dest: Decode_shorter [OF sym])

declare AppendCertsFromPEM.simps [simp del]

definition VerifyTLS :: "go_lib \<Rightarrow> bytes \<Rightarrow> bytes \<Rightarrow> bytes \<Rightarrow> env \<Rightarrow> unit result \<times> env" where
  "VerifyTLS lib certsPEM keyPEM caBundle e =
     (case ParsePrivateKeyPEM lib keyPEM of
        Panic m \<Rightarrow> (Panic m, e)
      | Fail er \<Rightarrow> (Fail (Wrap er ''failed parsing PEM TLS key''), e)
      | Ok _ \<Rightarrow>
          (case ParseCertsPEM lib certsPEM of
             (_, Some er) \<Rightarrow> (Fail (Wrap er ''failed parsing PEM TLS certs''), e)
           | (cs, None) \<Rightarrow>
               (let cas = AppendCertsFromPEM lib [] caBundle in
                if cas = [] then (Fail (Errorf ''failed to parse CA bundle''), e)
                else case cs of
                  [] \<Rightarrow> (Panic ''index out of range: certs[0]'', e)
                | c # _ \<Rightarrow>
                    (case DNSNames c of
                       [] \<Rightarrow> (Panic ''index out of range: DNSNames[0]'', e)
                     | h # _ \<Rightarrow>
                         (case lib_Verify lib cas h (clock_at lib e) c of
                            Some m \<Rightarrow> (Fail (Wrap (Lib m) ''failed to verify certificate''), tick e)
                          | None \<Rightarrow> (Ok (), tick e))))))"

section \<open>\<^verbatim>\<open>triple.go\<close>\<close>

text \<open>The members of \<^verbatim>\<open>KeyPair\<close> are pointers.\<close>

record KeyPair =
  Key :: "rsa_PrivateKey option"
  Cert :: "certificate option"

definition NewCA :: "go_lib \<Rightarrow> string \<Rightarrow> duration \<Rightarrow> env \<Rightarrow> KeyPair result \<times> env" where
  "NewCA lib name d e =
     (case NewPrivateKey lib e of
        (Panic m, e1) \<Rightarrow> (Panic m, e1)
      | (Fail er, e1) \<Rightarrow> (Fail (Wrap er ''unable to create a private key for a new CA''), e1)
      | (Ok k, e1) \<Rightarrow>
          (let cfg = \<lparr>CommonName = name, Organization = [],
                 Config_AltNames = \<lparr>Alt_DNSNames = [], Alt_IPs = []\<rparr>, Usages = []\<rparr> in
           case NewSelfSignedCACert lib cfg k d e1 of
             (Panic m, e2) \<Rightarrow> (Panic m, e2)
           | (Fail er, e2) \<Rightarrow>
               (Fail (Wrap er ''unable to create a self-signed certificate for a new CA''), e2)
           | (Ok c, e2) \<Rightarrow> (Ok \<lparr>Key = Some k, Cert = Some c\<rparr>, e2)))"

text \<open>Strings that are not IP addresses are dropped.\<close>

fun parse_ips :: "go_lib \<Rightarrow> string list \<Rightarrow> bytes list" where
  "parse_ips lib [] = []"
| "parse_ips lib (s # ss) =
     (case lib_ParseIP lib s of None \<Rightarrow> parse_ips lib ss | Some ip \<Rightarrow> ip # parse_ips lib ss)"

definition NewServerKeyPair ::
  "go_lib \<Rightarrow> KeyPair \<Rightarrow> string \<Rightarrow> string list \<Rightarrow> string list \<Rightarrow> duration \<Rightarrow> env
   \<Rightarrow> KeyPair result \<times> env" where
  "NewServerKeyPair lib ca commonName ips hostnames d e =
     (case NewPrivateKey lib e of
        (Panic m, e1) \<Rightarrow> (Panic m, e1)
      | (Fail er, e1) \<Rightarrow> (Fail (Wrap er ''unable to create a server private key''), e1)
      | (Ok k, e1) \<Rightarrow>
          (let cfg = \<lparr>CommonName = commonName, Organization = [],
                 Config_AltNames = \<lparr>Alt_DNSNames = hostnames, Alt_IPs = parse_ips lib ips\<rparr>,
                 Usages = [ExtKeyUsageServerAuth]\<rparr> in
           case NewSignedCert lib cfg k (Cert ca) (Key ca) d e1 of
             (Panic m, e2) \<Rightarrow> (Panic m, e2)
           | (Fail er, e2) \<Rightarrow> (Fail (Wrap er ''unable to sign the server certificate''), e2)
           | (Ok c, e2) \<Rightarrow> (Ok \<lparr>Key = Some k, Cert = Some c\<rparr>, e2)))"

definition NewClientKeyPair ::
  "go_lib \<Rightarrow> KeyPair \<Rightarrow> string \<Rightarrow> string list \<Rightarrow> duration \<Rightarrow> env \<Rightarrow> KeyPair result \<times> env" where
  "NewClientKeyPair lib ca commonName organizations d e =
     (case NewPrivateKey lib e of
        (Panic m, e1) \<Rightarrow> (Panic m, e1)
      | (Fail er, e1) \<Rightarrow> (Fail (Wrap er ''unable to create a client private key''), e1)
      | (Ok k, e1) \<Rightarrow>
          (let cfg = \<lparr>CommonName = commonName, Organization = organizations,
                 Config_AltNames = \<lparr>Alt_DNSNames = [], Alt_IPs = []\<rparr>,
                 Usages = [ExtKeyUsageClientAuth]\<rparr> in
           case NewSignedCert lib cfg k (Cert ca) (Key ca) d e1 of
             (Panic m, e2) \<Rightarrow> (Panic m, e2)
           | (Fail er, e2) \<Rightarrow> (Fail (Wrap er ''unable to sign the client certificate''), e2)
           | (Ok c, e2) \<Rightarrow> (Ok \<lparr>Key = Some k, Cert = Some c\<rparr>, e2)))"

section \<open>Encoding and parsing\<close>

lemma encode_certs_loop_concat: "encode_certs_loop acc cs = acc @ concat (map EncodeCertPEM cs)"
  by (induction cs arbitrary: acc) auto

lemma EncodeCertsPEM_concat: "EncodeCertsPEM cs = concat (map EncodeCertPEM cs)"
  by (simp add: EncodeCertsPEM_def encode_certs_loop_concat)

lemma EncodeCertsPEM_append: "EncodeCertsPEM (cs @ ds) = EncodeCertsPEM cs @ EncodeCertsPEM ds"
  by (simp add: EncodeCertsPEM_concat)

lemma EncodeCertsPEM_single: "EncodeCertsPEM [c] = EncodeCertPEM c"
  by (simp add: EncodeCertsPEM_concat)

lemma EncodeCertsPEM_eq_Nil [simp]: "EncodeCertsPEM cs = [] \<longleftrightarrow> cs = []"
  by (cases cs) (auto simp: EncodeCertsPEM_concat EncodeCertPEM_def)

lemma block_types [simp]: "pem_type CertificateBlockType" "pem_type RSAPrivateKeyBlockType"
  "pem_type PublicKeyBlockType" "pem_type ECPrivateKeyBlockType"
  by (simp_all add: pem_type_def CertificateBlockType_def RSAPrivateKeyBlockType_def
      PublicKeyBlockType_def ECPrivateKeyBlockType_def newline_def)

text \<open>What the certificate parsing loop computes, over the list of all PEM blocks.\<close>

definition cert_block :: "pem_block \<Rightarrow> bool" where
  "cert_block b = (Type b = CertificateBlockType \<and> Headers b = [])"

fun scan_certs ::
  "go_lib \<Rightarrow> bool \<Rightarrow> certificate list \<Rightarrow> pem_block list \<Rightarrow> certificate list \<times> error option" where
  "scan_certs lib ok cs [] = (cs, if ok then None
      else Some (Errorf ''data does not contain any valid RSA or ECDSA certificates''))"
| "scan_certs lib ok cs (b # bs) =
     (if \<not> cert_block b then scan_certs lib ok cs bs
      else case lib_ParseCertificate lib (Bytes b) of
        Inl m \<Rightarrow> (cs, Some (Lib m))
      | Inr c \<Rightarrow> scan_certs lib True (cs @ [c]) bs)"

lemma parse_certs_loop_scan:
  "pem.blocks s bs \<Longrightarrow> parse_certs_loop lib ok cs s = scan_certs lib ok cs bs"
proof (induction arbitrary: ok cs rule: pem.blocks.induct)
  case (no_block s r)
  then show ?case by (subst parse_certs_loop.simps) (simp add: Let_def)
next
  case (next_block s b r bs)
  from next_block.hyps(1) have "s \<noteq> []" by auto
  with next_block show ?case
    by (subst parse_certs_loop.simps) (auto simp: cert_block_def Let_def split: sum.split)
qed

text \<open>The certificates of all parsable certificate blocks, which is what a pool collects.\<close>

fun pool_certs :: "go_lib \<Rightarrow> pem_block list \<Rightarrow> certificate list" where
  "pool_certs lib [] = []"
| "pool_certs lib (b # bs) =
     (if \<not> cert_block b then pool_certs lib bs
      else case lib_ParseCertificate lib (Bytes b) of
        Inl m \<Rightarrow> pool_certs lib bs
      | Inr c \<Rightarrow> c # pool_certs lib bs)"

lemma AppendCertsFromPEM_pool:
  "pem.blocks s bs \<Longrightarrow> AppendCertsFromPEM lib pool s = pool @ pool_certs lib bs"
proof (induction arbitrary: pool rule: pem.blocks.induct)
  case (no_block s r)
  then show ?case by (subst AppendCertsFromPEM.simps) simp
next
  case (next_block s b r bs)
  from next_block.hyps(1) have "s \<noteq> []" by auto
  with next_block show ?case
    by (subst AppendCertsFromPEM.simps)
      (auto simp: cert_block_def CertificateBlockType_def split: sum.split)
qed

lemma scan_certs_pool:
  "fst (scan_certs lib ok cs bs) = cs' \<Longrightarrow> \<exists>ds. cs' = cs @ ds \<and> set ds \<subseteq> set (pool_certs lib bs)"
proof (induction bs arbitrary: ok cs)
  case Nil
  then show ?case by simp
next
  case (Cons b bs)
  show ?case
  proof (cases "cert_block b")
    case False
    with Cons show ?thesis by simp
  next
    case True
    show ?thesis
    proof (cases "lib_ParseCertificate lib (Bytes b)")
      case (Inl m)
      with True Cons.prems show ?thesis by simp
    next
      case (Inr c)
      with True Cons.prems have "fst (scan_certs lib True (cs @ [c]) bs) = cs'" by simp
      from Cons.IH [OF this] obtain ds where "cs' = (cs @ [c]) @ ds" "set ds \<subseteq> set (pool_certs lib bs)"
        by blast
      with True Inr show ?thesis by (intro exI [of _ "c # ds"]) auto
    qed
  qed
qed

lemma ParseCertsPEM_pool: "set (fst (ParseCertsPEM lib s)) \<subseteq> set (AppendCertsFromPEM lib [] s)"
proof -
  obtain bs where bs: "pem.blocks s bs" using pem.blocks_exists by blast
  show ?thesis
    using scan_certs_pool [of lib False "[]" bs "fst (ParseCertsPEM lib s)"]
    by (auto simp: ParseCertsPEM_def parse_certs_loop_scan [OF bs] AppendCertsFromPEM_pool [OF bs])
qed

lemma scan_certs_ok:
  "scan_certs lib ok cs bs = (cs', None) \<Longrightarrow> (ok \<longrightarrow> cs \<noteq> []) \<Longrightarrow> cs' \<noteq> []"
  by (induction bs arbitrary: ok cs) (auto split: if_splits sum.splits)

lemma ParseCertsPEM_ok: "ParseCertsPEM lib s = (cs, None) \<Longrightarrow> cs \<noteq> []"
proof -
  assume a: "ParseCertsPEM lib s = (cs, None)"
  obtain bs where "pem.blocks s bs" using pem.blocks_exists by blast
  with a have "scan_certs lib False [] bs = (cs, None)"
    by (simp add: ParseCertsPEM_def parse_certs_loop_scan)
  then show ?thesis by (rule scan_certs_ok) simp
qed

text \<open>A certificate as the library parses it from its own raw bytes.\<close>

definition parsed :: "go_lib \<Rightarrow> certificate \<Rightarrow> bool" where
  "parsed lib c = (lib_ParseCertificate lib (Raw c) = Inr c)"

lemma scan_certs_parsed:
  "\<forall>c \<in> set cs. parsed lib c \<Longrightarrow>
   scan_certs lib ok acc (map (\<lambda>bs. \<lparr>Type = CertificateBlockType, Headers = [], Bytes = bs\<rparr>) (map Raw cs))
   = (acc @ cs, if ok \<or> cs \<noteq> [] then None
       else Some (Errorf ''data does not contain any valid RSA or ECDSA certificates''))"
  by (induction cs arbitrary: ok acc) (auto simp: cert_block_def parsed_def)

lemma blocks_EncodeCertsPEM:
  "pem.blocks (EncodeCertsPEM cs)
     (map (\<lambda>bs. \<lparr>Type = CertificateBlockType, Headers = [], Bytes = bs\<rparr>) (map Raw cs))"
  using pem.blocks_encoded [of CertificateBlockType "map Raw cs"]
  by (simp add: EncodeCertsPEM_concat EncodeCertPEM_def [abs_def] comp_def)

lemma Parse_EncodeCertsPEM:
  "\<forall>c \<in> set cs. parsed lib c \<Longrightarrow> cs \<noteq> [] \<Longrightarrow> ParseCertsPEM lib (EncodeCertsPEM cs) = (cs, None)"
  by (simp add: ParseCertsPEM_def parse_certs_loop_scan [OF blocks_EncodeCertsPEM]
      scan_certs_parsed del: map_map)

lemma Parse_EncodeCertsPEM_certs:
  "\<forall>c \<in> set cs. parsed lib c \<Longrightarrow> fst (ParseCertsPEM lib (EncodeCertsPEM cs)) = cs"
  by (simp add: ParseCertsPEM_def parse_certs_loop_scan [OF blocks_EncodeCertsPEM]
      scan_certs_parsed del: map_map)

lemma ParsePrivateKeyPEM_first:
  assumes "lib_ParsePKCS1PrivateKey lib (lib_MarshalPKCS1PrivateKey lib k) = Inr k"
  shows "ParsePrivateKeyPEM lib (EncodePrivateKeyPEM lib k @ rest) = Ok (RSA_key k)"
proof -
  have "RSAPrivateKeyBlockType \<noteq> ECPrivateKeyBlockType"
    by (simp add: RSAPrivateKeyBlockType_def ECPrivateKeyBlockType_def)
  with assms show ?thesis
    by (subst ParsePrivateKeyPEM.simps)
      (simp add: EncodePrivateKeyPEM_def parse_private_block_def pem.decode_encode)
qed

lemma ParsePrivateKeyPEM_no_panic: "\<not> is_Panic (ParsePrivateKeyPEM lib s)"
  by (induction lib s rule: ParsePrivateKeyPEM.induct)
    (subst ParsePrivateKeyPEM.simps, auto split: prod.split option.split)

lemma ParsePrivateKeyPEM_no_panic' [simp]: "ParsePrivateKeyPEM lib s \<noteq> Panic m"
  using ParsePrivateKeyPEM_no_panic [of lib s] by auto

text \<open>What is promised of a successful \<^verbatim>\<open>NewCA\<close>: a parsed CA certificate for the new key that
  the key can sign with, valid from now on for the given duration, in whole seconds.\<close>

definition fresh_ca :: "go_lib \<Rightarrow> time \<Rightarrow> duration \<Rightarrow> rsa_PrivateKey \<Rightarrow> certificate \<Rightarrow> bool" where
  "fresh_ca lib t d k c \<longleftrightarrow>
     lib_ParsePKCS1PrivateKey lib (lib_MarshalPKCS1PrivateKey lib k) = Inr k
     \<and> parsed lib c \<and> self_signed lib c k \<and> signing_ca c k
     \<and> NotBefore c = trunc_second t \<and> NotAfter c = trunc_second (Add t d)"

definition fresh_server ::
  "go_lib \<Rightarrow> time \<Rightarrow> duration \<Rightarrow> certificate \<Rightarrow> rsa_PrivateKey \<Rightarrow> string list \<Rightarrow> rsa_PrivateKey
   \<Rightarrow> certificate \<Rightarrow> bool" where
  "fresh_server lib t d ca ck hostnames k c \<longleftrightarrow>
     lib_ParsePKCS1PrivateKey lib (lib_MarshalPKCS1PrivateKey lib k) = Inr k
     \<and> parsed lib c \<and> issued_by lib ca ck c \<and> PublicKey c = RSA_pub (rsa_Public k)
     \<and> DNSNames c = hostnames \<and> ExtKeyUsage c = [ExtKeyUsageServerAuth]
     \<and> NotBefore c = trunc_second (NotBefore ca) \<and> NotAfter c = trunc_second (Add t d)"

context x509_lib
begin

lemma parse_parsed: "lib_ParseCertificate lib der = Inr c \<Longrightarrow> parsed lib c"
  using parse_raw by (auto simp: parsed_def)

lemma scan_certs_all_parsed:
  "\<forall>c \<in> set cs. parsed lib c \<Longrightarrow> \<forall>c \<in> set (fst (scan_certs lib ok cs bs)). parsed lib c"
proof (induction bs arbitrary: ok cs)
  case (Cons b bs)
  show ?case
  proof (cases "lib_ParseCertificate lib (Bytes b)")
    case (Inl m)
    with Cons show ?thesis by simp
  next
    case (Inr c)
    then have "\<forall>d \<in> set (cs @ [c]). parsed lib d" using Cons.prems parse_parsed by simp
    from Cons.IH [OF this] Cons Inr show ?thesis by (simp del: set_append)
  qed
qed simp

lemma ParseCertsPEM_parsed: "\<forall>c \<in> set (fst (ParseCertsPEM lib s)). parsed lib c"
proof -
  obtain bs where "pem.blocks s bs" using pem.blocks_exists by blast
  then show ?thesis
    using scan_certs_all_parsed [of "[]"] by (simp add: ParseCertsPEM_def parse_certs_loop_scan)
qed

lemma NewCA_spec:
  assumes "NewCA lib name d e = (Ok kp, e')"
  shows "\<exists>k c. kp = \<lparr>Key = Some k, Cert = Some c\<rparr> \<and> fresh_ca lib (clock_at lib e) d k c
    \<and> SubjectCommonName c = name \<and> ticks e' = Suc (ticks e)"
proof -
  from assms obtain k c der cfg where
    gen: "lib_GenerateKey lib (draws e) = Inr k"
    and cfg: "cfg = \<lparr>CommonName = name, Organization = [],
        Config_AltNames = \<lparr>Alt_DNSNames = [], Alt_IPs = []\<rparr>, Usages = []\<rparr>"
    and crt: "lib_CreateCertificate lib (Suc (draws e)) (ca_template cfg (clock_at lib e) d)
        (ca_template cfg (clock_at lib e) d) (RSA_pub (rsa_Public k)) k = Inr der"
    and prs: "lib_ParseCertificate lib der = Inr c"
    and kp: "kp = \<lparr>Key = Some k, Cert = Some c\<rparr>" and e': "ticks e' = Suc (ticks e)"
    by (auto simp: NewCA_def NewPrivateKey_def NewSelfSignedCACert_def Let_def clock_at_def
        lib_result_def split: sum.splits result.splits)
  from create_parse [OF crt] prs have "issued_as (ca_template cfg (clock_at lib e) d) (RSA_pub (rsa_Public k)) c"
    by auto
  moreover have "self_signed lib c k" using crt prs by (auto simp: self_signed_def)
  ultimately show ?thesis using kp e' gen prs cfg
    by (auto simp: fresh_ca_def issued_as_def ca_template_def signing_ca_def
        intro: pkcs1_roundtrip parse_parsed)
qed

lemma NewServerKeyPair_spec:
  assumes "NewServerKeyPair lib ca name ips hostnames d e = (Ok kp, e')"
  shows "\<exists>k c ck cac. kp = \<lparr>Key = Some k, Cert = Some c\<rparr> \<and> ca = \<lparr>Key = Some ck, Cert = Some cac\<rparr>
    \<and> fresh_server lib (clock_at lib e) d cac ck hostnames k c
    \<and> SubjectCommonName c = name \<and> ticks e' = Suc (ticks e)"
proof -
  from assms obtain k c der cfg ck cac serial where
    gen: "lib_GenerateKey lib (draws e) = Inr k"
    and cfg: "cfg = \<lparr>CommonName = name, Organization = [],
        Config_AltNames = \<lparr>Alt_DNSNames = hostnames, Alt_IPs = parse_ips lib ips\<rparr>,
        Usages = [ExtKeyUsageServerAuth]\<rparr>"
    and ca: "Cert ca = Some cac" "Key ca = Some ck"
    and crt: "lib_CreateCertificate lib (Suc (Suc (draws e)))
        (server_template cfg serial cac (clock_at lib e) d) cac (RSA_pub (rsa_Public k)) ck = Inr der"
    and prs: "lib_ParseCertificate lib der = Inr c"
    and kp: "kp = \<lparr>Key = Some k, Cert = Some c\<rparr>" and e': "ticks e' = Suc (ticks e)"
    by (auto simp: NewServerKeyPair_def NewPrivateKey_def NewSignedCert_def Let_def clock_at_def
        lib_result_def split: sum.splits result.splits option.splits if_splits)
  from create_parse [OF crt] prs
  have "issued_as (server_template cfg serial cac (clock_at lib e) d) (RSA_pub (rsa_Public k)) c"
    by auto
  moreover have "issued_by lib cac ck c" using crt prs by (auto simp: issued_by_def)
  moreover have "ca = \<lparr>Key = Some ck, Cert = Some cac\<rparr>" using ca by (cases ca) simp
  ultimately show ?thesis using kp e' gen prs cfg
    by (auto simp: fresh_server_def issued_as_def server_template_def
        intro: pkcs1_roundtrip parse_parsed)
qed

text \<open>Verification of a freshly issued certificate succeeds.\<close>

lemma VerifyTLS_fresh:
  assumes "self_signed lib ca ck" "signing_ca ca ck" "parsed lib ca"
    and srv: "fresh_server lib t d ca ck hostnames k c"
    and h: "hostnames = h # hs" "hostname_ok lib h"
    and cas: "\<forall>x \<in> set cas. parsed lib x" "ca \<in> set cas"
    and valid: "valid_at (clock_at lib e) ca" "valid_at (clock_at lib e) c"
    and cs: "\<forall>x \<in> set cs. parsed lib x"
  shows "VerifyTLS lib (EncodeCertsPEM (c # cs)) (EncodePrivateKeyPEM lib k) (EncodeCertsPEM cas) e
    = (Ok (), tick e)"
proof -
  from cs srv have "ParseCertsPEM lib (EncodeCertsPEM (c # cs)) = (c # cs, None)"
    by (intro Parse_EncodeCertsPEM) (auto simp: fresh_server_def)
  moreover have "ParsePrivateKeyPEM lib (EncodePrivateKeyPEM lib k) = Ok (RSA_key k)"
    using srv ParsePrivateKeyPEM_first [of lib k "[]"] by (auto simp: fresh_server_def)
  moreover have pool: "ca \<in> set (AppendCertsFromPEM lib [] (EncodeCertsPEM cas))"
    using ParseCertsPEM_pool [of lib "EncodeCertsPEM cas"] Parse_EncodeCertsPEM_certs [OF cas(1)] cas(2)
    by auto
  moreover have "lib_Verify lib (AppendCertsFromPEM lib [] (EncodeCertsPEM cas)) h (clock_at lib e) c = None"
    using assms pool by (intro verify_issued [of ca ck]) (auto simp: fresh_server_def)
  moreover have "DNSNames c = h # hs" using srv h by (simp add: fresh_server_def)
  ultimately show ?thesis by (auto simp: VerifyTLS_def Let_def)
qed

end

section \<open>Panics\<close>

lemma NewCA_no_panic: "NewCA lib name d e = (Panic m, e') \<Longrightarrow> False"
  by (auto simp: NewCA_def NewPrivateKey_def NewSelfSignedCACert_def lib_result_def Let_def
      split: sum.splits result.splits)

lemma NewServerKeyPair_no_panic:
  "Key ca \<noteq> None \<Longrightarrow> Cert ca \<noteq> None \<Longrightarrow>
   NewServerKeyPair lib ca name ips hostnames d e = (Panic m, e') \<Longrightarrow> False"
  by (auto simp: NewServerKeyPair_def NewPrivateKey_def NewSignedCert_def lib_result_def Let_def
      split: sum.splits result.splits if_splits option.splits)

text \<open>\<^verbatim>\<open>VerifyTLS\<close> panics exactly when it gets as far as the first certificate and that
  certificate has no DNS name.\<close>

lemma VerifyTLS_panic_iff:
  "is_Panic (fst (VerifyTLS lib certsPEM keyPEM caBundle e)) \<longleftrightarrow>
     (\<exists>k. ParsePrivateKeyPEM lib keyPEM = Ok k)
     \<and> (\<exists>c cs. ParseCertsPEM lib certsPEM = (c # cs, None) \<and> DNSNames c = [])
     \<and> AppendCertsFromPEM lib [] caBundle \<noteq> []"
proof (cases "ParsePrivateKeyPEM lib keyPEM")
  case (Ok k)
  obtain cs er where p: "ParseCertsPEM lib certsPEM = (cs, er)" by fastforce
  show ?thesis
  proof (cases er)
    case None
    with p ParseCertsPEM_ok have "cs \<noteq> []" by blast
    then obtain c cs' where "cs = c # cs'" by (cases cs) auto
    with Ok p None show ?thesis
      by (auto simp: VerifyTLS_def Let_def split: list.split option.split)
  qed (use Ok p in \<open>auto simp: VerifyTLS_def\<close>)
qed (auto simp: VerifyTLS_def)

lemma VerifyTLS_ticks:
  "VerifyTLS lib a b c e = (r, e') \<Longrightarrow> e' = e \<or> e' = tick e"
  by (auto simp: VerifyTLS_def Let_def split: result.splits prod.splits option.splits list.splits if_splits)

end
