(* ===== verification/Cert_Options.thy ===== *)
theory Cert_Options
  imports Go_Time
begin

text \<open>
  \<^verbatim>\<open>src/pkg/certificate/chain/options.go\<close> and the type \<^verbatim>\<open>Options\<close> of \<^verbatim>\<open>api.go\<close>: the four
  intervals that drive rotation, their defaults and their validation. Durations are 64-bit;
  no operation here leaves that range, since the only arithmetic is a truncating division.
\<close>

record Options =
  CARotateInterval :: duration
  CAOverlapInterval :: duration
  CertRotateInterval :: duration
  CertOverlapInterval :: duration

definition OneYearDuration :: duration where
  "OneYearDuration = 365 * 24 * Hour"

definition validate :: "Options \<Rightarrow> error option" where
  "validate o' =
     (if CAOverlapInterval o' \<ge> CARotateInterval o' then
        Some (Errorf (''failed validating certificate options, 'CAOverlapInterval' has to be < 'CARotateInterval'' @ [CHR 0x27]))
      else if CertRotateInterval o' > CARotateInterval o' then
        Some (Errorf (''failed validating certificate options, 'CertRotateInterval' has to be <= 'CARotateInterval'' @ [CHR 0x27]))
      else if CertOverlapInterval o' \<ge> CertRotateInterval o' then
        Some (Errorf (''failed validating certificate options, 'CertOverlapInterval' has to be < 'CertRotateInterval'' @ [CHR 0x27]))
      else None)"

text \<open>Go's integer division truncates towards zero.\<close>

definition withDefaults :: "Options \<Rightarrow> Options" where
  "withDefaults o' =
     (let w0 = o';
          w1 = (if CARotateInterval o' = 0 then w0\<lparr>CARotateInterval := OneYearDuration\<rparr> else w0);
          w2 = (if CAOverlapInterval o' = 0
                then w1\<lparr>CAOverlapInterval := CARotateInterval w1 sdiv 3\<rparr> else w1);
          w3 = (if CertRotateInterval o' = 0
                then w2\<lparr>CertRotateInterval := CARotateInterval w2\<rparr> else w2);
          w4 = (if CertOverlapInterval o' = 0
                then w3\<lparr>CertOverlapInterval := CertRotateInterval w3 sdiv 3\<rparr> else w3)
      in w4)"

text \<open>The receiver is overwritten only when the options are valid.\<close>

definition SetDefaultsAndValidate :: "Options \<Rightarrow> error option \<times> Options" where
  "SetDefaultsAndValidate o' =
     (let w = withDefaults o' in
      case validate w of Some e \<Rightarrow> (Some e, o') | None \<Rightarrow> (None, w))"

text \<open>Well-formed options, as the rest of the package relies on them.\<close>

definition options_ok :: "Options \<Rightarrow> bool" where
  "options_ok o' = (CAOverlapInterval o' < CARotateInterval o'
     \<and> CertRotateInterval o' \<le> CARotateInterval o'
     \<and> CertOverlapInterval o' < CertRotateInterval o')"

lemma validate_None: "validate o' = None \<longleftrightarrow> options_ok o'"
  by (auto simp: validate_def options_ok_def)

lemma sdiv3_bounds: "(0::int) < x \<Longrightarrow> 0 \<le> x sdiv 3 \<and> x sdiv 3 < x"
  "(x::int) < 0 \<Longrightarrow> x < x sdiv 3"
  by (auto simp: signed_divide_int_def sgn_if)

lemma sdiv3_zero: "(x::int) sdiv 3 = 0 \<longleftrightarrow> \<bar>x\<bar> < 3"
  by (auto simp: signed_divide_int_def sgn_if)

lemma OneYearDuration_value: "OneYearDuration = 31536000000000000"
  by (simp add: OneYearDuration_def Hour_def Second_def)

lemma withDefaults_sel:
  "CARotateInterval (withDefaults o') =
     (if CARotateInterval o' = 0 then OneYearDuration else CARotateInterval o')"
  "CAOverlapInterval (withDefaults o') =
     (if CAOverlapInterval o' = 0 then CARotateInterval (withDefaults o') sdiv 3
      else CAOverlapInterval o')"
  "CertRotateInterval (withDefaults o') =
     (if CertRotateInterval o' = 0 then CARotateInterval (withDefaults o') else CertRotateInterval o')"
  "CertOverlapInterval (withDefaults o') =
     (if CertOverlapInterval o' = 0 then CertRotateInterval (withDefaults o') sdiv 3
      else CertOverlapInterval o')"
  by (simp_all add: withDefaults_def Let_def)

lemma withDefaults_nonzero:
  "CARotateInterval (withDefaults o') \<noteq> 0" "CertRotateInterval (withDefaults o') \<noteq> 0"
  by (simp_all add: withDefaults_sel OneYearDuration_value)

lemma withDefaults_idem: "withDefaults (withDefaults o') = withDefaults o'"
proof -
  let ?w = "withDefaults o'"
  have "CARotateInterval (withDefaults ?w) = CARotateInterval ?w"
    "CertRotateInterval (withDefaults ?w) = CertRotateInterval ?w"
    by (simp_all add: withDefaults_sel [of ?w] withDefaults_nonzero)
  moreover from this have "CAOverlapInterval (withDefaults ?w) = CAOverlapInterval ?w"
    "CertOverlapInterval (withDefaults ?w) = CertOverlapInterval ?w"
    using withDefaults_sel(2,4) [of ?w] withDefaults_sel(2,4) [of o'] by (simp_all split: if_splits)
  ultimately show ?thesis by (intro Options.equality) simp_all
qed

lemma SetDefaultsAndValidate_cases:
  obtains (valid) "SetDefaultsAndValidate o' = (None, withDefaults o')" "options_ok (withDefaults o')"
  | (invalid) e where "SetDefaultsAndValidate o' = (Some e, o')" "\<not> options_ok (withDefaults o')"
  by (cases "validate (withDefaults o')")
    (auto simp: SetDefaultsAndValidate_def Let_def simp flip: validate_None)

end
