(* ===== verification/Cert_Chain.thy ===== *)
theory Cert_Chain
  imports Triple Cert_Options
begin

text \<open>
  The certificate chain of \<^verbatim>\<open>src/pkg/certificate/chain\<close>: its data (\<^verbatim>\<open>api.go\<close>), decoding the
  PEM data, the setters that keep the decoded and the PEM form of the data in step, and the
  verification of the chain (\<^verbatim>\<open>chain.go\<close>).

  The issued certificates of a chain are a map from names to pointers. The program creates one
  \<^verbatim>\<open>CertificateIssue\<close> per name, so the entries do not alias and a write through the pointer
  is a write to the entry. Slices of certificates are replaced, never written through a second
  reference, so they are lists.
\<close>

section \<open>Data\<close>

record CertificateIssue =
  Issue_Name :: string
  IPs :: "string list"
  Hostnames :: "string list"
  KeyPEM :: slice
  CertPEM :: slice
  CACertPEM :: "slice gomap"
  issue_key :: "rsa_PrivateKey option"
  issue_certs :: "certificate list"
  issue_caCerts :: "certificate list gomap"

record CA =
  CA_Name :: string
  CA_KeyPEM :: slice
  CA_CertPEM :: slice
  CA_keyPair :: KeyPair

record CertificateChainData =
  CertificatesIssued :: "CertificateIssue gomap"
  Chain_CA :: CA

record certificateChain =
  chain_Options :: Options
  chain_data :: CertificateChainData

definition getLastCert :: "certificate list \<Rightarrow> certificate option" where
  "getLastCert cs = (if length cs \<le> 0 then None else Some (cs ! (length cs - 1)))"

section \<open>Decoding\<close>

definition keyPairPemToKeypair ::
  "go_lib \<Rightarrow> slice \<Rightarrow> slice \<Rightarrow> rsa_PrivateKey option \<times> certificate list \<times> error option" where
  "keyPairPemToKeypair lib keypem certpem =
     (case ParsePrivateKeyPEM lib (bytes_of keypem) of
        Ok (RSA_key k) \<Rightarrow>
          (case ParseCertsPEM lib (bytes_of certpem) of
             (_, Some er) \<Rightarrow> (None, [], Some er)
           | (cs, None) \<Rightarrow> (Some k, cs, None))
      | Ok _ \<Rightarrow> (None, [], Some (Errorf ''Expected RSA key but found different type''))
      | Fail er \<Rightarrow> (None, [], Some er)
      | Panic m \<Rightarrow> (None, [], Some (Errorf m)))"

text \<open>Decoding one issued certificate and its CA bundles. Decoding errors are only logged: what
  is left undecoded makes the chain rotate.\<close>

definition decode_issue :: "go_lib \<Rightarrow> CertificateIssue \<Rightarrow> CertificateIssue" where
  "decode_issue lib ci =
     (case keyPairPemToKeypair lib (KeyPEM ci) (CertPEM ci) of
        (k, cs, _) \<Rightarrow>
          ci\<lparr>issue_key := k, issue_certs := cs,
             issue_caCerts := map_values (\<lambda>v. fst (ParseCertsPEM lib (bytes_of v))) (CACertPEM ci)\<rparr>)"

definition decode_ca :: "go_lib \<Rightarrow> CA \<Rightarrow> CA" where
  "decode_ca lib ca =
     (case keyPairPemToKeypair lib (CA_KeyPEM ca) (CA_CertPEM ca) of
        (k, cs, _) \<Rightarrow> ca\<lparr>CA_keyPair := \<lparr>Key = k, Cert = getLastCert cs\<rparr>\<rparr>)"

definition decode_data :: "go_lib \<Rightarrow> CertificateChainData \<Rightarrow> CertificateChainData" where
  "decode_data lib d = d\<lparr>Chain_CA := decode_ca lib (Chain_CA d),
     CertificatesIssued := map_values (decode_issue lib) (CertificatesIssued d)\<rparr>"

definition newChain ::
  "go_lib \<Rightarrow> Options \<Rightarrow> CertificateChainData \<Rightarrow> certificateChain result" where
  "newChain lib options d =
     (case SetDefaultsAndValidate options of
        (Some er, _) \<Rightarrow> Fail er
      | (None, o') \<Rightarrow> Ok \<lparr>chain_Options = o', chain_data = decode_data lib d\<rparr>)"

section \<open>Setters\<close>

definition keyPairToKeyPairPem :: "go_lib \<Rightarrow> KeyPair \<Rightarrow> (bytes \<times> bytes) result" where
  "keyPairToKeyPairPem lib kp =
     (case Key kp of
        None \<Rightarrow> Panic ''nil pointer dereference: keyPair.Key''
      | Some k \<Rightarrow> (case Cert kp of
          None \<Rightarrow> Panic ''nil pointer dereference: keyPair.Cert''
        | Some c \<Rightarrow> Ok (EncodePrivateKeyPEM lib k, EncodeCertPEM c)))"

text \<open>The loop over the CA bundles of one issued certificate in \<^verbatim>\<open>setCaKeyPair\<close>.\<close>

fun add_ca_loop ::
  "certificate \<Rightarrow> certificate list gomap \<Rightarrow> CertificateIssue \<Rightarrow> CertificateIssue" where
  "add_ca_loop c [] ci = ci"
| "add_ca_loop c ((k, caCerts) # m) ci =
     (let cs = caCerts @ [c] in
      add_ca_loop c m (ci\<lparr>issue_caCerts := AList.update k cs (issue_caCerts ci),
                         CACertPEM := AList.update k (Some (EncodeCertsPEM cs)) (CACertPEM ci)\<rparr>))"

definition add_ca :: "certificate \<Rightarrow> CertificateIssue \<Rightarrow> CertificateIssue" where
  "add_ca c ci = add_ca_loop c (issue_caCerts ci) ci"

definition setCaKeyPair :: "go_lib \<Rightarrow> certificateChain \<Rightarrow> KeyPair \<Rightarrow> certificateChain result" where
  "setCaKeyPair lib ch kp =
     bind_result (keyPairToKeyPairPem lib kp) (\<lambda>(keyPEM, certPEM).
       let d = chain_data ch;
           ca = (Chain_CA d)\<lparr>CA_keyPair := kp, CA_KeyPEM := Some keyPEM, CA_CertPEM := Some certPEM\<rparr>;
           issued = (case Cert kp of None \<Rightarrow> CertificatesIssued d
                     | Some c \<Rightarrow> map_values (add_ca c) (CertificatesIssued d))
       in Ok (ch\<lparr>chain_data := d\<lparr>Chain_CA := ca, CertificatesIssued := issued\<rparr>\<rparr>))"

definition setCaCerts :: "string \<Rightarrow> certificate list \<Rightarrow> CertificateIssue \<Rightarrow> CertificateIssue" where
  "setCaCerts name caCerts ci =
     ci\<lparr>issue_caCerts := AList.update name caCerts (issue_caCerts ci),
        CACertPEM := AList.update name (Some (EncodeCertsPEM caCerts)) (CACertPEM ci)\<rparr>"

definition setKeyResetCert :: "go_lib \<Rightarrow> CertificateIssue \<Rightarrow> KeyPair \<Rightarrow> CertificateIssue result" where
  "setKeyResetCert lib ci kp =
     bind_result (keyPairToKeyPairPem lib kp) (\<lambda>(keyPEM, certPEM).
       Ok (ci\<lparr>issue_key := Key kp,
              issue_certs := (case Cert kp of None \<Rightarrow> [] | Some c \<Rightarrow> [c]),
              KeyPEM := Some keyPEM, CertPEM := Some certPEM\<rparr>))"

definition setKeyAppendCert :: "go_lib \<Rightarrow> CertificateIssue \<Rightarrow> KeyPair \<Rightarrow> CertificateIssue result" where
  "setKeyAppendCert lib ci kp =
     bind_result (keyPairToKeyPairPem lib kp) (\<lambda>(keyPEM, _).
       let cs = issue_certs ci @ (case Cert kp of None \<Rightarrow> [] | Some c \<Rightarrow> [c]) in
       Ok (ci\<lparr>issue_key := Key kp, issue_certs := cs,
              KeyPEM := Some keyPEM, CertPEM := Some (EncodeCertsPEM cs)\<rparr>))"

definition setCerts :: "certificate list \<Rightarrow> CertificateIssue \<Rightarrow> CertificateIssue" where
  "setCerts cs ci = ci\<lparr>issue_certs := cs, CertPEM := Some (EncodeCertsPEM cs)\<rparr>"

section \<open>Verification\<close>

fun verify_bundles ::
  "go_lib \<Rightarrow> certificate option \<Rightarrow> CertificateIssue \<Rightarrow> slice gomap \<Rightarrow> env \<Rightarrow> unit result \<times> env" where
  "verify_bundles lib caCert ci [] e = (Ok (), e)"
| "verify_bundles lib caCert ci ((name, caCertPEM) # m) e =
     (let lastCert = getLastCert (case map_of (issue_caCerts ci) name of None \<Rightarrow> [] | Some cs \<Rightarrow> cs) in
      if lastCert \<noteq> caCert
      then (Fail (Errorf ''CA last certificate for verification and CA certificate are different''), e)
      else case VerifyTLS lib (bytes_of (CertPEM ci)) (bytes_of (KeyPEM ci)) (bytes_of caCertPEM) e of
        (Panic s, e1) \<Rightarrow> (Panic s, e1)
      | (Fail er, e1) \<Rightarrow> (Fail (Wrap er (''Failed to verify certificate '' @ Issue_Name ci
            @ '' with named CA '' @ name)), e1)
      | (Ok _, e1) \<Rightarrow> verify_bundles lib caCert ci m e1)"

fun verify_issues ::
  "go_lib \<Rightarrow> certificate option \<Rightarrow> CertificateIssue gomap \<Rightarrow> env \<Rightarrow> unit result \<times> env" where
  "verify_issues lib caCert [] e = (Ok (), e)"
| "verify_issues lib caCert ((n, ci) # m) e =
     (case verify_bundles lib caCert ci (CACertPEM ci) e of
        (Ok _, e1) \<Rightarrow> verify_issues lib caCert m e1
      | (Fail er, e1) \<Rightarrow> (Fail er, e1)
      | (Panic s, e1) \<Rightarrow> (Panic s, e1))"

definition verifyTLS :: "go_lib \<Rightarrow> certificateChain \<Rightarrow> env \<Rightarrow> unit result \<times> env" where
  "verifyTLS lib ch e =
     verify_issues lib (Cert (CA_keyPair (Chain_CA (chain_data ch))))
       (CertificatesIssued (chain_data ch)) e"

section \<open>Lemmas\<close>

lemma getLastCert_Nil [simp]: "getLastCert [] = None"
  by (simp add: getLastCert_def)

lemma getLastCert_snoc [simp]: "getLastCert (cs @ [c]) = Some c"
  by (simp add: getLastCert_def)

lemma getLastCert_last: "cs \<noteq> [] \<Longrightarrow> getLastCert cs = Some (last cs)"
  by (simp add: getLastCert_def last_conv_nth)

lemma getLastCert_None [simp]: "getLastCert cs = None \<longleftrightarrow> cs = []"
  by (simp add: getLastCert_def)

lemma getLastCert_Some: "getLastCert cs = Some c \<longleftrightarrow> (\<exists>ds. cs = ds @ [c])"
  by (cases cs rule: rev_cases) auto

lemma keyPairToKeyPairPem_Ok [simp]:
  "keyPairToKeyPairPem lib \<lparr>Key = Some k, Cert = Some c\<rparr> = Ok (EncodePrivateKeyPEM lib k, EncodeCertPEM c)"
  by (simp add: keyPairToKeyPairPem_def)

lemma keyPairPemToKeypair_cases:
  obtains (ok) k cs where "keyPairPemToKeypair lib kp cp = (Some k, cs, None)" "cs \<noteq> []"
    "ParsePrivateKeyPEM lib (bytes_of kp) = Ok (RSA_key k)"
    "ParseCertsPEM lib (bytes_of cp) = (cs, None)"
  | (bad) er where "keyPairPemToKeypair lib kp cp = (None, [], Some er)"
proof (cases "ParsePrivateKeyPEM lib (bytes_of kp)")
  case (Ok k)
  obtain cs er where p: "ParseCertsPEM lib (bytes_of cp) = (cs, er)" by fastforce
  show ?thesis
  proof (cases k)
    case (RSA_key rk)
    show ?thesis
    proof (cases er)
      case None
      with p have "cs \<noteq> []" by (auto dest: ParseCertsPEM_ok)
      with ok Ok RSA_key p None show ?thesis by (simp add: keyPairPemToKeypair_def)
    qed (use bad Ok RSA_key p in \<open>simp add: keyPairPemToKeypair_def\<close>)
  qed (use bad Ok in \<open>simp_all add: keyPairPemToKeypair_def\<close>)
qed (use bad in \<open>simp_all add: keyPairPemToKeypair_def\<close>)

section \<open>Bundles\<close>

text \<open>The decoded CA bundles and their PEM forms have the same names.\<close>

definition keyed :: "CertificateIssue \<Rightarrow> bool" where
  "keyed ci = (map fst (issue_caCerts ci) = map fst (CACertPEM ci) \<and> distinct (map fst (CACertPEM ci)))"

definition with_bundles :: "certificate list gomap \<Rightarrow> CertificateIssue \<Rightarrow> CertificateIssue" where
  "with_bundles m ci =
     ci\<lparr>issue_caCerts := m, CACertPEM := map_values (\<lambda>cs. Some (EncodeCertsPEM cs)) m\<rparr>"

fun set_bundles :: "certificate list gomap \<Rightarrow> CertificateIssue \<Rightarrow> CertificateIssue" where
  "set_bundles [] ci = ci"
| "set_bundles ((k, cs) # m) ci = set_bundles m (setCaCerts k cs ci)"

lemma set_bundles_prefix:
  assumes "issue_caCerts ci = pre @ olds" "CACertPEM ci = map_values (\<lambda>cs. Some (EncodeCertsPEM cs)) pre @ oldp"
    and "map fst olds = map fst news" "map fst oldp = map fst news" "distinct (map fst (pre @ news))"
  shows "set_bundles news ci = with_bundles (pre @ news) ci"
  using assms
proof (induction news arbitrary: pre olds oldp ci)
  case Nil
  then show ?case by (simp add: with_bundles_def)
next
  case (Cons kv news)
  obtain k cs where kv: "kv = (k, cs)" by fastforce
  from Cons.prems(3,4) kv obtain x os y ps where
    o: "olds = (k, x) # os" "oldp = (k, y) # ps" "map fst os = map fst news" "map fst ps = map fst news"
    by (cases olds; cases oldp) auto
  have k: "k \<notin> fst ` set pre" "k \<notin> fst ` set (map_values (\<lambda>cs. Some (EncodeCertsPEM cs)) pre)"
    using Cons.prems(5) kv by (auto simp: set_map_values image_iff)
  define ci' where "ci' = setCaCerts k cs ci"
  have "issue_caCerts ci' = (pre @ [(k, cs)]) @ os"
    "CACertPEM ci' = map_values (\<lambda>cs. Some (EncodeCertsPEM cs)) (pre @ [(k, cs)]) @ ps"
    using Cons.prems(1,2) o k by (simp_all add: ci'_def setCaCerts_def AList_update_append map_values_def)
  moreover have "distinct (map fst ((pre @ [(k, cs)]) @ news))" using Cons.prems(5) kv by simp
  ultimately have "set_bundles news ci' = with_bundles ((pre @ [(k, cs)]) @ news) ci'"
    using o by (intro Cons.IH)
  then show ?case
    by (simp add: kv ci'_def with_bundles_def setCaCerts_def)
qed

lemma set_bundles_keyed:
  "keyed ci \<Longrightarrow> map fst news = map fst (issue_caCerts ci) \<Longrightarrow> set_bundles news ci = with_bundles news ci"
proof -
  assume "keyed ci" "map fst news = map fst (issue_caCerts ci)"
  then have "set_bundles news ci = with_bundles ([] @ news) ci"
    by (intro set_bundles_prefix [of ci "[]" "issue_caCerts ci" "CACertPEM ci"]) (simp_all add: keyed_def)
  then show ?thesis by simp
qed

lemma add_ca_loop_set_bundles:
  "add_ca_loop c m ci = set_bundles (map_values (\<lambda>cs. cs @ [c]) m) ci"
  by (induction m arbitrary: ci) (auto simp: setCaCerts_def Let_def)

lemma add_ca_keyed:
  "keyed ci \<Longrightarrow> add_ca c ci = with_bundles (map_values (\<lambda>cs. cs @ [c]) (issue_caCerts ci)) ci"
  by (simp add: add_ca_def add_ca_loop_set_bundles set_bundles_keyed)

lemma setCerts_sel [simp]:
  "issue_certs (setCerts cs ci) = cs" "issue_caCerts (setCerts cs ci) = issue_caCerts ci"
  "Hostnames (setCerts cs ci) = Hostnames ci" "CACertPEM (setCerts cs ci) = CACertPEM ci"
  by (simp_all add: setCerts_def)

lemma with_bundles_sel [simp]:
  "issue_certs (with_bundles m ci) = issue_certs ci" "issue_caCerts (with_bundles m ci) = m"
  "Hostnames (with_bundles m ci) = Hostnames ci"
  by (simp_all add: with_bundles_def)

section \<open>Coherence of the decoded data and the PEM data\<close>

text \<open>An issued certificate is coherent when decoding its PEM data changes nothing.\<close>

definition coherent :: "go_lib \<Rightarrow> CertificateIssue \<Rightarrow> bool" where
  "coherent lib ci = (distinct (map fst (CACertPEM ci)) \<and> decode_issue lib ci = ci)"

definition coherent_ca :: "go_lib \<Rightarrow> CA \<Rightarrow> bool" where
  "coherent_ca lib ca = (decode_ca lib ca = ca)"

definition coherent_data :: "go_lib \<Rightarrow> CertificateChainData \<Rightarrow> bool" where
  "coherent_data lib d = (coherent_ca lib (Chain_CA d)
     \<and> (\<forall>(n, ci) \<in> set (CertificatesIssued d). coherent lib ci))"

text \<open>The PEM data of a chain as it is stored: every bundle map has distinct names.\<close>

definition distinct_bundles :: "CertificateChainData \<Rightarrow> bool" where
  "distinct_bundles d = (\<forall>(n, ci) \<in> set (CertificatesIssued d). distinct (map fst (CACertPEM ci)))"

lemma decode_issue_pems [simp]:
  "KeyPEM (decode_issue lib ci) = KeyPEM ci" "CertPEM (decode_issue lib ci) = CertPEM ci"
  "CACertPEM (decode_issue lib ci) = CACertPEM ci" "Hostnames (decode_issue lib ci) = Hostnames ci"
  "Issue_Name (decode_issue lib ci) = Issue_Name ci" "IPs (decode_issue lib ci) = IPs ci"
  by (auto simp: decode_issue_def split: prod.split)

lemma decode_issue_idem: "decode_issue lib (decode_issue lib ci) = decode_issue lib ci"
  by (auto simp: decode_issue_def split: prod.split)

lemma decode_ca_idem: "decode_ca lib (decode_ca lib ca) = decode_ca lib ca"
  by (auto simp: decode_ca_def split: prod.split)

lemma coherent_decode: "distinct_bundles d \<Longrightarrow> coherent_data lib (decode_data lib d)"
  by (auto simp: coherent_data_def coherent_ca_def coherent_def distinct_bundles_def decode_data_def
      decode_ca_idem decode_issue_idem set_map_values)

lemma coherent_iff:
  "coherent lib ci \<longleftrightarrow> distinct (map fst (CACertPEM ci))
     \<and> (issue_key ci, issue_certs ci) = (case keyPairPemToKeypair lib (KeyPEM ci) (CertPEM ci) of (k, cs, _) \<Rightarrow> (k, cs))
     \<and> issue_caCerts ci = map_values (\<lambda>v. fst (ParseCertsPEM lib (bytes_of v))) (CACertPEM ci)"
  by (cases ci) (auto simp: coherent_def decode_issue_def split: prod.splits)

lemma coherent_keyed: "coherent lib ci \<Longrightarrow> keyed ci"
  by (simp add: coherent_iff keyed_def)

lemma coherent_key: "coherent lib ci \<Longrightarrow> issue_key ci = None \<longleftrightarrow> issue_certs ci = []"
  by (rule keyPairPemToKeypair_cases [of lib "KeyPEM ci" "CertPEM ci"]) (auto simp: coherent_iff)

lemma coherent_ca_parts:
  "coherent_ca lib ca \<Longrightarrow> Key (CA_keyPair ca) = None \<longleftrightarrow> Cert (CA_keyPair ca) = None"
proof -
  assume "coherent_ca lib ca"
  then have "CA_keyPair ca = CA_keyPair (decode_ca lib ca)" by (simp add: coherent_ca_def)
  then show ?thesis
    by (cases rule: keyPairPemToKeypair_cases [of lib "CA_KeyPEM ca" "CA_CertPEM ca"])
      (auto simp: decode_ca_def)
qed

context x509_lib
begin

lemma coherent_parsed:
  assumes "coherent lib ci"
  shows "\<forall>c \<in> set (issue_certs ci). parsed lib c"
    "\<forall>(n, cs) \<in> set (issue_caCerts ci). \<forall>c \<in> set cs. parsed lib c"
proof -
  show "\<forall>c \<in> set (issue_certs ci). parsed lib c"
  proof (cases rule: keyPairPemToKeypair_cases [of lib "KeyPEM ci" "CertPEM ci"])
    case (ok k cs)
    with assms have "issue_certs ci = cs" by (simp add: coherent_iff)
    with ok(4) ParseCertsPEM_parsed [of "bytes_of (CertPEM ci)"] show ?thesis by simp
  next
    case (bad er)
    with assms show ?thesis by (simp add: coherent_iff)
  qed
  show "\<forall>(n, cs) \<in> set (issue_caCerts ci). \<forall>c \<in> set cs. parsed lib c"
    using assms ParseCertsPEM_parsed by (auto simp: coherent_iff set_map_values)
qed

lemma coherent_with_bundles:
  assumes "coherent lib ci" "map fst m = map fst (issue_caCerts ci)"
    and "\<forall>(n, cs) \<in> set m. \<forall>c \<in> set cs. parsed lib c"
  shows "coherent lib (with_bundles m ci)"
proof -
  have "map_values (\<lambda>v. fst (ParseCertsPEM lib (bytes_of v))) (map_values (\<lambda>cs. Some (EncodeCertsPEM cs)) m) = m"
    using assms(3) by (induction m) (auto simp: Parse_EncodeCertsPEM_certs)
  moreover have "distinct (map fst m)"
    using assms coherent_keyed [OF assms(1)] by (simp add: keyed_def)
  ultimately show ?thesis using assms(1) by (simp add: coherent_iff with_bundles_def)
qed

lemma keyPairPemToKeypair_encoded:
  assumes "lib_ParsePKCS1PrivateKey lib (lib_MarshalPKCS1PrivateKey lib k) = Inr k"
    and "\<forall>c \<in> set cs. parsed lib c" "cs \<noteq> []"
  shows "keyPairPemToKeypair lib (Some (EncodePrivateKeyPEM lib k)) (Some (EncodeCertsPEM cs)) = (Some k, cs, None)"
  using ParsePrivateKeyPEM_first [OF assms(1), of "[]"] Parse_EncodeCertsPEM [OF assms(2,3)]
  by (simp add: keyPairPemToKeypair_def)

lemma coherent_new_key:
  assumes "coherent lib ci" "lib_ParsePKCS1PrivateKey lib (lib_MarshalPKCS1PrivateKey lib k) = Inr k"
    and "\<forall>c \<in> set cs. parsed lib c" "cs \<noteq> []"
  shows "coherent lib (ci\<lparr>issue_key := Some k, issue_certs := cs,
     KeyPEM := Some (EncodePrivateKeyPEM lib k), CertPEM := Some (EncodeCertsPEM cs)\<rparr>)"
  using assms keyPairPemToKeypair_encoded [OF assms(2-4)] by (simp add: coherent_iff)

lemma coherent_setCerts:
  assumes "coherent lib ci" "set cs \<subseteq> set (issue_certs ci)" "issue_certs ci \<noteq> [] \<Longrightarrow> cs \<noteq> []"
  shows "coherent lib (setCerts cs ci)"
proof (cases "cs = []")
  case True
  with assms have "issue_certs ci = []" by blast
  with assms(1) coherent_key have "issue_key ci = None" by blast
  moreover have "keyPairPemToKeypair lib (KeyPEM ci) (Some []) = (None, [], snd (snd (keyPairPemToKeypair lib (KeyPEM ci) (Some []))))"
    by (cases rule: keyPairPemToKeypair_cases [of lib "KeyPEM ci" "Some []"])
      (auto simp: ParseCertsPEM_def parse_certs_loop.simps)
  then obtain er where "keyPairPemToKeypair lib (KeyPEM ci) (Some []) = (None, [], er)" by metis
  ultimately show ?thesis using True assms(1) by (simp add: coherent_iff setCerts_def EncodeCertsPEM_def)
next
  case False
  with assms(2) have ne: "issue_certs ci \<noteq> []" by auto
  with assms(1) coherent_key obtain k where k: "issue_key ci = Some k" by blast
  have "\<forall>c \<in> set cs. parsed lib c" using coherent_parsed(1) [OF assms(1)] assms(2) by auto
  with False have p: "ParseCertsPEM lib (EncodeCertsPEM cs) = (cs, None)" by (intro Parse_EncodeCertsPEM)
  have "ParsePrivateKeyPEM lib (bytes_of (KeyPEM ci)) = Ok (RSA_key k)"
    using assms(1) k by (cases rule: keyPairPemToKeypair_cases [of lib "KeyPEM ci" "CertPEM ci"])
      (auto simp: coherent_iff)
  with p have "keyPairPemToKeypair lib (KeyPEM ci) (Some (EncodeCertsPEM cs)) = (Some k, cs, None)"
    by (simp add: keyPairPemToKeypair_def)
  with assms(1) k show ?thesis by (simp add: coherent_iff setCerts_def)
qed

end

end
