(* ===== verification/Kube_Objects.thy ===== *)
theory Kube_Objects
  imports Cert_Chain
begin

text \<open>
  The Kubernetes resources the certificate manager works on, \<^verbatim>\<open>types.go\<close>, and the part of
  \<^verbatim>\<open>configuration.go\<close> that names them and maps each of them to and from certificate chain data.

  A \<^verbatim>\<open>client.Object\<close> is one of the three kinds the program handles. What the program does not
  look at is kept in one opaque member per structure, so that comparing objects compares it too.
  A nil map of annotations and a nil list of webhooks are the empty ones, which comparing objects
  therefore does not tell apart; both are read from the server, which omits them when empty.
  Kinds are strings, as in the source; the map of object operators has no entry for other kinds.
\<close>

section \<open>\<^verbatim>\<open>types.go\<close>\<close>

type_synonym WebhookType = string

definition MutatingWebhook :: WebhookType where
  "MutatingWebhook = ''Mutating''"

definition ValidatingWebhook :: WebhookType where
  "ValidatingWebhook = ''Validating''"

record WebhookReference =
  Ref_Type :: WebhookType
  Ref_Name :: string

definition WebhookReference_String :: "WebhookReference \<Rightarrow> string" where
  "WebhookReference_String w = Ref_Type w @ ''Webhook/'' @ Ref_Name w"

section \<open>Keys and names\<close>

type_synonym objectKind = string

definition mutatingWebhookType :: objectKind where
  "mutatingWebhookType = MutatingWebhook"

definition validatingWebhookType :: objectKind where
  "validatingWebhookType = ValidatingWebhook"

definition secretType :: objectKind where
  "secretType = ''Secret''"

record NamespacedName =
  Namespace :: string
  Name :: string

definition NamespacedName_String :: "NamespacedName \<Rightarrow> string" where
  "NamespacedName_String n = Namespace n @ ''/'' @ Name n"

record objectKey =
  Kind :: objectKind
  key_Name :: NamespacedName

definition objectKey_String :: "objectKey \<Rightarrow> string" where
  "objectKey_String k = Kind k @ ''/'' @ NamespacedName_String (key_Name k)"

definition newObjectKey :: "objectKind \<Rightarrow> string \<Rightarrow> string \<Rightarrow> objectKey" where
  "newObjectKey kind namespace name = \<lparr>Kind = kind, key_Name = \<lparr>Namespace = namespace, Name = name\<rparr>\<rparr>"

definition caBundleName :: "string \<Rightarrow> string \<Rightarrow> string" where
  "caBundleName webhookName configName = webhookName @ ''-'' @ configName"

definition clusterDomain :: string where
  "clusterDomain = ''.cluster.local''"

definition serviceSubdomain :: string where
  "serviceSubdomain = ''.svc''"

definition namespacedHostname :: "string \<Rightarrow> string \<Rightarrow> string" where
  "namespacedHostname name namespace = name @ ''.'' @ namespace"

definition serviceHostname :: "string \<Rightarrow> string \<Rightarrow> string" where
  "serviceHostname name namespace = name @ ''.'' @ namespace @ serviceSubdomain"

definition serviceFqdn :: "string \<Rightarrow> string \<Rightarrow> string" where
  "serviceFqdn name namespace = name @ ''.'' @ namespace @ serviceSubdomain @ clusterDomain"

definition newCertificateIssue :: "string \<Rightarrow> string \<Rightarrow> CertificateIssue" where
  "newCertificateIssue name namespace =
     (let commonName = serviceHostname name namespace;
          hostnames = [name, namespacedHostname name namespace, commonName, serviceFqdn name namespace]
      in \<lparr>Issue_Name = commonName, IPs = [], Hostnames = hostnames, KeyPEM = None, CertPEM = None,
          CACertPEM = [], issue_key = None, issue_certs = [], issue_caCerts = []\<rparr>)"

section \<open>Resources\<close>

record ObjectMeta =
  Meta_Name :: string
  Meta_Namespace :: string
  Annotations :: "string gomap"
  meta_rest :: string

record ServiceReference =
  Service_Namespace :: string
  Service_Name :: string
  service_rest :: string

record WebhookClientConfig =
  Service :: "ServiceReference option"
  CABundle :: slice
  config_rest :: string

record Webhook =
  Webhook_Name :: string
  ClientConfig :: WebhookClientConfig
  webhook_rest :: string

record WebhookConfiguration =
  wc_Meta :: ObjectMeta
  Webhooks :: "Webhook list"

text \<open>\<open>Data\<close> is \<^const>\<open>None\<close> when the map is nil.\<close>

record Secret =
  secret_Meta :: ObjectMeta
  Data :: "slice gomap option"
  secret_Type :: string

datatype Object =
    MutatingConfiguration WebhookConfiguration
  | ValidatingConfiguration WebhookConfiguration
  | SecretObject Secret

fun object_Meta :: "Object \<Rightarrow> ObjectMeta" where
  "object_Meta (MutatingConfiguration w) = wc_Meta w"
| "object_Meta (ValidatingConfiguration w) = wc_Meta w"
| "object_Meta (SecretObject s) = secret_Meta s"

definition secretManagedAnnotationKey :: string where
  "secretManagedAnnotationKey = ''kubevirt.io/kube-admission-webhook''"

definition CACertKey :: string where
  "CACertKey = ''ca.crt''"

definition CAPrivateKeyKey :: string where
  "CAPrivateKeyKey = ''ca.key''"

definition TLSCertKey :: string where
  "TLSCertKey = ''tls.crt''"

definition TLSPrivateKeyKey :: string where
  "TLSPrivateKeyKey = ''tls.key''"

definition SecretTypeTLS :: string where
  "SecretTypeTLS = ''kubernetes.io/tls''"

definition SecretTypeOpaque :: string where
  "SecretTypeOpaque = ''Opaque''"

definition initMutatingWebhook :: "string \<Rightarrow> string \<Rightarrow> Object" where
  "initMutatingWebhook name namespace = MutatingConfiguration
     \<lparr>wc_Meta = \<lparr>Meta_Name = name, Meta_Namespace = namespace, Annotations = [], meta_rest = []\<rparr>,
      Webhooks = []\<rparr>"

definition initValidatingWebhook :: "string \<Rightarrow> string \<Rightarrow> Object" where
  "initValidatingWebhook name namespace = ValidatingConfiguration
     \<lparr>wc_Meta = \<lparr>Meta_Name = name, Meta_Namespace = namespace, Annotations = [], meta_rest = []\<rparr>,
      Webhooks = []\<rparr>"

definition initSecret :: "string \<Rightarrow> string \<Rightarrow> Object" where
  "initSecret name namespace = SecretObject
     \<lparr>secret_Meta = \<lparr>Meta_Name = name, Meta_Namespace = namespace,
        Annotations = [(secretManagedAnnotationKey, [])], meta_rest = []\<rparr>,
      Data = None, secret_Type = []\<rparr>"

text \<open>\<^verbatim>\<open>reflect.DeepEqual\<close> on objects: maps are compared as maps, everything else structurally.\<close>

definition gomap_equal :: "('k \<times> 'v) list \<Rightarrow> ('k \<times> 'v) list \<Rightarrow> bool" where
  "gomap_equal m m' = (set (map fst m) = set (map fst m') \<and> list_all (\<lambda>k. map_of m k = map_of m' k) (map fst m))"

definition meta_equal :: "ObjectMeta \<Rightarrow> ObjectMeta \<Rightarrow> bool" where
  "meta_equal a b = (gomap_equal (Annotations a) (Annotations b) \<and> a\<lparr>Annotations := []\<rparr> = b\<lparr>Annotations := []\<rparr>)"

definition data_equal :: "slice gomap option \<Rightarrow> slice gomap option \<Rightarrow> bool" where
  "data_equal a b = (case (a, b) of (None, None) \<Rightarrow> True | (Some m, Some m') \<Rightarrow> gomap_equal m m' | _ \<Rightarrow> False)"

fun DeepEqual :: "Object \<Rightarrow> Object \<Rightarrow> bool" where
  "DeepEqual (MutatingConfiguration a) (MutatingConfiguration b) =
     (meta_equal (wc_Meta a) (wc_Meta b) \<and> Webhooks a = Webhooks b)"
| "DeepEqual (ValidatingConfiguration a) (ValidatingConfiguration b) =
     (meta_equal (wc_Meta a) (wc_Meta b) \<and> Webhooks a = Webhooks b)"
| "DeepEqual (SecretObject a) (SecretObject b) =
     (meta_equal (secret_Meta a) (secret_Meta b) \<and> data_equal (Data a) (Data b) \<and> secret_Type a = secret_Type b)"
| "DeepEqual _ _ = False"

section \<open>Client configurations\<close>

text \<open>\<^verbatim>\<open>clientConfigMap\<close> maps names to pointers into the list of webhooks; a pointer is the index.
  A later webhook of the same name replaces an earlier one.\<close>

fun client_config_loop :: "nat \<Rightarrow> Webhook list \<Rightarrow> nat gomap \<Rightarrow> nat gomap" where
  "client_config_loop i [] m = m"
| "client_config_loop i (w # ws) m =
     (if Service (ClientConfig w) = None then client_config_loop (Suc i) ws m
      else client_config_loop (Suc i) ws (AList.update (Webhook_Name w) i m))"

fun object_webhooks :: "Object \<Rightarrow> Webhook list" where
  "object_webhooks (MutatingConfiguration w) = Webhooks w"
| "object_webhooks (ValidatingConfiguration w) = Webhooks w"
| "object_webhooks (SecretObject s) = []"

definition clientConfigMap :: "Object \<Rightarrow> nat gomap" where
  "clientConfigMap ob = client_config_loop 0 (object_webhooks ob) []"

text \<open>Writing through such a pointer.\<close>

fun set_CABundle :: "nat \<Rightarrow> slice \<Rightarrow> Object \<Rightarrow> Object" where
  "set_CABundle i b (MutatingConfiguration w) = MutatingConfiguration (w\<lparr>Webhooks := (Webhooks w)
     [i := (Webhooks w ! i)\<lparr>ClientConfig := (ClientConfig (Webhooks w ! i))\<lparr>CABundle := b\<rparr>\<rparr>]\<rparr>)"
| "set_CABundle i b (ValidatingConfiguration w) = ValidatingConfiguration (w\<lparr>Webhooks := (Webhooks w)
     [i := (Webhooks w ! i)\<lparr>ClientConfig := (ClientConfig (Webhooks w ! i))\<lparr>CABundle := b\<rparr>\<rparr>]\<rparr>)"
| "set_CABundle i b (SecretObject s) = SecretObject s"

section \<open>Objects by pointer\<close>

text \<open>The object map is keyed by pointers to keys. A pointer is the number of its allocation, so
  a key that was just allocated is never found in the map.\<close>

record keyedObject =
  obj_key :: objectKey
  kobject :: "Object option"

record objectMap =
  entries :: "(nat \<times> keyedObject) list"
  next_ptr :: nat

definition empty_objectMap :: objectMap where
  "empty_objectMap = \<lparr>entries = [], next_ptr = 0\<rparr>"

definition add_object :: "objectKey \<Rightarrow> objectMap \<Rightarrow> objectMap" where
  "add_object k os =
     (let p = next_ptr os in
      if map_of (entries os) p = None
      then \<lparr>entries = AList.update p \<lparr>obj_key = k, kobject = None\<rparr> (entries os), next_ptr = Suc p\<rparr>
      else os\<lparr>next_ptr := Suc p\<rparr>)"

definition delete_object :: "nat \<Rightarrow> objectMap \<Rightarrow> objectMap" where
  "delete_object p os = os\<lparr>entries := AList.delete p (entries os)\<rparr>"

section \<open>Mapping to and from chain data\<close>

definition lookup_slice :: "string \<Rightarrow> slice gomap \<Rightarrow> slice" where
  "lookup_slice k m = (case map_of m k of None \<Rightarrow> None | Some v \<Rightarrow> v)"

text \<open>The loop of \<^verbatim>\<open>mapWebhookToChain\<close> over the client configurations.\<close>

fun webhook_to_chain_loop ::
  "string \<Rightarrow> Webhook list \<Rightarrow> nat gomap \<Rightarrow> objectMap \<Rightarrow> CertificateChainData
   \<Rightarrow> objectMap \<times> CertificateChainData" where
  "webhook_to_chain_loop key ws [] os d = (os, d)"
| "webhook_to_chain_loop key ws ((name, i) # m) os d =
     (case Service (ClientConfig (ws ! i)) of
        None \<Rightarrow> webhook_to_chain_loop key ws m os d
      | Some svc \<Rightarrow>
          (let sn = Service_Name svc; ns = Service_Namespace svc; host = serviceHostname sn ns;
               d1 = (if map_of (CertificatesIssued d) host = None
                     then d\<lparr>CertificatesIssued := AList.update host (newCertificateIssue sn ns) (CertificatesIssued d)\<rparr>
                     else d);
               ci = the (map_of (CertificatesIssued d1) host);
               ci' = ci\<lparr>CACertPEM := AList.update (caBundleName key name) (CABundle (ClientConfig (ws ! i))) (CACertPEM ci)\<rparr>;
               d2 = d1\<lparr>CertificatesIssued := AList.update host ci' (CertificatesIssued d1)\<rparr>
           in webhook_to_chain_loop key ws m (add_object (newObjectKey ''Secret'' ns sn) os) d2))"

definition mapWebhookToChain ::
  "nat \<Rightarrow> objectKey \<Rightarrow> Object \<Rightarrow> objectMap \<Rightarrow> CertificateChainData \<Rightarrow> objectMap \<times> CertificateChainData" where
  "mapWebhookToChain p key ob os d =
     (let configs = clientConfigMap ob in
      if length configs \<le> 0 then (delete_object p os, d)
      else webhook_to_chain_loop (objectKey_String key) (object_webhooks ob) configs os d)"

fun webhook_from_chain_loop ::
  "string \<Rightarrow> nat gomap \<Rightarrow> CertificateChainData \<Rightarrow> Object \<Rightarrow> Object" where
  "webhook_from_chain_loop key [] d ob = ob"
| "webhook_from_chain_loop key ((name, i) # m) d ob =
     (case Service (ClientConfig (object_webhooks ob ! i)) of
        None \<Rightarrow> webhook_from_chain_loop key m d ob
      | Some svc \<Rightarrow>
          (case map_of (CertificatesIssued d) (serviceHostname (Service_Name svc) (Service_Namespace svc)) of
             None \<Rightarrow> webhook_from_chain_loop key m d ob
           | Some ci \<Rightarrow>
               (case lookup_slice (caBundleName key name) (CACertPEM ci) of
                  None \<Rightarrow> webhook_from_chain_loop key m d ob
                | Some b \<Rightarrow> webhook_from_chain_loop key m d (set_CABundle i (Some b) ob))))"

definition mapWebhookFromChain :: "objectKey \<Rightarrow> CertificateChainData \<Rightarrow> Object \<Rightarrow> Object" where
  "mapWebhookFromChain key d ob =
     webhook_from_chain_loop (objectKey_String key) (clientConfigMap ob) d ob"

text \<open>Secrets. Asserting that an object is a secret, and writing to a certificate that was never
  issued, panic.\<close>

definition secret_value :: "string \<Rightarrow> Secret \<Rightarrow> slice" where
  "secret_value k s = (case Data s of None \<Rightarrow> None | Some m \<Rightarrow> lookup_slice k m)"

definition mapServiceSecretToChain ::
  "objectKey \<Rightarrow> Object \<Rightarrow> CertificateChainData \<Rightarrow> CertificateChainData result" where
  "mapServiceSecretToChain key ob d =
     (case ob of
        SecretObject s \<Rightarrow>
          (let k = secret_value TLSPrivateKeyKey s; c = secret_value TLSCertKey s in
           if k = None \<or> c = None then Ok d
           else let name = serviceHostname (Name (key_Name key)) (Namespace (key_Name key)) in
             case map_of (CertificatesIssued d) name of
               None \<Rightarrow> Panic ''nil pointer dereference: CertificatesIssued''
             | Some ci \<Rightarrow> Ok (d\<lparr>CertificatesIssued :=
                 AList.update name (ci\<lparr>KeyPEM := k, CertPEM := c\<rparr>) (CertificatesIssued d)\<rparr>))
      | _ \<Rightarrow> Panic ''interface conversion: not a Secret'')"

definition mapCASecretToChain :: "Object \<Rightarrow> CertificateChainData \<Rightarrow> CertificateChainData result" where
  "mapCASecretToChain ob d =
     (case ob of
        SecretObject s \<Rightarrow>
          (let k = secret_value CAPrivateKeyKey s; c = secret_value CACertKey s in
           if k = None \<or> c = None then Ok d
           else Ok (d\<lparr>Chain_CA := (Chain_CA d)\<lparr>CA_KeyPEM := k, CA_CertPEM := c\<rparr>\<rparr>))
      | _ \<Rightarrow> Panic ''interface conversion: not a Secret'')"

definition mapSecretToChain ::
  "objectKey \<Rightarrow> Object \<Rightarrow> CertificateChainData \<Rightarrow> CertificateChainData result" where
  "mapSecretToChain key ob d =
     (if NamespacedName_String (key_Name key) = CA_Name (Chain_CA d)
      then mapCASecretToChain ob d else mapServiceSecretToChain key ob d)"

definition secret_data :: "Secret \<Rightarrow> slice gomap" where
  "secret_data s = (case Data s of None \<Rightarrow> [] | Some m \<Rightarrow> m)"

definition mapServiceSecretFromChain ::
  "objectKey \<Rightarrow> CertificateChainData \<Rightarrow> Object \<Rightarrow> Object result" where
  "mapServiceSecretFromChain key d ob =
     (case ob of
        SecretObject s \<Rightarrow>
          (let name = serviceHostname (Name (key_Name key)) (Namespace (key_Name key)) in
           case map_of (CertificatesIssued d) name of
             None \<Rightarrow> Ok ob
           | Some ci \<Rightarrow> Ok (SecretObject (s\<lparr>
               secret_Type := SecretTypeTLS,
               Data := Some (AList.update TLSCertKey (CertPEM ci)
                 (AList.update TLSPrivateKeyKey (KeyPEM ci) (secret_data s)))\<rparr>)))
      | _ \<Rightarrow> Panic ''interface conversion: not a Secret'')"

definition mapCASecretFromChain :: "CertificateChainData \<Rightarrow> Object \<Rightarrow> Object result" where
  "mapCASecretFromChain d ob =
     (case ob of
        SecretObject s \<Rightarrow> Ok (SecretObject (s\<lparr>
          secret_Type := SecretTypeOpaque,
          Data := Some (AList.update CACertKey (CA_CertPEM (Chain_CA d))
            (AList.update CAPrivateKeyKey (CA_KeyPEM (Chain_CA d)) (secret_data s)))\<rparr>))
      | _ \<Rightarrow> Panic ''interface conversion: not a Secret'')"

definition mapSecretFromChain :: "objectKey \<Rightarrow> CertificateChainData \<Rightarrow> Object \<Rightarrow> Object result" where
  "mapSecretFromChain key d ob =
     (if NamespacedName_String (key_Name key) = CA_Name (Chain_CA d)
      then mapCASecretFromChain d ob else mapServiceSecretFromChain key d ob)"

section \<open>The object operators\<close>

text \<open>\<^verbatim>\<open>objectOperatorsMap\<close>: the operators of a kind. Another kind has nil operators, and calling
  one panics.\<close>

record objectOperators =
  creator :: "string \<Rightarrow> string \<Rightarrow> Object"
  toChainMapper :: "nat \<Rightarrow> objectKey \<Rightarrow> Object \<Rightarrow> objectMap \<Rightarrow> CertificateChainData
     \<Rightarrow> (objectMap \<times> CertificateChainData) result"
  fromChainMapper :: "objectKey \<Rightarrow> CertificateChainData \<Rightarrow> Object \<Rightarrow> Object result"

definition webhook_operators :: "(string \<Rightarrow> string \<Rightarrow> Object) \<Rightarrow> objectOperators" where
  "webhook_operators c = \<lparr>creator = c,
     toChainMapper = (\<lambda>p key ob os d. Ok (mapWebhookToChain p key ob os d)),
     fromChainMapper = (\<lambda>key d ob. Ok (mapWebhookFromChain key d ob))\<rparr>"

definition objectOperatorsMap :: "objectKind \<Rightarrow> objectOperators option" where
  "objectOperatorsMap kind =
     (if kind = mutatingWebhookType then Some (webhook_operators initMutatingWebhook)
      else if kind = validatingWebhookType then Some (webhook_operators initValidatingWebhook)
      else if kind = secretType then Some \<lparr>creator = initSecret,
        toChainMapper = (\<lambda>p key ob os d. bind_result (mapSecretToChain key ob d) (\<lambda>d'. Ok (os, d'))),
        fromChainMapper = mapSecretFromChain\<rparr>
      else None)"

end
