(* ===== verification/Configuration.thy ===== *)
theory Configuration
  imports Kube_Objects
begin

text \<open>
  \<^verbatim>\<open>client.go\<close> and the reading and writing of certificate chain data in \<^verbatim>\<open>configuration.go\<close>.

  The Kubernetes client is not code of the repository: it is a record of operations over a
  cluster state of any type, which may change by itself between two calls. \<^verbatim>\<open>range\<close> over a map
  visits its entries in an unspecified order. Reading is given as a relation that allows every
  order, and as an executable function that follows a given choice of the next entry; writing
  takes the order as an argument.
\<close>

section \<open>The client\<close>

record 's kube_client =
  client_Get :: "objectKind \<Rightarrow> NamespacedName \<Rightarrow> 's \<Rightarrow> (error + Object) \<times> 's"
  client_Create :: "Object \<Rightarrow> 's \<Rightarrow> error option \<times> 's"
  client_Update :: "Object \<Rightarrow> 's \<Rightarrow> error option \<times> 's"
  poll_ticks :: nat

fun object_kind :: "Object \<Rightarrow> objectKind" where
  "object_kind (MutatingConfiguration w) = mutatingWebhookType"
| "object_kind (ValidatingConfiguration w) = validatingWebhookType"
| "object_kind (SecretObject s) = secretType"

text \<open>\<^verbatim>\<open>wait.PollImmediate\<close>: the condition is tried at once, at each tick that is delivered before
  the timeout, and once more when the timeout closes the channel.\<close>

fun wait_for :: "nat \<Rightarrow> ('s \<Rightarrow> bool result \<times> 's) \<Rightarrow> 's \<Rightarrow> unit result \<times> 's" where
  "wait_for 0 cond s = (case cond s of
       (Panic m, s1) \<Rightarrow> (Panic m, s1)
     | (Fail e, s1) \<Rightarrow> (Fail e, s1)
     | (Ok done, s1) \<Rightarrow> (if done then Ok () else Fail ErrWaitTimeout, s1))"
| "wait_for (Suc n) cond s = (case cond s of
       (Panic m, s1) \<Rightarrow> (Panic m, s1)
     | (Fail e, s1) \<Rightarrow> (Fail e, s1)
     | (Ok done, s1) \<Rightarrow> (if done then (Ok (), s1) else wait_for n cond s1))"

definition PollImmediate :: "nat \<Rightarrow> ('s \<Rightarrow> bool result \<times> 's) \<Rightarrow> 's \<Rightarrow> unit result \<times> 's" where
  "PollImmediate n cond s = (case cond s of
       (Panic m, s1) \<Rightarrow> (Panic m, s1)
     | (Fail e, s1) \<Rightarrow> (Fail e, s1)
     | (Ok done, s1) \<Rightarrow> (if done then (Ok (), s1) else wait_for n cond s1))"

text \<open>The rule for polling: \<open>I\<close> holds before every attempt, \<open>Q\<close> of the outcome.\<close>

lemma wait_for_rule:
  assumes step: "\<And>s r s'. I s \<Longrightarrow> cond s = (r, s') \<Longrightarrow> (case r of
      Ok b \<Rightarrow> if b then Q (Ok ()) s' else I s' \<and> Q (Fail ErrWaitTimeout) s' | Fail e \<Rightarrow> Q (Fail e) s' | Panic x \<Rightarrow> Q (Panic x) s')"
  shows "I s \<Longrightarrow> wait_for n cond s = (r, s') \<Longrightarrow> Q r s'"
proof (induction n arbitrary: s)
  case 0
  obtain r1 s1 where c: "cond s = (r1, s1)" by fastforce
  from step [OF "0.prems"(1) c] "0.prems"(2) c show ?case by (cases r1) (auto split: if_splits)
next
  case (Suc n)
  obtain r1 s1 where c: "cond s = (r1, s1)" by fastforce
  from step [OF Suc.prems(1) c] Suc.prems(2) Suc.IH [of s1] c show ?case by (cases r1) (auto split: if_splits)
qed

lemma PollImmediate_rule:
  assumes "PollImmediate n cond s = (r, s')" "I s"
    and step: "\<And>s r s'. I s \<Longrightarrow> cond s = (r, s') \<Longrightarrow> (case r of
      Ok b \<Rightarrow> if b then Q (Ok ()) s' else I s' \<and> Q (Fail ErrWaitTimeout) s' | Fail e \<Rightarrow> Q (Fail e) s' | Panic x \<Rightarrow> Q (Panic x) s')"
  shows "Q r s'"
proof -
  obtain r1 s1 where c: "cond s = (r1, s1)" by fastforce
  from step [OF assms(2) c] assms(1) c wait_for_rule [where I = I and cond = cond and Q = Q, OF step]
  show ?thesis by (cases r1) (auto simp: PollImmediate_def split: if_splits)
qed

text \<open>One attempt of \<^verbatim>\<open>get\<close>. A successful \<^verbatim>\<open>Get\<close> overwrites the object it is given.\<close>

definition get_attempt ::
  "'s kube_client \<Rightarrow> NamespacedName \<Rightarrow> Object \<times> 's \<Rightarrow> bool result \<times> Object \<times> 's" where
  "get_attempt cl name st =
     (case client_Get cl (object_kind (fst st)) name (snd st) of
        (Inl e, s1) \<Rightarrow>
          (if e = ErrCacheNotStarted then (Ok False, fst st, s1) else (Fail e, fst st, s1))
      | (Inr ob, s1) \<Rightarrow> (Ok True, ob, s1))"

definition get :: "'s kube_client \<Rightarrow> NamespacedName \<Rightarrow> Object \<Rightarrow> 's \<Rightarrow> unit result \<times> Object \<times> 's" where
  "get cl name ob s = PollImmediate (poll_ticks cl) (get_attempt cl name) (ob, s)"

definition IsNotFound :: "unit result \<Rightarrow> bool" where
  "IsNotFound r = (case r of Fail (NotFound _) \<Rightarrow> True | _ \<Rightarrow> False)"

section \<open>The manager's data\<close>

record Manager =
  manager_name :: string
  manager_namespace :: string
  webhooks :: "WebhookReference list"
  manager_options :: Options
  verifying :: bool

definition secretCAName :: "Manager \<Rightarrow> NamespacedName" where
  "secretCAName m = \<lparr>Namespace = manager_namespace m, Name = manager_name m @ ''-ca''\<rparr>"

fun init_webhooks :: "WebhookReference list \<Rightarrow> objectMap \<Rightarrow> objectMap" where
  "init_webhooks [] os = os"
| "init_webhooks (w # ws) os = init_webhooks ws (add_object (newObjectKey (Ref_Type w) [] (Ref_Name w)) os)"

definition initObjects :: "Manager \<Rightarrow> objectMap \<Rightarrow> objectMap" where
  "initObjects m os =
     (let ca = secretCAName m in
      add_object (newObjectKey secretType (Namespace ca) (Name ca)) (init_webhooks (webhooks m) os))"

section \<open>Reading\<close>

record 's read_state =
  rs_objects :: objectMap
  rs_chain :: CertificateChainData
  rs_cluster :: 's

definition set_kobject :: "nat \<Rightarrow> Object \<Rightarrow> objectMap \<Rightarrow> objectMap" where
  "set_kobject p ob os = (case map_of (entries os) p of
     None \<Rightarrow> os
   | Some ko \<Rightarrow> os\<lparr>entries := AList.update p (ko\<lparr>kobject := Some ob\<rparr>) (entries os)\<rparr>)"

definition readObjectToChain ::
  "Manager \<Rightarrow> 's kube_client \<Rightarrow> nat \<Rightarrow> 's read_state \<Rightarrow> unit result \<times> 's read_state" where
  "readObjectToChain m cl p st =
     (case map_of (entries (rs_objects st)) p of
        None \<Rightarrow> (Ok (), st)
      | Some ko \<Rightarrow>
          (if kobject ko \<noteq> None then (Ok (), st)
           else case objectOperatorsMap (Kind (obj_key ko)) of
             None \<Rightarrow> (Panic ''nil function: creator'', st)
           | Some ops \<Rightarrow>
               (case get cl (key_Name (obj_key ko))
                       (creator ops (Name (key_Name (obj_key ko))) (Namespace (key_Name (obj_key ko))))
                       (rs_cluster st) of
                  (r, ob, s1) \<Rightarrow>
                    (let st1 = st\<lparr>rs_objects := set_kobject p ob (rs_objects st), rs_cluster := s1\<rparr> in
                     if r \<noteq> Ok () \<and> (\<not> IsNotFound r \<or> verifying m) then (r, st1)
                     else case toChainMapper ops p (obj_key ko) ob (rs_objects st1) (rs_chain st1) of
                       Panic s \<Rightarrow> (Panic s, st1)
                     | Fail e \<Rightarrow> (Fail e, st1)
                     | Ok (os', d') \<Rightarrow> (Ok (), st1\<lparr>rs_objects := os', rs_chain := d'\<rparr>)))))"

text \<open>The pointers of the objects that have not been read.\<close>

definition is_unread :: "objectMap \<Rightarrow> nat \<Rightarrow> bool" where
  "is_unread os p = (case map_of (entries os) p of None \<Rightarrow> False | Some ko \<Rightarrow> kobject ko = None)"

definition unread :: "objectMap \<Rightarrow> nat list" where
  "unread os = filter (is_unread os) (map fst (entries os))"

text \<open>Every run of \<^verbatim>\<open>readObjectsToChain\<close>: objects that have not been read are read in any order
  until there are none, or one of them fails.\<close>

inductive read_run ::
  "Manager \<Rightarrow> 's kube_client \<Rightarrow> 's read_state \<Rightarrow> unit result \<Rightarrow> 's read_state \<Rightarrow> bool"
  for m cl where
  all_read: "unread (rs_objects st) = [] \<Longrightarrow> read_run m cl st (Ok ()) st"
| read_one: "p \<in> set (unread (rs_objects st)) \<Longrightarrow> readObjectToChain m cl p st = (Ok (), st1) \<Longrightarrow>
    read_run m cl st1 r st2 \<Longrightarrow> read_run m cl st r st2"
| read_fails: "p \<in> set (unread (rs_objects st)) \<Longrightarrow> readObjectToChain m cl p st = (r, st1) \<Longrightarrow>
    r \<noteq> Ok () \<Longrightarrow> read_run m cl st r st1"

inductive_cases read_runE: "read_run m cl st r st'"

text \<open>The executable form, with the choice of the next object as an argument.\<close>

definition choose_next :: "(nat list \<Rightarrow> nat) \<Rightarrow> nat list \<Rightarrow> nat" where
  "choose_next pick ps = (if pick ps \<in> set ps then pick ps else hd ps)"

definition unread_of :: "bool \<Rightarrow> objectMap \<Rightarrow> nat set" where
  "unread_of secrets os = {p. \<exists>ko. map_of (entries os) p = Some ko \<and> kobject ko = None
     \<and> (Kind (obj_key ko) = secretType) = secrets}"

lemma finite_unread_of [simp]: "finite (unread_of b os)"
proof (rule finite_subset)
  show "unread_of b os \<subseteq> dom (map_of (entries os))" by (auto simp: unread_of_def)
qed (simp add: finite_dom_map_of)

lemma mem_unread: "p \<in> set (unread os) \<longleftrightarrow> (\<exists>ko. map_of (entries os) p = Some ko \<and> kobject ko = None)"
  by (auto simp: unread_def is_unread_def map_of_eq_None_iff split: option.splits dest: map_of_SomeD
      intro: rev_image_eqI)

lemma map_of_add_object:
  "map_of (entries (add_object k os)) q =
     (if q = next_ptr os \<and> map_of (entries os) q = None then Some \<lparr>obj_key = k, kobject = None\<rparr>
      else map_of (entries os) q)"
  by (auto simp: add_object_def Let_def update_conv')

lemma map_of_set_kobject:
  "map_of (entries (set_kobject p ob os)) q =
     (if q = p then map_option (\<lambda>ko. ko\<lparr>kobject := Some ob\<rparr>) (map_of (entries os) p) else map_of (entries os) q)"
  by (auto simp: set_kobject_def update_conv' split: option.split)

lemma map_of_delete_object:
  "map_of (entries (delete_object p os)) q = (if q = p then None else map_of (entries os) q)"
  by (simp add: delete_object_def delete_conv')

text \<open>Webhooks only add secrets to be read.\<close>

lemma unread_add_secret: "unread_of False (add_object (newObjectKey secretType ns n) os) = unread_of False os"
  by (auto simp: unread_of_def map_of_add_object newObjectKey_def split: if_splits)

lemma unread_webhook_loop:
  "unread_of False (fst (webhook_to_chain_loop key ws m os d)) = unread_of False os"
proof (induction m arbitrary: os d)
  case (Cons kv m)
  obtain name i where kv: "kv = (name, i)" by fastforce
  show ?case
    using Cons.IH unread_add_secret [unfolded secretType_def]
    by (auto simp: kv Let_def split: option.split)
qed simp

lemma unread_mapWebhookToChain:
  "unread_of False (fst (mapWebhookToChain p key ob os d)) \<subseteq> unread_of False os"
proof (cases "length (clientConfigMap ob) \<le> 0")
  case True
  then show ?thesis by (auto simp: mapWebhookToChain_def unread_of_def map_of_delete_object)
next
  case False
  then show ?thesis by (simp add: mapWebhookToChain_def unread_webhook_loop)
qed

lemma unread_set_kobject: "unread_of b (set_kobject p ob os) = unread_of b os - {p}"
  by (auto simp: unread_of_def map_of_set_kobject split: if_splits)

lemma operators_kinds:
  assumes "objectOperatorsMap kind = Some ops"
  obtains (webhook) "kind \<noteq> secretType" "\<And>p key ob os d. toChainMapper ops p key ob os d = Ok (mapWebhookToChain p key ob os d)"
  | (secret) "kind = secretType" "\<And>p key ob os d. toChainMapper ops p key ob os d
      = bind_result (mapSecretToChain key ob d) (\<lambda>d'. Ok (os, d'))"
  using assms
  by (auto simp: objectOperatorsMap_def webhook_operators_def secretType_def mutatingWebhookType_def
      validatingWebhookType_def MutatingWebhook_def ValidatingWebhook_def split: if_splits)

lemma readObjectToChain_decreases:
  assumes "readObjectToChain m cl p st = (Ok (), st')" "p \<in> set (unread (rs_objects st))"
  shows "((card (unread_of False (rs_objects st')), card (unread_of True (rs_objects st'))),
     card (unread_of False (rs_objects st)), card (unread_of True (rs_objects st))) \<in> less_than <*lex*> less_than"
proof -
  from assms(2) obtain ko where ko: "map_of (entries (rs_objects st)) p = Some ko" "kobject ko = None"
    by (auto simp: mem_unread)
  with assms(1) obtain ops ob s1 os' d' where ops: "objectOperatorsMap (Kind (obj_key ko)) = Some ops"
    and m: "toChainMapper ops p (obj_key ko) ob (set_kobject p ob (rs_objects st)) (rs_chain st) = Ok (os', d')"
    and st': "rs_objects st' = os'"
    by (auto simp: readObjectToChain_def Let_def split: option.splits prod.splits if_splits result.splits)
  show ?thesis
    using ops
  proof (cases rule: operators_kinds)
    case webhook
    with m have "os' = fst (mapWebhookToChain p (obj_key ko) ob (set_kobject p ob (rs_objects st)) (rs_chain st))"
      by (metis fst_conv result.inject(1))
    then have "unread_of False os' \<subseteq> unread_of False (rs_objects st) - {p}"
      using unread_mapWebhookToChain unread_set_kobject by metis
    moreover have "p \<in> unread_of False (rs_objects st)" using ko webhook by (simp add: unread_of_def)
    ultimately have "card (unread_of False os') < card (unread_of False (rs_objects st))"
      by (intro psubset_card_mono) auto
    then show ?thesis by (simp add: st')
  next
    case secret
    with m have "os' = set_kobject p ob (rs_objects st)" by auto
    moreover have "p \<in> unread_of True (rs_objects st)" "p \<notin> unread_of False (rs_objects st)"
      using ko secret by (simp_all add: unread_of_def)
    moreover from this have "0 < card (unread_of True (rs_objects st))" by (auto simp: card_gt_0_iff)
    ultimately show ?thesis by (simp add: st' unread_set_kobject)
  qed
qed

lemma choose_next_in: "ps \<noteq> [] \<Longrightarrow> choose_next pick ps \<in> set ps"
  by (simp add: choose_next_def)

function readObjectsToChain ::
  "Manager \<Rightarrow> 's kube_client \<Rightarrow> (nat list \<Rightarrow> nat) \<Rightarrow> 's read_state \<Rightarrow> unit result \<times> 's read_state" where
  "readObjectsToChain m cl pick st =
     (if unread (rs_objects st) = [] then (Ok (), st)
      else case readObjectToChain m cl (choose_next pick (unread (rs_objects st))) st of
        (Ok _, st1) \<Rightarrow> readObjectsToChain m cl pick st1
      | (Fail e, st1) \<Rightarrow> (Fail e, st1)
      | (Panic s, st1) \<Rightarrow> (Panic s, st1))"
  by pat_completeness auto
termination
proof (relation "inv_image (less_than <*lex*> less_than)
    (\<lambda>(m, cl, pick, st). (card (unread_of False (rs_objects st)), card (unread_of True (rs_objects st))))", goal_cases)
  case (2 m cl pick st x st1 u)
  then show ?case
    using readObjectToChain_decreases [of m cl "choose_next pick (unread (rs_objects st))" st st1] choose_next_in
    by (simp add: in_inv_image)
qed (auto intro: wf_inv_image wf_lex_prod)

declare readObjectsToChain.simps [simp del]

definition readCertificateChain ::
  "Manager \<Rightarrow> 's kube_client \<Rightarrow> (nat list \<Rightarrow> nat) \<Rightarrow> 's read_state \<Rightarrow> unit result \<times> 's read_state" where
  "readCertificateChain m cl pick st =
     (let os = initObjects m (rs_objects st);
          d = rs_chain st;
          d1 = d\<lparr>Chain_CA := (Chain_CA d)\<lparr>CA_Name := NamespacedName_String (secretCAName m)\<rparr>\<rparr>
      in readObjectsToChain m cl pick (st\<lparr>rs_objects := os, rs_chain := d1\<rparr>))"

section \<open>Writing\<close>

definition writeObjectFromChain ::
  "'s kube_client \<Rightarrow> CertificateChainData \<Rightarrow> nat \<Rightarrow> objectMap \<Rightarrow> 's \<Rightarrow> unit result \<times> objectMap \<times> 's" where
  "writeObjectFromChain cl d p os s =
     (case map_of (entries os) p of
        None \<Rightarrow> (Panic ''nil pointer dereference: object'', os, s)
      | Some ko \<Rightarrow>
          (case kobject ko of
             None \<Rightarrow> (Panic ''nil pointer dereference: kobject'', os, s)
           | Some old \<Rightarrow>
               (case get cl (key_Name (obj_key ko)) old s of
                  (r, current, s1) \<Rightarrow>
                    (let new = IsNotFound r; os1 = set_kobject p current os in
                     if r \<noteq> Ok () \<and> \<not> new then (r, os1, s1)
                     else case objectOperatorsMap (Kind (obj_key ko)) of
                       None \<Rightarrow> (Panic ''nil function: fromChainMapper'', os1, s1)
                     | Some ops \<Rightarrow>
                         (case fromChainMapper ops (obj_key ko) d current of
                            Panic m \<Rightarrow> (Panic m, os1, s1)
                          | Fail e \<Rightarrow> (Fail e, os1, s1)
                          | Ok ob \<Rightarrow>
                              (let os2 = set_kobject p ob os in
                               if DeepEqual old ob then (Ok (), os2, s1)
                               else if \<not> DeepEqual old current
                                 then (Fail (Errorf (''An object changed since originally read: ''
                                   @ objectKey_String (obj_key ko))), os2, s1)
                               else case (if new then client_Create cl ob s1 else client_Update cl ob s1) of
                                 (None, s2) \<Rightarrow> (Ok (), os2, s2)
                               | (Some e, s2) \<Rightarrow> (Fail e, os2, s2)))))))"

fun writeObjectsFromChain ::
  "'s kube_client \<Rightarrow> CertificateChainData \<Rightarrow> nat list \<Rightarrow> objectMap \<Rightarrow> 's \<Rightarrow> unit result \<times> objectMap \<times> 's" where
  "writeObjectsFromChain cl d [] os s = (Ok (), os, s)"
| "writeObjectsFromChain cl d (p # ps) os s =
     (case writeObjectFromChain cl d p os s of
        (Ok _, os1, s1) \<Rightarrow> writeObjectsFromChain cl d ps os1 s1
      | (Fail e, os1, s1) \<Rightarrow> (Fail e, os1, s1)
      | (Panic m, os1, s1) \<Rightarrow> (Panic m, os1, s1))"

definition writeCertificateChain ::
  "'s kube_client \<Rightarrow> (nat list \<Rightarrow> nat list) \<Rightarrow> objectMap \<Rightarrow> CertificateChainData \<Rightarrow> 's
   \<Rightarrow> unit result \<times> objectMap \<times> 's" where
  "writeCertificateChain cl order os d s = writeObjectsFromChain cl d (order (map fst (entries os))) os s"

end
