(* ===== verification/Deadlines.thy ===== *)
theory Deadlines
  imports Cert_Chain
begin

text \<open>
  \<^verbatim>\<open>src/pkg/certificate/chain/deadlines.go\<close>: when the CA and the issued certificates have to be
  rotated or cleaned up. A missing certificate and an empty set of certificates both give the
  zero time, a deadline that has always passed.
\<close>

section \<open>Minimum of times and durations\<close>

text \<open>The loops carry the index \<open>i\<close>, as the code's \<^verbatim>\<open>range\<close> does.\<close>

fun min_time_loop :: "nat \<Rightarrow> time \<Rightarrow> time list \<Rightarrow> time" where
  "min_time_loop i t [] = t"
| "min_time_loop i t (e # es) = min_time_loop (Suc i) (if i = 0 \<or> Before e t then e else t) es"

definition minTime :: "time list \<Rightarrow> time" where
  "minTime values = min_time_loop 0 zero_time values"

fun min_duration_loop :: "nat \<Rightarrow> duration \<Rightarrow> duration list \<Rightarrow> duration" where
  "min_duration_loop i m [] = m"
| "min_duration_loop i m (e # es) = min_duration_loop (Suc i) (if i = 0 \<or> e < m then e else m) es"

definition minDuration :: "duration list \<Rightarrow> duration" where
  "minDuration values = min_duration_loop 0 0 values"

section \<open>Rotation deadlines\<close>

definition nextRotationDeadlineForCert :: "certificate \<Rightarrow> duration \<Rightarrow> time" where
  "nextRotationDeadlineForCert c overlap =
     (let totalDuration = f64 (Sub (NotAfter c) (NotBefore c));
          deadlineDuration = f64 (totalDuration - f64 overlap)
      in Add (NotBefore c) (f64_to_int64 deadlineDuration))"

text \<open>The deadlines of the last certificates of a list of bundles; \<^const>\<open>None\<close> as soon as one
  of them is empty.\<close>

fun last_deadlines :: "duration \<Rightarrow> certificate list list \<Rightarrow> time list option" where
  "last_deadlines overlap [] = Some []"
| "last_deadlines overlap (cs # css) =
     (case getLastCert cs of
        None \<Rightarrow> None
      | Some c \<Rightarrow> map_option ((#) (nextRotationDeadlineForCert c overlap)) (last_deadlines overlap css))"

definition all_caCerts :: "CertificateIssue gomap \<Rightarrow> certificate list list" where
  "all_caCerts m = concat (map (\<lambda>(_, ci). map snd (issue_caCerts ci)) m)"

definition all_certs :: "CertificateIssue gomap \<Rightarrow> certificate list list" where
  "all_certs m = map (\<lambda>(_, ci). issue_certs ci) m"

definition findRotationDeadlineForCA :: "certificateChain \<Rightarrow> time" where
  "findRotationDeadlineForCA ch =
     (case last_deadlines (CAOverlapInterval (chain_Options ch))
             (all_caCerts (CertificatesIssued (chain_data ch))) of
        None \<Rightarrow> zero_time
      | Some deadlines \<Rightarrow> minTime deadlines)"

definition findRotationDeadlineForCerts :: "certificateChain \<Rightarrow> time" where
  "findRotationDeadlineForCerts ch =
     (case last_deadlines (CertOverlapInterval (chain_Options ch))
             (all_certs (CertificatesIssued (chain_data ch))) of
        None \<Rightarrow> zero_time
      | Some deadlines \<Rightarrow> minTime deadlines)"

section \<open>Clean-up deadlines\<close>

definition findCleanUpDeadlineForCertList :: "certificate list \<Rightarrow> time" where
  "findCleanUpDeadlineForCertList cs = minTime (map NotAfter cs)"

definition findCleanUpDeadlineForCACerts :: "certificateChain \<Rightarrow> time" where
  "findCleanUpDeadlineForCACerts ch =
     findCleanUpDeadlineForCertList (concat (all_caCerts (CertificatesIssued (chain_data ch))))"

definition findCleanUpDeadlineForCerts :: "certificateChain \<Rightarrow> time" where
  "findCleanUpDeadlineForCerts ch =
     findCleanUpDeadlineForCertList (concat (all_certs (CertificatesIssued (chain_data ch))))"

section \<open>Lemmas\<close>

lemma min_time_loop_Suc: "min_time_loop (Suc i) t es = fold min es t"
  by (induction es arbitrary: i t) (auto simp: Before_def min_def intro: arg_cong2 [where f = "fold min"])

lemma minTime_Nil [simp]: "minTime [] = zero_time"
  by (simp add: minTime_def)

lemma minTime_Min: "ts \<noteq> [] \<Longrightarrow> minTime ts = Min (set ts)"
proof -
  assume "ts \<noteq> []"
  then obtain u us where "ts = u # us" by (cases ts) auto
  then show ?thesis
    using Min.set_eq_fold [of u us] by (simp add: minTime_def min_time_loop_Suc)
qed

lemma minTime_le: "t \<in> set ts \<Longrightarrow> minTime ts \<le> t"
  by (cases "ts = []") (auto simp: minTime_Min)

lemma minTime_in: "ts \<noteq> [] \<Longrightarrow> minTime ts \<in> set ts"
  by (simp add: minTime_Min)

lemma less_minTime: "ts \<noteq> [] \<Longrightarrow> x < minTime ts \<longleftrightarrow> (\<forall>t \<in> set ts. x < t)"
  by (simp add: minTime_Min)

lemma last_deadlines_None: "last_deadlines overlap css = None \<longleftrightarrow> [] \<in> set css"
  by (induction css) (auto split: option.split)

lemma last_deadlines_Some:
  "[] \<notin> set css \<Longrightarrow>
   last_deadlines overlap css = Some (map (\<lambda>cs. nextRotationDeadlineForCert (last cs) overlap) css)"
  by (induction css) (auto simp: getLastCert_last)

lemma mem_all_caCerts:
  "cs \<in> set (all_caCerts m) \<longleftrightarrow> (\<exists>n ci k. (n, ci) \<in> set m \<and> (k, cs) \<in> set (issue_caCerts ci))"
  by (force simp: all_caCerts_def)

lemma mem_all_certs: "cs \<in> set (all_certs m) \<longleftrightarrow> (\<exists>n ci. (n, ci) \<in> set m \<and> cs = issue_certs ci)"
  by (force simp: all_certs_def)

text \<open>A rotation deadline in the future means that there are bundles, that none of them is
  empty, and that the deadline of every last certificate is in the future.\<close>

lemma rotation_deadline_future:
  assumes "x < (case last_deadlines overlap css of None \<Rightarrow> zero_time | Some ds \<Rightarrow> minTime ds)"
    and "zero_time \<le> x"
  shows "css \<noteq> []" "[] \<notin> set css"
    "\<And>cs. cs \<in> set css \<Longrightarrow> x < nextRotationDeadlineForCert (last cs) overlap"
proof -
  show ne: "[] \<notin> set css"
    using assms last_deadlines_None [of overlap css] by (cases "last_deadlines overlap css") auto
  then have x: "x < minTime (map (\<lambda>cs. nextRotationDeadlineForCert (last cs) overlap) css)"
    using assms(1) by (simp add: last_deadlines_Some)
  with assms(2) show css: "css \<noteq> []" by auto
  fix cs assume "cs \<in> set css"
  with x css show "x < nextRotationDeadlineForCert (last cs) overlap"
    by (simp add: less_minTime)
qed

section \<open>The rotation deadline of one certificate\<close>

lemma deadline_error:
  assumes "\<bar>NotAfter c - NotBefore c\<bar> < 2 ^ 62" "\<bar>overlap\<bar> < 2 ^ 61"
  shows "\<bar>nextRotationDeadlineForCert c overlap - (NotAfter c - overlap)\<bar> \<le> 1024"
proof -
  let ?d = "NotAfter c - NotBefore c"
  have sub: "Sub (NotAfter c) (NotBefore c) = ?d"
    using assms by (intro Sub_exact) (simp_all add: min_duration_def max_duration_def)
  have e1: "2 * \<bar>f64 ?d - ?d\<bar> \<le> 2 ^ 9" using assms by (intro f64_error) simp
  have e2: "2 * \<bar>f64 overlap - overlap\<bar> \<le> 2 ^ 8" using assms by (intro f64_error) simp
  let ?x = "f64 ?d - f64 overlap"
  have x: "\<bar>?x\<bar> < 2 ^ 63 - 1024" using e1 e2 assms by simp
  have e3: "2 * \<bar>f64 ?x - ?x\<bar> \<le> 2 ^ 10" using x by (intro f64_error) simp
  have rng: "min_duration \<le> f64 ?x" "f64 ?x \<le> max_duration"
    using e3 x by (auto simp: min_duration_def max_duration_def)
  then have "nextRotationDeadlineForCert c overlap = NotBefore c + f64 ?x"
    by (simp add: nextRotationDeadlineForCert_def Let_def f64_to_int64_def Add_def sub)
  then show ?thesis using e1 e2 e3 by simp
qed

text \<open>For certificates of any length the deadline never passes the expiration by more than the
  rounding error, even where \<^verbatim>\<open>Time.Sub\<close> saturates.\<close>

lemma deadline_upper:
  assumes "NotBefore c \<le> NotAfter c" "\<bar>overlap\<bar> < 2 ^ 61"
  shows "nextRotationDeadlineForCert c overlap \<le> NotAfter c - overlap + 2048"
proof -
  define d where "d = Sub (NotAfter c) (NotBefore c)"
  have d: "0 \<le> d" "d < 2 ^ 63" "d \<le> NotAfter c - NotBefore c"
    using assms by (auto simp: d_def Sub_def min_duration_def max_duration_def)
  have e1: "2 * \<bar>f64 d - d\<bar> \<le> 2 ^ 10" using d by (intro f64_error) simp
  have e2: "2 * \<bar>f64 overlap - overlap\<bar> \<le> 2 ^ 8" using assms by (intro f64_error) simp
  define x where "x = f64 d - f64 overlap"
  have x: "\<bar>x\<bar> < 2 ^ 64" "- (2 ^ 62) < x" using e1 e2 assms d unfolding x_def by simp_all
  have e3: "2 * \<bar>f64 x - x\<bar> \<le> 2 ^ 11" using x by (intro f64_error) simp
  have "f64_to_int64 (f64 x) \<le> f64 x"
  proof -
    have "- (2 ^ 63) \<le> f64 x" using e3 x by simp
    then show ?thesis by (simp add: f64_to_int64_def min_duration_def)
  qed
  then have "nextRotationDeadlineForCert c overlap \<le> NotBefore c + f64 x"
    by (simp add: nextRotationDeadlineForCert_def Let_def Add_def flip: d_def x_def)
  then show ?thesis using e1 e2 e3 d unfolding x_def by simp
qed

end
