(* ===== verification/Cleanup.thy ===== *)
theory Cleanup
  imports Deadlines
begin

text \<open>
  \<^verbatim>\<open>src/pkg/certificate/chain/cleanup.go\<close>: expired certificates are removed from the CA bundles
  and from the issued certificates. The code filters a slice in place: the result shares the
  array of its argument. The array is modelled as such, and shown to hold the filtered list.
\<close>

section \<open>Definitions\<close>

text \<open>The loop over the array: \<open>i\<close> is the index of the range loop, \<open>n\<close> the length of the
  result slice, which starts empty at the front of the same array.\<close>

function cleanup_array ::
  "time \<Rightarrow> nat \<Rightarrow> nat \<Rightarrow> certificate list \<Rightarrow> certificate list \<times> nat" where
  "cleanup_array t i n arr =
     (if i < length arr then
        (if \<not> After (NotAfter (arr ! i)) t then cleanup_array t (Suc i) n arr
         else cleanup_array t (Suc i) (Suc n) (arr[n := arr ! i]))
      else (arr, n))"
  by pat_completeness auto
termination
  by (relation "measure (\<lambda>(t, i, n, arr). length arr - i)") auto

declare cleanup_array.simps [simp del]

definition cleanUpCertificateList ::
  "go_lib \<Rightarrow> certificate list \<Rightarrow> env \<Rightarrow> certificate list \<times> env" where
  "cleanUpCertificateList lib cs e =
     (if length cs \<le> 1 then (cs, e)
      else case cleanup_array (clock_at lib e) 0 0 cs of (arr, n) \<Rightarrow> (take n arr, tick e))"

fun cleanup_bundles_loop ::
  "go_lib \<Rightarrow> certificate list gomap \<Rightarrow> CertificateIssue \<Rightarrow> env \<Rightarrow> CertificateIssue \<times> env" where
  "cleanup_bundles_loop lib [] ci e = (ci, e)"
| "cleanup_bundles_loop lib ((k, caCerts) # m) ci e =
     (case cleanUpCertificateList lib caCerts e of
        (cs, e1) \<Rightarrow> cleanup_bundles_loop lib m (setCaCerts k cs ci) e1)"

fun cleanup_ca_issues ::
  "go_lib \<Rightarrow> CertificateIssue gomap \<Rightarrow> env \<Rightarrow> CertificateIssue gomap \<times> env" where
  "cleanup_ca_issues lib [] e = ([], e)"
| "cleanup_ca_issues lib ((n, ci) # m) e =
     (case cleanup_bundles_loop lib (issue_caCerts ci) ci e of
        (ci', e1) \<Rightarrow> (case cleanup_ca_issues lib m e1 of (m', e2) \<Rightarrow> ((n, ci') # m', e2)))"

definition cleanUpCACerts :: "go_lib \<Rightarrow> certificateChain \<Rightarrow> env \<Rightarrow> certificateChain \<times> env" where
  "cleanUpCACerts lib ch e =
     (case cleanup_ca_issues lib (CertificatesIssued (chain_data ch)) e of
        (m, e1) \<Rightarrow> (ch\<lparr>chain_data := (chain_data ch)\<lparr>CertificatesIssued := m\<rparr>\<rparr>, e1))"

fun cleanup_cert_issues ::
  "go_lib \<Rightarrow> CertificateIssue gomap \<Rightarrow> env \<Rightarrow> CertificateIssue gomap \<times> env" where
  "cleanup_cert_issues lib [] e = ([], e)"
| "cleanup_cert_issues lib ((n, ci) # m) e =
     (case cleanUpCertificateList lib (issue_certs ci) e of
        (cs, e1) \<Rightarrow> (case cleanup_cert_issues lib m e1 of
          (m', e2) \<Rightarrow> ((n, setCerts cs ci) # m', e2)))"

definition cleanUpCerts :: "go_lib \<Rightarrow> certificateChain \<Rightarrow> env \<Rightarrow> certificateChain \<times> env" where
  "cleanUpCerts lib ch e =
     (case cleanup_cert_issues lib (CertificatesIssued (chain_data ch)) e of
        (m, e1) \<Rightarrow> (ch\<lparr>chain_data := (chain_data ch)\<lparr>CertificatesIssued := m\<rparr>\<rparr>, e1))"

section \<open>The in-place filter\<close>

definition unexpired :: "time \<Rightarrow> certificate \<Rightarrow> bool" where
  "unexpired t c = After (NotAfter c) t"

text \<open>Up to \<open>n\<close> the array holds the result so far, from \<open>i\<close> on the unread input.\<close>

lemma cleanup_array_filter:
  "n \<le> i \<Longrightarrow> i \<le> length arr \<Longrightarrow> cleanup_array t i n arr = (arr', n') \<Longrightarrow>
   take n' arr' = take n arr @ filter (unexpired t) (drop i arr)"
proof (induction t i n arr rule: cleanup_array.induct)
  case (1 t i n arr)
  show ?case
  proof (cases "i < length arr")
    case False
    with "1.prems" show ?thesis by (subst (asm) cleanup_array.simps) auto
  next
    case True
    then have d: "drop i arr = arr ! i # drop (Suc i) arr" by (simp add: Cons_nth_drop_Suc)
    show ?thesis
    proof (cases "unexpired t (arr ! i)")
      case False
      with True "1.prems" have "cleanup_array t (Suc i) n arr = (arr', n')"
        by (subst (asm) cleanup_array.simps) (simp add: unexpired_def)
      with "1.IH"(1) True False "1.prems" d show ?thesis by (simp add: unexpired_def)
    next
      case keep: True
      with True "1.prems" have "cleanup_array t (Suc i) (Suc n) (arr[n := arr ! i]) = (arr', n')"
        by (subst (asm) cleanup_array.simps) (simp add: unexpired_def)
      with "1.IH"(2) True keep "1.prems"
      have "take n' arr' = take (Suc n) (arr[n := arr ! i])
          @ filter (unexpired t) (drop (Suc i) (arr[n := arr ! i]))"
        by (simp add: unexpired_def [abs_def])
      moreover have "take (Suc n) (arr[n := arr ! i]) = take n arr @ [arr ! i]"
        using True "1.prems" by (simp add: take_Suc_conv_app_nth)
      moreover have "drop (Suc i) (arr[n := arr ! i]) = drop (Suc i) arr"
        using "1.prems" by (simp add: drop_update_cancel)
      ultimately show ?thesis using keep d by simp
    qed
  qed
qed

lemma cleanUpCertificateList_eq:
  "cleanUpCertificateList lib cs e =
     (if length cs \<le> 1 then (cs, e) else (filter (unexpired (clock_at lib e)) cs, tick e))"
  using cleanup_array_filter [of 0 0 cs "clock_at lib e"]
  by (auto simp: cleanUpCertificateList_def split: prod.split)

section \<open>What cleaning up does to the chain\<close>

text \<open>\<open>cs'\<close> is what is left of \<open>cs\<close> after a clean-up that read the clock at one of the
  instants \<open>I\<close>.\<close>

definition cleaned :: "go_lib \<Rightarrow> nat set \<Rightarrow> certificate list \<Rightarrow> certificate list \<Rightarrow> bool" where
  "cleaned lib I cs cs' \<longleftrightarrow> (length cs \<le> 1 \<and> cs' = cs)
     \<or> (1 < length cs \<and> (\<exists>i \<in> I. cs' = filter (unexpired (lib_now lib i)) cs))"

definition bundles_cleaned :: "go_lib \<Rightarrow> nat set \<Rightarrow> CertificateIssue \<Rightarrow> CertificateIssue \<Rightarrow> bool" where
  "bundles_cleaned lib I ci ci' \<longleftrightarrow>
     (\<exists>news. gomap_rel (cleaned lib I) (issue_caCerts ci) news \<and> ci' = with_bundles news ci)"

definition certs_cleaned :: "go_lib \<Rightarrow> nat set \<Rightarrow> CertificateIssue \<Rightarrow> CertificateIssue \<Rightarrow> bool" where
  "certs_cleaned lib I ci ci' \<longleftrightarrow> (\<exists>cs. cleaned lib I (issue_certs ci) cs \<and> ci' = setCerts cs ci)"

lemma cleaned_mono: "cleaned lib I cs cs' \<Longrightarrow> I \<subseteq> J \<Longrightarrow> cleaned lib J cs cs'"
  by (auto simp: cleaned_def)

lemma bundles_cleaned_mono: "bundles_cleaned lib I ci ci' \<Longrightarrow> I \<subseteq> J \<Longrightarrow> bundles_cleaned lib J ci ci'"
  unfolding bundles_cleaned_def by (blast intro: gomap_rel_mono cleaned_mono)

lemma certs_cleaned_mono: "certs_cleaned lib I ci ci' \<Longrightarrow> I \<subseteq> J \<Longrightarrow> certs_cleaned lib J ci ci'"
  unfolding certs_cleaned_def by (blast intro: cleaned_mono)

lemma cleaned_subset: "cleaned lib I cs cs' \<Longrightarrow> set cs' \<subseteq> set cs"
  by (auto simp: cleaned_def)

text \<open>Whatever is unexpired at the latest instant stays, and if the last certificate is, it stays
  the last.\<close>

lemma cleaned_keeps:
  "cleaned lib I cs cs' \<Longrightarrow> c \<in> set cs \<Longrightarrow> (\<And>i. i \<in> I \<Longrightarrow> unexpired (lib_now lib i) c) \<Longrightarrow> c \<in> set cs'"
  by (auto simp: cleaned_def)

lemma cleaned_snoc:
  "cleaned lib I (cs @ [c]) cs' \<Longrightarrow> (\<And>i. i \<in> I \<Longrightarrow> unexpired (lib_now lib i) c) \<Longrightarrow>
   \<exists>ds. cs' = ds @ [c] \<and> set ds \<subseteq> set cs"
  by (auto simp: cleaned_def)

text \<open>What stays of two or more certificates is unexpired at an instant of the clean-up.\<close>

lemma cleaned_unexpired:
  "cleaned lib I cs cs' \<Longrightarrow> c \<in> set cs' \<Longrightarrow> cs = [c] \<or> (\<exists>i \<in> I. unexpired (lib_now lib i) c)"
  by (cases cs) (auto simp: cleaned_def split: if_splits)

lemma cleanUpCertificateList_cleaned:
  "cleanUpCertificateList lib cs e = (cs', e') \<Longrightarrow>
   cleaned lib {ticks e..<ticks e'} cs cs' \<and> ticks e \<le> ticks e'"
  by (auto simp: cleanUpCertificateList_eq cleaned_def clock_at_def split: if_splits)

lemma cleanup_bundles_loop_cleaned:
  "cleanup_bundles_loop lib m ci e = (ci', e') \<Longrightarrow>
   \<exists>news. gomap_rel (cleaned lib {ticks e..<ticks e'}) m news \<and> ci' = set_bundles news ci
     \<and> ticks e \<le> ticks e'"
proof (induction m arbitrary: ci e)
  case (Cons kv m)
  obtain k cs where kv: "kv = (k, cs)" by fastforce
  obtain cs1 e1 where c: "cleanUpCertificateList lib cs e = (cs1, e1)" by fastforce
  with Cons.prems kv have "cleanup_bundles_loop lib m (setCaCerts k cs1 ci) e1 = (ci', e')" by simp
  from Cons.IH [OF this] obtain news where
    n: "gomap_rel (cleaned lib {ticks e1..<ticks e'}) m news" "ci' = set_bundles news (setCaCerts k cs1 ci)"
    "ticks e1 \<le> ticks e'" by blast
  note l = cleanUpCertificateList_cleaned [OF c]
  have "gomap_rel (cleaned lib {ticks e..<ticks e'}) m news"
    by (rule gomap_rel_mono [OF n(1)]) (use l in \<open>auto elim!: cleaned_mono\<close>)
  moreover have "cleaned lib {ticks e..<ticks e'} cs cs1"
    using l n(3) by (auto elim: cleaned_mono)
  ultimately show ?case
    using n l kv by (intro exI [of _ "(k, cs1) # news"]) auto
qed simp

lemma cleanup_ca_issues_cleaned:
  "cleanup_ca_issues lib m e = (m', e') \<Longrightarrow> \<forall>(n, ci) \<in> set m. keyed ci \<Longrightarrow>
   gomap_rel (bundles_cleaned lib {ticks e..<ticks e'}) m m' \<and> ticks e \<le> ticks e'"
proof (induction m arbitrary: m' e)
  case (Cons kv m)
  obtain n ci where kv: "kv = (n, ci)" by fastforce
  obtain ci1 e1 where c: "cleanup_bundles_loop lib (issue_caCerts ci) ci e = (ci1, e1)" by fastforce
  with Cons.prems kv obtain ms where m': "m' = (n, ci1) # ms" "cleanup_ca_issues lib m e1 = (ms, e')"
    by (auto split: prod.splits)
  have IH: "gomap_rel (bundles_cleaned lib {ticks e1..<ticks e'}) m ms" "ticks e1 \<le> ticks e'"
    using Cons.IH [OF m'(2)] Cons.prems(2) by auto
  from cleanup_bundles_loop_cleaned [OF c] obtain news where
    nw: "gomap_rel (cleaned lib {ticks e..<ticks e1}) (issue_caCerts ci) news" "ci1 = set_bundles news ci"
    "ticks e \<le> ticks e1" by blast
  have "keyed ci" using Cons.prems(2) kv by simp
  with nw have "bundles_cleaned lib {ticks e..<ticks e1} ci ci1"
    using set_bundles_keyed gomap_rel_keys [OF nw(1)] by (auto simp: bundles_cleaned_def)
  then have "bundles_cleaned lib {ticks e..<ticks e'} ci ci1"
    using IH(2) by (auto elim: bundles_cleaned_mono)
  moreover have "gomap_rel (bundles_cleaned lib {ticks e..<ticks e'}) m ms"
    by (rule gomap_rel_mono [OF IH(1)]) (use nw(3) in \<open>auto elim!: bundles_cleaned_mono\<close>)
  ultimately show ?case using m' kv IH(2) nw(3) by simp
qed simp

lemma cleanup_cert_issues_cleaned:
  "cleanup_cert_issues lib m e = (m', e') \<Longrightarrow>
   gomap_rel (certs_cleaned lib {ticks e..<ticks e'}) m m' \<and> ticks e \<le> ticks e'"
proof (induction m arbitrary: m' e)
  case (Cons kv m)
  obtain n ci where kv: "kv = (n, ci)" by fastforce
  obtain cs e1 where c: "cleanUpCertificateList lib (issue_certs ci) e = (cs, e1)" by fastforce
  with Cons.prems kv obtain ms where
    m': "m' = (n, setCerts cs ci) # ms" "cleanup_cert_issues lib m e1 = (ms, e')"
    by (auto split: prod.splits)
  note IH = Cons.IH [OF m'(2)] and l = cleanUpCertificateList_cleaned [OF c]
  have "certs_cleaned lib {ticks e..<ticks e'} ci (setCerts cs ci)"
    using l IH unfolding certs_cleaned_def by (intro exI [of _ cs]) (auto elim!: cleaned_mono)
  moreover have "gomap_rel (certs_cleaned lib {ticks e..<ticks e'}) m ms"
    by (rule gomap_rel_mono [OF conjunct1 [OF IH]]) (use l in \<open>auto elim!: certs_cleaned_mono\<close>)
  ultimately show ?case using m' kv IH l by auto
qed simp

text \<open>Both operations, on the chain: the options and the CA are untouched.\<close>

lemma cleanUpCACerts_cleaned:
  assumes "cleanUpCACerts lib ch e = (ch', e')"
    and "\<forall>(n, ci) \<in> set (CertificatesIssued (chain_data ch)). keyed ci"
  shows "chain_Options ch' = chain_Options ch" "Chain_CA (chain_data ch') = Chain_CA (chain_data ch)"
    "gomap_rel (bundles_cleaned lib {ticks e..<ticks e'}) (CertificatesIssued (chain_data ch))
       (CertificatesIssued (chain_data ch'))" "ticks e \<le> ticks e'"
  using assms cleanup_ca_issues_cleaned [of lib "CertificatesIssued (chain_data ch)" e]
  by (auto simp: cleanUpCACerts_def split: prod.splits)

lemma cleanUpCerts_cleaned:
  assumes "cleanUpCerts lib ch e = (ch', e')"
  shows "chain_Options ch' = chain_Options ch" "Chain_CA (chain_data ch') = Chain_CA (chain_data ch)"
    "gomap_rel (certs_cleaned lib {ticks e..<ticks e'}) (CertificatesIssued (chain_data ch))
       (CertificatesIssued (chain_data ch'))" "ticks e \<le> ticks e'"
  using assms cleanup_cert_issues_cleaned [of lib "CertificatesIssued (chain_data ch)" e]
  by (auto simp: cleanUpCerts_def split: prod.splits)

end
