(* ===== verification/Rotation.thy ===== *)
theory Rotation
  imports Cert_Chain
begin

text \<open>
  \<^verbatim>\<open>src/pkg/certificate/chain/rotation.go\<close>: a new CA with new certificates for every service, or
  new certificates only. An error leaves behind whatever was rotated before it.
\<close>

fun rotate_loop ::
  "go_lib \<Rightarrow> duration \<Rightarrow> KeyPair \<Rightarrow> (CertificateIssue \<Rightarrow> KeyPair \<Rightarrow> CertificateIssue result)
   \<Rightarrow> CertificateIssue gomap \<Rightarrow> env \<Rightarrow> unit result \<times> CertificateIssue gomap \<times> env" where
  "rotate_loop lib d ca applyFn [] e = (Ok (), [], e)"
| "rotate_loop lib d ca applyFn ((n, ci) # m) e =
     (case NewServerKeyPair lib ca (Issue_Name ci) (IPs ci) (Hostnames ci) d e of
        (Panic s, e1) \<Rightarrow> (Panic s, (n, ci) # m, e1)
      | (Fail er, e1) \<Rightarrow>
          (Fail (Wrap er (''Failed creating key pair for certificate '' @ Issue_Name ci)),
           (n, ci) # m, e1)
      | (Ok kp, e1) \<Rightarrow>
          (case applyFn ci kp of
             Panic s \<Rightarrow> (Panic s, (n, ci) # m, e1)
           | Fail er \<Rightarrow> (Fail er, (n, ci) # m, e1)
           | Ok ci' \<Rightarrow>
               (case rotate_loop lib d ca applyFn m e1 of
                  (r, m', e2) \<Rightarrow> (r, (n, ci') # m', e2))))"

definition rotateCerts ::
  "go_lib \<Rightarrow> (CertificateIssue \<Rightarrow> KeyPair \<Rightarrow> CertificateIssue result) \<Rightarrow> certificateChain \<Rightarrow> env
   \<Rightarrow> unit result \<times> certificateChain \<times> env" where
  "rotateCerts lib applyFn ch e =
     (case rotate_loop lib (CertRotateInterval (chain_Options ch))
             (CA_keyPair (Chain_CA (chain_data ch))) applyFn (CertificatesIssued (chain_data ch)) e of
        (r, m, e1) \<Rightarrow> (r, ch\<lparr>chain_data := (chain_data ch)\<lparr>CertificatesIssued := m\<rparr>\<rparr>, e1))"

definition rotateCertsWithoutOverlap ::
  "go_lib \<Rightarrow> certificateChain \<Rightarrow> env \<Rightarrow> unit result \<times> certificateChain \<times> env" where
  "rotateCertsWithoutOverlap lib ch e = rotateCerts lib (setKeyResetCert lib) ch e"

definition rotateCertsWithOverlap ::
  "go_lib \<Rightarrow> certificateChain \<Rightarrow> env \<Rightarrow> unit result \<times> certificateChain \<times> env" where
  "rotateCertsWithOverlap lib ch e = rotateCerts lib (setKeyAppendCert lib) ch e"

definition rotateAll ::
  "go_lib \<Rightarrow> certificateChain \<Rightarrow> env \<Rightarrow> unit result \<times> certificateChain \<times> env" where
  "rotateAll lib ch e =
     (case NewCA lib (CA_Name (Chain_CA (chain_data ch))) (CARotateInterval (chain_Options ch)) e of
        (Panic s, e1) \<Rightarrow> (Panic s, ch, e1)
      | (Fail er, e1) \<Rightarrow> (Fail (Wrap er ''Failed generating CA key pair''), ch, e1)
      | (Ok kp, e1) \<Rightarrow>
          (case setCaKeyPair lib ch kp of
             Panic s \<Rightarrow> (Panic s, ch, e1)
           | Fail er \<Rightarrow> (Fail er, ch, e1)
           | Ok ch1 \<Rightarrow>
               (case rotateCertsWithoutOverlap lib ch1 e1 of
                  (Panic s, ch2, e2) \<Rightarrow> (Panic s, ch2, e2)
                | (Fail er, ch2, e2) \<Rightarrow> (Fail (Wrap er ''Failed rotating chains''), ch2, e2)
                | (Ok _, ch2, e2) \<Rightarrow> (Ok (), ch2, e2))))"

section \<open>What rotating does to the chain\<close>

text \<open>The issued certificate after a rotation: the given setter applied to a key pair that was
  freshly issued by the CA at one of the instants \<open>I\<close>.\<close>

definition rotated ::
  "go_lib \<Rightarrow> nat set \<Rightarrow> duration \<Rightarrow> KeyPair
   \<Rightarrow> (CertificateIssue \<Rightarrow> KeyPair \<Rightarrow> CertificateIssue result)
   \<Rightarrow> CertificateIssue \<Rightarrow> CertificateIssue \<Rightarrow> bool" where
  "rotated lib I d ca applyFn ci ci' \<longleftrightarrow> (\<exists>k c ck cac i.
     ca = \<lparr>Key = Some ck, Cert = Some cac\<rparr> \<and> i \<in> I
     \<and> fresh_server lib (lib_now lib i) d cac ck (Hostnames ci) k c
     \<and> applyFn ci \<lparr>Key = Some k, Cert = Some c\<rparr> = Ok ci')"

lemma rotated_mono: "rotated lib I d ca f ci ci' \<Longrightarrow> I \<subseteq> J \<Longrightarrow> rotated lib J d ca f ci ci'"
  unfolding rotated_def by blast

lemma setKeyResetCert_Ok [simp]:
  "setKeyResetCert lib ci \<lparr>Key = Some k, Cert = Some c\<rparr> =
   Ok (ci\<lparr>issue_key := Some k, issue_certs := [c],
     KeyPEM := Some (EncodePrivateKeyPEM lib k), CertPEM := Some (EncodeCertsPEM [c])\<rparr>)"
  by (simp add: setKeyResetCert_def EncodeCertsPEM_single)

lemma setKeyAppendCert_Ok [simp]:
  "setKeyAppendCert lib ci \<lparr>Key = Some k, Cert = Some c\<rparr> =
   Ok (ci\<lparr>issue_key := Some k, issue_certs := issue_certs ci @ [c],
     KeyPEM := Some (EncodePrivateKeyPEM lib k), CertPEM := Some (EncodeCertsPEM (issue_certs ci @ [c]))\<rparr>)"
  by (simp add: setKeyAppendCert_def Let_def)

lemma setCaKeyPair_Ok [simp]:
  "setCaKeyPair lib ch \<lparr>Key = Some k, Cert = Some c\<rparr> =
   Ok (ch\<lparr>chain_data := (chain_data ch)\<lparr>
     Chain_CA := (Chain_CA (chain_data ch))\<lparr>CA_keyPair := \<lparr>Key = Some k, Cert = Some c\<rparr>,
       CA_KeyPEM := Some (EncodePrivateKeyPEM lib k), CA_CertPEM := Some (EncodeCertPEM c)\<rparr>,
     CertificatesIssued := map_values (add_ca c) (CertificatesIssued (chain_data ch))\<rparr>\<rparr>)"
  by (simp add: setCaKeyPair_def Let_def)

text \<open>The issued certificate after a full rotation.\<close>

definition fully_rotated ::
  "go_lib \<Rightarrow> nat set \<Rightarrow> duration \<Rightarrow> rsa_PrivateKey \<Rightarrow> certificate
   \<Rightarrow> CertificateIssue \<Rightarrow> CertificateIssue \<Rightarrow> bool" where
  "fully_rotated lib I d ck ca ci ci' \<longleftrightarrow> (\<exists>k c i. i \<in> I
     \<and> fresh_server lib (lib_now lib i) d ca ck (Hostnames ci) k c
     \<and> ci' = (with_bundles (map_values (\<lambda>cs. cs @ [ca]) (issue_caCerts ci)) ci)
         \<lparr>issue_key := Some k, issue_certs := [c], KeyPEM := Some (EncodePrivateKeyPEM lib k),
          CertPEM := Some (EncodeCertsPEM [c])\<rparr>)"

lemma rotated_fully:
  assumes "rotated lib I d \<lparr>Key = Some ck, Cert = Some ca\<rparr> (setKeyResetCert lib)
      (with_bundles (map_values (\<lambda>cs. cs @ [ca]) (issue_caCerts ci)) ci) ci'" "I \<subseteq> J"
  shows "fully_rotated lib J d ck ca ci ci'"
proof -
  have "Hostnames (with_bundles m ci) = Hostnames ci" for m by (simp add: with_bundles_def)
  with assms show ?thesis unfolding rotated_def fully_rotated_def by auto
qed

context x509_lib
begin

lemma rotate_loop_rotated:
  "rotate_loop lib d ca f m e = (Ok u, m', e') \<Longrightarrow>
   gomap_rel (rotated lib {ticks e..<ticks e'} d ca f) m m' \<and> ticks e \<le> ticks e'"
proof (induction m arbitrary: m' e)
  case (Cons kv m)
  obtain n ci where kv: "kv = (n, ci)" by fastforce
  with Cons.prems obtain kp e1 ci1 ms where
    new: "NewServerKeyPair lib ca (Issue_Name ci) (IPs ci) (Hostnames ci) d e = (Ok kp, e1)"
    and ap: "f ci kp = Ok ci1" and m': "m' = (n, ci1) # ms"
    and rest: "rotate_loop lib d ca f m e1 = (Ok u, ms, e')"
    by (auto split: prod.splits result.splits)
  from Cons.IH [OF rest] have IH: "gomap_rel (rotated lib {ticks e1..<ticks e'} d ca f) m ms" "ticks e1 \<le> ticks e'"
    by auto
  from NewServerKeyPair_spec [OF new] have t: "ticks e1 = Suc (ticks e)" by blast
  have "rotated lib {ticks e..<ticks e'} d ca f ci ci1"
    using NewServerKeyPair_spec [OF new] ap IH(2) t unfolding rotated_def clock_at_def by fastforce
  moreover have "gomap_rel (rotated lib {ticks e..<ticks e'} d ca f) m ms"
    by (rule gomap_rel_mono [OF IH(1)]) (use t in \<open>auto elim!: rotated_mono\<close>)
  ultimately show ?case using m' kv IH(2) t by simp
qed simp

lemma rotateCerts_rotated:
  assumes "rotateCerts lib f ch e = (Ok u, ch', e')"
  shows "chain_Options ch' = chain_Options ch" "Chain_CA (chain_data ch') = Chain_CA (chain_data ch)"
    "gomap_rel (rotated lib {ticks e..<ticks e'} (CertRotateInterval (chain_Options ch))
       (CA_keyPair (Chain_CA (chain_data ch))) f)
       (CertificatesIssued (chain_data ch)) (CertificatesIssued (chain_data ch'))" "ticks e \<le> ticks e'"
  using assms rotate_loop_rotated [of "CertRotateInterval (chain_Options ch)"
      "CA_keyPair (Chain_CA (chain_data ch))" f "CertificatesIssued (chain_data ch)" e u]
  by (auto simp: rotateCerts_def split: prod.splits)

text \<open>A full rotation: one new CA, added to every bundle, and one certificate for every service,
  issued by that CA.\<close>

lemma rotateAll_spec:
  assumes "rotateAll lib ch e = (Ok u, ch', e')"
    and keyed: "\<forall>(n, ci) \<in> set (CertificatesIssued (chain_data ch)). keyed ci"
  obtains ck ca where "fresh_ca lib (clock_at lib e) (CARotateInterval (chain_Options ch)) ck ca"
    "chain_Options ch' = chain_Options ch"
    "Chain_CA (chain_data ch') = (Chain_CA (chain_data ch))\<lparr>CA_keyPair := \<lparr>Key = Some ck, Cert = Some ca\<rparr>,
       CA_KeyPEM := Some (EncodePrivateKeyPEM lib ck), CA_CertPEM := Some (EncodeCertPEM ca)\<rparr>"
    "gomap_rel (fully_rotated lib {ticks e..<ticks e'} (CertRotateInterval (chain_Options ch)) ck ca)
      (CertificatesIssued (chain_data ch)) (CertificatesIssued (chain_data ch'))"
    "ticks e < ticks e'"
proof -
  from assms(1) obtain kp e1 ch1 where
    new: "NewCA lib (CA_Name (Chain_CA (chain_data ch))) (CARotateInterval (chain_Options ch)) e = (Ok kp, e1)"
    and set: "setCaKeyPair lib ch kp = Ok ch1"
    and rot: "rotateCerts lib (setKeyResetCert lib) ch1 e1 = (Ok (), ch', e')"
    by (auto simp: rotateAll_def rotateCertsWithoutOverlap_def split: prod.splits result.splits)
  from NewCA_spec [OF new] obtain ck ca where
    kp: "kp = \<lparr>Key = Some ck, Cert = Some ca\<rparr>"
    and fr: "fresh_ca lib (clock_at lib e) (CARotateInterval (chain_Options ch)) ck ca"
    and t: "ticks e1 = Suc (ticks e)" by auto
  note r = rotateCerts_rotated [OF rot]
  have ch1: "chain_Options ch1 = chain_Options ch"
    "Chain_CA (chain_data ch1) = (Chain_CA (chain_data ch))\<lparr>CA_keyPair := \<lparr>Key = Some ck, Cert = Some ca\<rparr>,
       CA_KeyPEM := Some (EncodePrivateKeyPEM lib ck), CA_CertPEM := Some (EncodeCertPEM ca)\<rparr>"
    "CertificatesIssued (chain_data ch1) = map_values (add_ca ca) (CertificatesIssued (chain_data ch))"
    using set kp by auto
  have step1: "gomap_rel (\<lambda>ci ci'. ci' = with_bundles (map_values (\<lambda>cs. cs @ [ca]) (issue_caCerts ci)) ci)
      (CertificatesIssued (chain_data ch)) (CertificatesIssued (chain_data ch1))"
    unfolding ch1(3)
    by (rule gomap_rel_mono_in [OF gomap_rel_map_values]) (use keyed add_ca_keyed in auto)
  have "gomap_rel (fully_rotated lib {ticks e..<ticks e'} (CertRotateInterval (chain_Options ch)) ck ca)
      (CertificatesIssued (chain_data ch)) (CertificatesIssued (chain_data ch'))"
    using step1 r(3)
  proof (rule gomap_rel_trans)
    fix ci ci1 ci'
    assume "ci1 = with_bundles (map_values (\<lambda>cs. cs @ [ca]) (issue_caCerts ci)) ci"
      and "rotated lib {ticks e1..<ticks e'} (CertRotateInterval (chain_Options ch1))
        (CA_keyPair (Chain_CA (chain_data ch1))) (setKeyResetCert lib) ci1 ci'"
    then show "fully_rotated lib {ticks e..<ticks e'} (CertRotateInterval (chain_Options ch)) ck ca ci ci'"
      using t ch1 by (intro rotated_fully [of _ "{ticks e1..<ticks e'}"]) auto
  qed
  with fr r ch1 t show ?thesis by (intro that [of ck ca]) auto
qed

end

section \<open>Panics\<close>

lemma rotate_loop_no_panic:
  assumes "Key ca \<noteq> None" "Cert ca \<noteq> None"
    and f: "\<And>ci k c. \<exists>ci'. f ci \<lparr>Key = Some k, Cert = Some c\<rparr> = Ok ci'"
  shows "\<not> is_Panic (fst (rotate_loop lib d ca f m e))"
proof (induction m arbitrary: e)
  case (Cons kv m)
  obtain n ci where kv: "kv = (n, ci)" by fastforce
  obtain r e1 where new: "NewServerKeyPair lib ca (Issue_Name ci) (IPs ci) (Hostnames ci) d e = (r, e1)"
    by fastforce
  show ?case
  proof (cases r)
    case (Ok kp)
    then obtain k c where "kp = \<lparr>Key = Some k, Cert = Some c\<rparr>"
      using new by (auto simp: NewServerKeyPair_def Let_def split: prod.splits result.splits)
    with f [of ci k c] Cons.IH [of e1] Ok new kv show ?thesis by (auto split: prod.splits)
  next
    case (Panic s)
    with new NewServerKeyPair_no_panic [OF assms(1,2)] show ?thesis by blast
  qed (use new kv in simp)
qed simp

lemma rotateAll_no_panic: "\<not> is_Panic (fst (rotateAll lib ch e))"
proof -
  obtain r e1 where new: "NewCA lib (CA_Name (Chain_CA (chain_data ch))) (CARotateInterval (chain_Options ch)) e = (r, e1)"
    by fastforce
  show ?thesis
  proof (cases r)
    case (Ok kp)
    then obtain k c where kp: "kp = \<lparr>Key = Some k, Cert = Some c\<rparr>"
      using new by (auto simp: NewCA_def Let_def split: prod.splits result.splits)
    then obtain ch1 where ch1: "setCaKeyPair lib ch kp = Ok ch1"
      "CA_keyPair (Chain_CA (chain_data ch1)) = kp" by auto
    have "\<not> is_Panic (fst (rotateCertsWithoutOverlap lib ch1 e1))"
    proof -
      have "\<not> is_Panic (fst (rotate_loop lib d kp (setKeyResetCert lib) m e1))" for d m
        by (rule rotate_loop_no_panic) (simp_all add: kp)
      with ch1(2) show ?thesis
        by (simp add: rotateCertsWithoutOverlap_def rotateCerts_def case_prod_unfold)
    qed
    with Ok new ch1 show ?thesis by (auto simp: rotateAll_def split: prod.splits result.splits)
  next
    case (Panic s)
    with new NewCA_no_panic show ?thesis by blast
  qed (use new in \<open>simp add: rotateAll_def\<close>)
qed

end
