(* ===== verification/Chain_Update.thy ===== *)
theory Chain_Update
  imports Cleanup Rotation
begin

text \<open>
  The method \<^verbatim>\<open>update\<close> of \<^verbatim>\<open>chain.go\<close> and the entry points \<^verbatim>\<open>Update\<close> and \<^verbatim>\<open>Verify\<close> of
  \<^verbatim>\<open>api.go\<close>. The result is the next update time or an error, together with the chain as the
  caller's data holds it afterwards.
\<close>

text \<open>The clean-up half of \<^verbatim>\<open>update\<close>, once the rotation deadlines are known.\<close>

definition update_cleanup ::
  "go_lib \<Rightarrow> time \<Rightarrow> time \<Rightarrow> certificateChain \<Rightarrow> env \<Rightarrow> time result \<times> certificateChain \<times> env" where
  "update_cleanup lib deadlineToRotateCA deadlineToRotateCerts ch e =
     (let deadlineToCleanUpCACerts = findCleanUpDeadlineForCACerts ch;
          cleanUpCA = \<not> Before (clock_at lib e) deadlineToCleanUpCACerts;
          (ch1, e1) = (if cleanUpCA then cleanUpCACerts lib ch (tick e) else (ch, tick e));
          deadlineToCleanUpCACerts =
            (if cleanUpCA then findCleanUpDeadlineForCACerts ch1 else deadlineToCleanUpCACerts);
          deadlineToCleanUpCerts = findCleanUpDeadlineForCerts ch1;
          cleanUpCert = \<not> Before (clock_at lib e1) deadlineToCleanUpCerts;
          (ch2, e2) = (if cleanUpCert then cleanUpCerts lib ch1 (tick e1) else (ch1, tick e1));
          deadlineToCleanUpCerts =
            (if cleanUpCert then findCleanUpDeadlineForCerts ch2 else deadlineToCleanUpCerts)
      in (Ok (minTime [deadlineToRotateCA, deadlineToRotateCerts,
                       deadlineToCleanUpCACerts, deadlineToCleanUpCerts]), ch2, e2))"

definition update ::
  "go_lib \<Rightarrow> certificateChain \<Rightarrow> env \<Rightarrow> time result \<times> certificateChain \<times> env" where
  "update lib ch e =
     (let deadlineToRotateCA = findRotationDeadlineForCA ch;
          deadlineToRotateCerts = findRotationDeadlineForCerts ch;
          mustRotateCA = \<not> Before (clock_at lib e) deadlineToRotateCA;
          mustRotateCerts = \<not> Before (clock_at lib (tick e)) deadlineToRotateCerts;
          e1 = tick (tick e);
          (verified, e2) = (if \<not> mustRotateCA then verifyTLS lib ch e1 else (Ok (), e1))
      in case verified of
           Panic s \<Rightarrow> (Panic s, ch, e2)
         | _ \<Rightarrow>
           (if mustRotateCA \<or> \<not> is_Ok verified then
              (case rotateAll lib ch e2 of
                 (Panic s, ch1, e3) \<Rightarrow> (Panic s, ch1, e3)
               | (Fail er, ch1, e3) \<Rightarrow> (Fail (Wrap er ''Failed rotating certificate chain''), ch1, e3)
               | (Ok _, ch1, e3) \<Rightarrow>
                   update_cleanup lib (findRotationDeadlineForCA ch1)
                     (findRotationDeadlineForCerts ch1) ch1 e3)
            else if mustRotateCerts then
              (case rotateCertsWithOverlap lib ch e2 of
                 (Panic s, ch1, e3) \<Rightarrow> (Panic s, ch1, e3)
               | (Fail er, ch1, e3) \<Rightarrow> (Fail (Wrap er ''Failed rotating bundles''), ch1, e3)
               | (Ok _, ch1, e3) \<Rightarrow>
                   update_cleanup lib deadlineToRotateCA (findRotationDeadlineForCerts ch1) ch1 e3)
            else update_cleanup lib deadlineToRotateCA deadlineToRotateCerts ch e2))"

text \<open>\<^verbatim>\<open>Update\<close> changes the data its caller passes; the options are copied. When the options are
  invalid the data is untouched.\<close>

definition Update ::
  "go_lib \<Rightarrow> Options \<Rightarrow> CertificateChainData \<Rightarrow> env
   \<Rightarrow> time result \<times> CertificateChainData \<times> env" where
  "Update lib options d e =
     (case newChain lib options d of
        Panic s \<Rightarrow> (Panic s, d, e)
      | Fail er \<Rightarrow> (Fail er, d, e)
      | Ok ch \<Rightarrow> (case update lib ch e of (r, ch1, e1) \<Rightarrow> (r, chain_data ch1, e1)))"

definition Verify ::
  "go_lib \<Rightarrow> Options \<Rightarrow> CertificateChainData \<Rightarrow> env
   \<Rightarrow> unit result \<times> CertificateChainData \<times> env" where
  "Verify lib options d e =
     (case newChain lib options d of
        Panic s \<Rightarrow> (Panic s, d, e)
      | Fail er \<Rightarrow> (Fail er, d, e)
      | Ok ch \<Rightarrow> (case verifyTLS lib ch e of (r, e1) \<Rightarrow> (r, chain_data ch, e1)))"

section \<open>The branches of an update\<close>

lemma VerifyTLS_ticks_le: "VerifyTLS lib a b c e = (r, e') \<Longrightarrow> ticks e \<le> ticks e'"
  by (auto dest: VerifyTLS_ticks)

lemma verify_bundles_ticks: "verify_bundles lib ca ci m e = (r, e') \<Longrightarrow> ticks e \<le> ticks e'"
proof (induction m arbitrary: e)
  case (Cons kv m)
  obtain n pem where kv: "kv = (n, pem)" by fastforce
  obtain r1 e1 where v: "VerifyTLS lib (bytes_of (CertPEM ci)) (bytes_of (KeyPEM ci)) (bytes_of pem) e = (r1, e1)"
    by fastforce
  then have "ticks e \<le> ticks e1" by (rule VerifyTLS_ticks_le)
  moreover have "ticks e1 \<le> ticks e'" if "verify_bundles lib ca ci m e1 = (r, e')"
    using that by (rule Cons.IH)
  ultimately show ?case using Cons.prems v kv by (auto simp: Let_def split: if_splits result.splits)
qed simp

lemma verify_issues_ticks: "verify_issues lib ca m e = (r, e') \<Longrightarrow> ticks e \<le> ticks e'"
proof (induction m arbitrary: e)
  case (Cons kv m)
  obtain n ci where kv: "kv = (n, ci)" by fastforce
  obtain r1 e1 where v: "verify_bundles lib ca ci (CACertPEM ci) e = (r1, e1)" by fastforce
  then have "ticks e \<le> ticks e1" by (rule verify_bundles_ticks)
  moreover have "ticks e1 \<le> ticks e'" if "verify_issues lib ca m e1 = (r, e')"
    using that by (rule Cons.IH)
  ultimately show ?case using Cons.prems v kv by (auto split: result.splits)
qed simp

lemma verifyTLS_ticks: "verifyTLS lib ch e = (r, e') \<Longrightarrow> ticks e \<le> ticks e'"
  unfolding verifyTLS_def by (rule verify_issues_ticks)

text \<open>When a full rotation is due: the CA deadline has passed or the chain does not verify.\<close>

definition full_rotation_due :: "go_lib \<Rightarrow> certificateChain \<Rightarrow> env \<Rightarrow> bool" where
  "full_rotation_due lib ch e \<longleftrightarrow> \<not> Before (clock_at lib e) (findRotationDeadlineForCA ch)
     \<or> \<not> is_Ok (fst (verifyTLS lib ch (tick (tick e))))"

text \<open>The two rotating branches, and the update as a choice between them.\<close>

definition full_branch ::
  "go_lib \<Rightarrow> certificateChain \<Rightarrow> env \<Rightarrow> time result \<times> certificateChain \<times> env" where
  "full_branch lib ch e2 = (case rotateAll lib ch e2 of
       (Panic s, ch1, e3) \<Rightarrow> (Panic s, ch1, e3)
     | (Fail er, ch1, e3) \<Rightarrow> (Fail (Wrap er ''Failed rotating certificate chain''), ch1, e3)
     | (Ok _, ch1, e3) \<Rightarrow>
         update_cleanup lib (findRotationDeadlineForCA ch1) (findRotationDeadlineForCerts ch1) ch1 e3)"

definition certs_branch ::
  "go_lib \<Rightarrow> certificateChain \<Rightarrow> env \<Rightarrow> time result \<times> certificateChain \<times> env" where
  "certs_branch lib ch e2 = (case rotateCertsWithOverlap lib ch e2 of
       (Panic s, ch1, e3) \<Rightarrow> (Panic s, ch1, e3)
     | (Fail er, ch1, e3) \<Rightarrow> (Fail (Wrap er ''Failed rotating bundles''), ch1, e3)
     | (Ok _, ch1, e3) \<Rightarrow>
         update_cleanup lib (findRotationDeadlineForCA ch) (findRotationDeadlineForCerts ch1) ch1 e3)"

lemma update_branches:
  "update lib ch e =
     (if \<not> Before (clock_at lib e) (findRotationDeadlineForCA ch) then full_branch lib ch (tick (tick e))
      else case verifyTLS lib ch (tick (tick e)) of
        (Panic s, e2) \<Rightarrow> (Panic s, ch, e2)
      | (Fail er, e2) \<Rightarrow> full_branch lib ch e2
      | (Ok _, e2) \<Rightarrow>
          (if \<not> Before (clock_at lib (tick e)) (findRotationDeadlineForCerts ch) then certs_branch lib ch e2
           else update_cleanup lib (findRotationDeadlineForCA ch) (findRotationDeadlineForCerts ch) ch e2))"
  by (simp add: update_def Let_def full_branch_def certs_branch_def split: prod.split result.split)

lemma update_Ok_cases [consumes 1, case_names full certs none]:
  assumes "update lib ch e = (Ok t, ch', e')"
  obtains e2 ch1 e3 where "full_rotation_due lib ch e" "ticks e \<le> ticks e2"
      "rotateAll lib ch e2 = (Ok (), ch1, e3)"
      "update_cleanup lib (findRotationDeadlineForCA ch1) (findRotationDeadlineForCerts ch1) ch1 e3
         = (Ok t, ch', e')"
  | e2 ch1 e3 where "\<not> full_rotation_due lib ch e" "ticks e \<le> ticks e2"
      "verifyTLS lib ch (tick (tick e)) = (Ok (), e2)"
      "Before (clock_at lib e) (findRotationDeadlineForCA ch)"
      "\<not> Before (clock_at lib (tick e)) (findRotationDeadlineForCerts ch)"
      "rotateCertsWithOverlap lib ch e2 = (Ok (), ch1, e3)"
      "update_cleanup lib (findRotationDeadlineForCA ch) (findRotationDeadlineForCerts ch1) ch1 e3
         = (Ok t, ch', e')"
  | e2 where "\<not> full_rotation_due lib ch e" "ticks e \<le> ticks e2"
      "verifyTLS lib ch (tick (tick e)) = (Ok (), e2)"
      "Before (clock_at lib e) (findRotationDeadlineForCA ch)"
      "Before (clock_at lib (tick e)) (findRotationDeadlineForCerts ch)"
      "update_cleanup lib (findRotationDeadlineForCA ch) (findRotationDeadlineForCerts ch) ch e2
         = (Ok t, ch', e')"
proof -
  obtain v e2 where v: "verifyTLS lib ch (tick (tick e)) = (v, e2)" by fastforce
  then have t: "ticks e \<le> ticks e2" using verifyTLS_ticks [OF v] by simp
  show ?thesis
  proof (cases "Before (clock_at lib e) (findRotationDeadlineForCA ch)")
    case False
    then show ?thesis using assms that(1) [of "tick (tick e)"]
      by (auto simp: update_def Let_def full_rotation_due_def split: prod.splits result.splits)
  next
    case True
    show ?thesis
    proof (cases v)
      case (Ok u)
      then show ?thesis using assms v True t that(2) [of e2] that(3) [of e2]
        by (auto simp: update_def Let_def full_rotation_due_def split: prod.splits result.splits if_splits)
    next
      case (Fail er)
      then show ?thesis using assms v True t that(1) [of e2]
        by (auto simp: update_def Let_def full_rotation_due_def split: prod.splits result.splits)
    next
      case (Panic s)
      then show ?thesis using assms v True by (simp add: update_def Let_def)
    qed
  qed
qed

section \<open>The clean-up half\<close>

text \<open>What the clean-up half does to one issued certificate.\<close>

definition tidied :: "go_lib \<Rightarrow> nat set \<Rightarrow> CertificateIssue \<Rightarrow> CertificateIssue \<Rightarrow> bool" where
  "tidied lib I ci ci' \<longleftrightarrow> (\<exists>ci1. (ci1 = ci \<or> bundles_cleaned lib I ci ci1)
     \<and> (ci' = ci1 \<or> certs_cleaned lib I ci1 ci'))"

lemma cleanup_ca_stage:
  assumes "(if b then cleanUpCACerts lib ch (tick e) else (ch, tick e)) = (ch', e')"
    and keyed: "\<forall>(n, ci) \<in> set (CertificatesIssued (chain_data ch)). keyed ci"
  shows "chain_Options ch' = chain_Options ch \<and> Chain_CA (chain_data ch') = Chain_CA (chain_data ch)
    \<and> gomap_rel (\<lambda>ci ci'. ci' = ci \<or> bundles_cleaned lib {ticks e..<ticks e'} ci ci')
        (CertificatesIssued (chain_data ch)) (CertificatesIssued (chain_data ch'))
    \<and> ticks e \<le> ticks e'"
proof (cases b)
  case True
  with assms(1) have "cleanUpCACerts lib ch (tick e) = (ch', e')" by simp
  note r = cleanUpCACerts_cleaned [OF this keyed]
  have "gomap_rel (\<lambda>ci ci'. ci' = ci \<or> bundles_cleaned lib {ticks e..<ticks e'} ci ci')
    (CertificatesIssued (chain_data ch)) (CertificatesIssued (chain_data ch'))"
    by (rule gomap_rel_mono [OF r(3)]) (rule disjI2, erule bundles_cleaned_mono, auto)
  with r show ?thesis by simp
next
  case False
  with assms(1) show ?thesis by (auto intro: gomap_rel_refl)
qed

lemma cleanup_cert_stage:
  assumes "(if b then cleanUpCerts lib ch (tick e) else (ch, tick e)) = (ch', e')"
  shows "chain_Options ch' = chain_Options ch \<and> Chain_CA (chain_data ch') = Chain_CA (chain_data ch)
    \<and> gomap_rel (\<lambda>ci ci'. ci' = ci \<or> certs_cleaned lib {ticks e..<ticks e'} ci ci')
        (CertificatesIssued (chain_data ch)) (CertificatesIssued (chain_data ch'))
    \<and> ticks e \<le> ticks e'"
proof (cases b)
  case True
  with assms(1) have "cleanUpCerts lib ch (tick e) = (ch', e')" by simp
  note r = cleanUpCerts_cleaned [OF this]
  have "gomap_rel (\<lambda>ci ci'. ci' = ci \<or> certs_cleaned lib {ticks e..<ticks e'} ci ci')
    (CertificatesIssued (chain_data ch)) (CertificatesIssued (chain_data ch'))"
    by (rule gomap_rel_mono [OF r(3)]) (rule disjI2, erule certs_cleaned_mono, auto)
  with r show ?thesis by simp
next
  case False
  with assms(1) show ?thesis by (auto intro: gomap_rel_refl)
qed

lemma all_caCerts_cong:
  "gomap_rel R m m' \<Longrightarrow> (\<And>ci ci'. R ci ci' \<Longrightarrow> issue_caCerts ci' = issue_caCerts ci) \<Longrightarrow>
   all_caCerts m' = all_caCerts m"
  unfolding gomap_rel_def all_caCerts_def
  by (induction rule: list_all2_induct) auto

lemma certs_cleaned_caCerts: "certs_cleaned lib I ci ci' \<Longrightarrow> issue_caCerts ci' = issue_caCerts ci"
  by (auto simp: certs_cleaned_def setCerts_def)

text \<open>The two stages of the clean-up half. Each stage reads its deadline again after a clean-up, so
  the time returned is the one the final chain has.\<close>

lemma update_cleanup_stages:
  assumes "update_cleanup lib dA dC ch e = (Ok t, ch', e')"
  obtains ch1 e1 where
    "(if \<not> Before (clock_at lib e) (findCleanUpDeadlineForCACerts ch)
      then cleanUpCACerts lib ch (tick e) else (ch, tick e)) = (ch1, e1)"
    "(if \<not> Before (clock_at lib e1) (findCleanUpDeadlineForCerts ch1)
      then cleanUpCerts lib ch1 (tick e1) else (ch1, tick e1)) = (ch', e')"
    "t = minTime [dA, dC, findCleanUpDeadlineForCACerts ch1, findCleanUpDeadlineForCerts ch']"
proof -
  let ?A = "\<not> Before (clock_at lib e) (findCleanUpDeadlineForCACerts ch)"
  obtain ch1 e1 where c1: "(if ?A then cleanUpCACerts lib ch (tick e) else (ch, tick e)) = (ch1, e1)"
    by fastforce
  let ?C = "\<not> Before (clock_at lib e1) (findCleanUpDeadlineForCerts ch1)"
  obtain ch2 e2 where c2: "(if ?C then cleanUpCerts lib ch1 (tick e1) else (ch1, tick e1)) = (ch2, e2)"
    by fastforce
  have A: "(if ?A then findCleanUpDeadlineForCACerts ch1 else findCleanUpDeadlineForCACerts ch)
      = findCleanUpDeadlineForCACerts ch1"
    using c1 by (cases ?A) simp_all
  have C: "(if ?C then findCleanUpDeadlineForCerts ch2 else findCleanUpDeadlineForCerts ch1)
      = findCleanUpDeadlineForCerts ch2"
    using c2 by (cases ?C) simp_all
  have "update_cleanup lib dA dC ch e =
      (Ok (minTime [dA, dC, findCleanUpDeadlineForCACerts ch1, findCleanUpDeadlineForCerts ch2]), ch2, e2)"
    by (simp only: update_cleanup_def Let_def c1 c2 prod.case A C)
  with assms have "ch2 = ch'" "e2 = e'"
    "t = minTime [dA, dC, findCleanUpDeadlineForCACerts ch1, findCleanUpDeadlineForCerts ch']" by auto
  with that c1 c2 show ?thesis by blast
qed

lemma update_cleanup_tidied:
  assumes "update_cleanup lib dA dC ch e = (Ok t, ch', e')"
    and keyed: "\<forall>(n, ci) \<in> set (CertificatesIssued (chain_data ch)). keyed ci"
  shows "chain_Options ch' = chain_Options ch" "Chain_CA (chain_data ch') = Chain_CA (chain_data ch)"
    "gomap_rel (tidied lib {ticks e..<ticks e'}) (CertificatesIssued (chain_data ch))
       (CertificatesIssued (chain_data ch'))" "ticks e \<le> ticks e'"
    "t = minTime [dA, dC, findCleanUpDeadlineForCACerts ch', findCleanUpDeadlineForCerts ch']"
proof -
  obtain ch1 e1 where
    c1: "(if \<not> Before (clock_at lib e) (findCleanUpDeadlineForCACerts ch)
      then cleanUpCACerts lib ch (tick e) else (ch, tick e)) = (ch1, e1)"
    and c2: "(if \<not> Before (clock_at lib e1) (findCleanUpDeadlineForCerts ch1)
      then cleanUpCerts lib ch1 (tick e1) else (ch1, tick e1)) = (ch', e')"
    and t: "t = minTime [dA, dC, findCleanUpDeadlineForCACerts ch1, findCleanUpDeadlineForCerts ch']"
    by (rule update_cleanup_stages [OF assms(1)])
  note s1 = cleanup_ca_stage [OF c1 keyed] and s2 = cleanup_cert_stage [OF c2]
  show "chain_Options ch' = chain_Options ch" "Chain_CA (chain_data ch') = Chain_CA (chain_data ch)"
    "ticks e \<le> ticks e'"
    using s1 s2 by auto
  have "all_caCerts (CertificatesIssued (chain_data ch')) = all_caCerts (CertificatesIssued (chain_data ch1))"
    by (rule all_caCerts_cong [OF conjunct1 [OF conjunct2 [OF conjunct2 [OF s2]]]])
      (auto dest: certs_cleaned_caCerts)
  then show "t = minTime [dA, dC, findCleanUpDeadlineForCACerts ch', findCleanUpDeadlineForCerts ch']"
    unfolding t by (simp add: findCleanUpDeadlineForCACerts_def)
  show "gomap_rel (tidied lib {ticks e..<ticks e'}) (CertificatesIssued (chain_data ch))
       (CertificatesIssued (chain_data ch'))"
  proof (rule gomap_rel_trans [OF conjunct1 [OF conjunct2 [OF conjunct2 [OF s1]]]
        conjunct1 [OF conjunct2 [OF conjunct2 [OF s2]]]])
    fix ci ci1 ci'
    assume a: "ci1 = ci \<or> bundles_cleaned lib {ticks e..<ticks e1} ci ci1"
      and b: "ci' = ci1 \<or> certs_cleaned lib {ticks e1..<ticks e'} ci1 ci'"
    have s: "{ticks e..<ticks e1} \<subseteq> {ticks e..<ticks e'}" "{ticks e1..<ticks e'} \<subseteq> {ticks e..<ticks e'}"
      using s1 s2 by auto
    from a have "ci1 = ci \<or> bundles_cleaned lib {ticks e..<ticks e'} ci ci1"
      by (rule disj_forward) (assumption, erule bundles_cleaned_mono [OF _ s(1)])
    moreover from b have "ci' = ci1 \<or> certs_cleaned lib {ticks e..<ticks e'} ci1 ci'"
      by (rule disj_forward) (assumption, erule certs_cleaned_mono [OF _ s(2)])
    ultimately show "tidied lib {ticks e..<ticks e'} ci ci'"
      unfolding tidied_def by (intro exI [of _ ci1] conjI)
  qed
qed

text \<open>The clean-up half reads the clock at least twice.\<close>

lemma cleanup_ca_issues_ticks: "ticks e \<le> ticks (snd (cleanup_ca_issues lib m e))"
proof (induction m arbitrary: e)
  case (Cons kv m)
  obtain n ci where kv: "kv = (n, ci)" by fastforce
  obtain ci' e1 where c: "cleanup_bundles_loop lib (issue_caCerts ci) ci e = (ci', e1)" by fastforce
  from cleanup_bundles_loop_cleaned [OF c] have "ticks e \<le> ticks e1" by blast
  with Cons.IH [of e1] c kv show ?case by (auto split: prod.split)
qed simp

lemma update_cleanup_ticks:
  assumes "update_cleanup lib dA dC ch e = (Ok t, ch', e')"
  shows "ticks e < ticks e'"
proof -
  obtain ch1 e1 where
    c1: "(if \<not> Before (clock_at lib e) (findCleanUpDeadlineForCACerts ch)
      then cleanUpCACerts lib ch (tick e) else (ch, tick e)) = (ch1, e1)"
    and c2: "(if \<not> Before (clock_at lib e1) (findCleanUpDeadlineForCerts ch1)
      then cleanUpCerts lib ch1 (tick e1) else (ch1, tick e1)) = (ch', e')"
    by (rule update_cleanup_stages [OF assms])
  have "ticks (tick e) \<le> ticks e1"
    using c1 cleanup_ca_issues_ticks [of "tick e" lib "CertificatesIssued (chain_data ch)"]
    by (auto simp: cleanUpCACerts_def split: if_splits prod.splits)
  moreover have "ticks e1 \<le> ticks e'" using cleanup_cert_stage [OF c2] by simp
  ultimately show ?thesis by simp
qed

end
