(* ===== verification/Cert_Manager.thy ===== *)
theory Cert_Manager
  imports Configuration Chain_Update
begin

text \<open>
  \<^verbatim>\<open>manager.go\<close> and \<^verbatim>\<open>controller.go\<close>: the certificate manager reads the chain from the cluster,
  updates it and writes it back; the controller decides which events make it do so. The mutex
  makes the two operations of the manager exclude each other, so each is one function here; the
  flag \<open>verifying\<close> is set for the duration of \<^verbatim>\<open>VerifyTLS\<close>.
\<close>

section \<open>\<^verbatim>\<open>manager.go\<close>\<close>

definition NewManager ::
  "string \<Rightarrow> string \<Rightarrow> Options \<Rightarrow> WebhookReference list \<Rightarrow> Manager result" where
  "NewManager name namespace options whs =
     (case SetDefaultsAndValidate options of
        (Some e, _) \<Rightarrow> Fail e
      | (None, o') \<Rightarrow> Ok \<lparr>manager_name = name, manager_namespace = namespace, webhooks = whs,
          manager_options = o', verifying = False\<rparr>)"

definition empty_chain :: CertificateChainData where
  "empty_chain = \<lparr>CertificatesIssued = [], Chain_CA = \<lparr>CA_Name = [], CA_KeyPEM = None, CA_CertPEM = None,
     CA_keyPair = \<lparr>Key = None, Cert = None\<rparr>\<rparr>\<rparr>"

definition initial_read :: "'s \<Rightarrow> 's read_state" where
  "initial_read s = \<lparr>rs_objects = empty_objectMap, rs_chain = empty_chain, rs_cluster = s\<rparr>"

text \<open>The orders in which the two loops over the object map visit it.\<close>

record map_order =
  next_read :: "nat list \<Rightarrow> nat"
  write_order :: "nat list \<Rightarrow> nat list"

definition reconcileCertificates ::
  "go_lib \<Rightarrow> 's kube_client \<Rightarrow> map_order \<Rightarrow> Manager \<Rightarrow> 's \<Rightarrow> env \<Rightarrow> duration result \<times> 's \<times> env" where
  "reconcileCertificates lib cl ord m s e =
     (case readCertificateChain m cl (next_read ord) (initial_read s) of
        (Panic x, st) \<Rightarrow> (Panic x, rs_cluster st, e)
      | (Fail er, st) \<Rightarrow> (Fail (Wrap er ''Failed reading certificate data''), rs_cluster st, e)
      | (Ok _, st) \<Rightarrow>
          (case Update lib (manager_options m) (rs_chain st) e of
             (Panic x, d, e1) \<Rightarrow> (Panic x, rs_cluster st, e1)
           | (Fail er, d, e1) \<Rightarrow> (Fail (Wrap er ''Failed updating certificate data''), rs_cluster st, e1)
           | (Ok reconcileAt, d, e1) \<Rightarrow>
               (case writeCertificateChain cl (write_order ord) (rs_objects st) d (rs_cluster st) of
                  (Panic x, os, s2) \<Rightarrow> (Panic x, s2, e1)
                | (Fail er, os, s2) \<Rightarrow> (Fail (Wrap er ''Failed writing certificate data''), s2, e1)
                | (Ok _, os, s2) \<Rightarrow> (Ok (Sub reconcileAt (clock_at lib e1)), s2, tick e1))))"

definition Manager_VerifyTLS ::
  "go_lib \<Rightarrow> 's kube_client \<Rightarrow> map_order \<Rightarrow> Manager \<Rightarrow> 's \<Rightarrow> env \<Rightarrow> unit result \<times> 's \<times> env" where
  "Manager_VerifyTLS lib cl ord m s e =
     (case readCertificateChain (m\<lparr>verifying := True\<rparr>) cl (next_read ord) (initial_read s) of
        (Panic x, st) \<Rightarrow> (Panic x, rs_cluster st, e)
      | (Fail er, st) \<Rightarrow> (Fail (Wrap er ''Failed reading certificate data''), rs_cluster st, e)
      | (Ok _, st) \<Rightarrow>
          (case Verify lib (manager_options m) (rs_chain st) e of
             (Panic x, d, e1) \<Rightarrow> (Panic x, rs_cluster st, e1)
           | (Fail er, d, e1) \<Rightarrow> (Fail (Wrap er ''Failed verifying certificate data''), rs_cluster st, e1)
           | (Ok _, d, e1) \<Rightarrow> (Ok (), rs_cluster st, e1)))"

section \<open>\<^verbatim>\<open>controller.go\<close>\<close>

record Result =
  Requeue :: bool
  RequeueAfter :: duration

definition Reconcile ::
  "go_lib \<Rightarrow> 's kube_client \<Rightarrow> map_order \<Rightarrow> Manager \<Rightarrow> 's \<Rightarrow> env
   \<Rightarrow> Result \<times> unit result \<times> 's \<times> env" where
  "Reconcile lib cl ord m s e =
     (case reconcileCertificates lib cl ord m s e of
        (Panic x, s1, e1) \<Rightarrow> (\<lparr>Requeue = False, RequeueAfter = 0\<rparr>, Panic x, s1, e1)
      | (Fail er, s1, e1) \<Rightarrow> (\<lparr>Requeue = False, RequeueAfter = 0\<rparr>, Fail er, s1, e1)
      | (Ok requeueAfter, s1, e1) \<Rightarrow> (\<lparr>Requeue = True, RequeueAfter = requeueAfter\<rparr>, Ok (), s1, e1))"

text \<open>Which events are reconciled.\<close>

definition isAnnotatedResource :: "Object \<Rightarrow> bool" where
  "isAnnotatedResource ob = (map_of (Annotations (object_Meta ob)) secretManagedAnnotationKey \<noteq> None)"

fun object_webhook_type :: "Object \<Rightarrow> WebhookType option" where
  "object_webhook_type (MutatingConfiguration w) = Some MutatingWebhook"
| "object_webhook_type (ValidatingConfiguration w) = Some ValidatingWebhook"
| "object_webhook_type (SecretObject s) = None"

fun references :: "WebhookReference list \<Rightarrow> string \<Rightarrow> WebhookType \<Rightarrow> bool" where
  "references [] name t = False"
| "references (w # ws) name t = (if Ref_Name w = name \<and> Ref_Type w = t then True else references ws name t)"

definition isWebhookConfig :: "Manager \<Rightarrow> Object \<Rightarrow> bool" where
  "isWebhookConfig m ob = (case object_webhook_type ob of
     None \<Rightarrow> False
   | Some t \<Rightarrow> references (webhooks m) (Meta_Name (object_Meta ob)) t)"

datatype event = CreateEvent Object | DeleteEvent Object | UpdateEvent Object Object | GenericEvent Object

fun onEventForThisWebhook :: "Manager \<Rightarrow> event \<Rightarrow> bool" where
  "onEventForThisWebhook m (CreateEvent ob) = (isWebhookConfig m ob \<or> isAnnotatedResource ob)"
| "onEventForThisWebhook m (DeleteEvent ob) = isAnnotatedResource ob"
| "onEventForThisWebhook m (UpdateEvent old new) = (isWebhookConfig m old \<or> isAnnotatedResource old)"
| "onEventForThisWebhook m (GenericEvent ob) = (isWebhookConfig m ob \<or> isAnnotatedResource ob)"

text \<open>Adding the controller to the controller-runtime manager, whose operations are parameters.\<close>

record 'r runtime =
  runtime_New :: "'r \<Rightarrow> error option \<times> 'r"
  runtime_Watch :: "objectKind \<Rightarrow> (event \<Rightarrow> bool) \<Rightarrow> 'r \<Rightarrow> error option \<times> 'r"
  runtime_Add :: "'r \<Rightarrow> error option \<times> 'r"

definition add :: "Manager \<Rightarrow> 'r runtime \<Rightarrow> 'r \<Rightarrow> unit result \<times> 'r" where
  "add m rt s =
     (case runtime_New rt s of
        (Some e, s1) \<Rightarrow> (Fail (Wrap e ''failed instanciating certificate controller''), s1)
      | (None, s1) \<Rightarrow>
     (case runtime_Watch rt secretType (onEventForThisWebhook m) s1 of
        (Some e, s2) \<Rightarrow> (Fail (Wrap e ''failed watching Secret''), s2)
      | (None, s2) \<Rightarrow>
     (case runtime_Watch rt validatingWebhookType (onEventForThisWebhook m) s2 of
        (Some e, s3) \<Rightarrow> (Fail (Wrap e ''failed watching ValidatingWebhookConfiguration''), s3)
      | (None, s3) \<Rightarrow>
     (case runtime_Watch rt mutatingWebhookType (onEventForThisWebhook m) s3 of
        (Some e, s4) \<Rightarrow> (Fail (Wrap e ''failed watching MutatingWebhookConfiguration''), s4)
      | (None, s4) \<Rightarrow> (Ok (), s4)))))"

definition Manager_Add :: "Manager \<Rightarrow> 'r runtime \<Rightarrow> 'r \<Rightarrow> unit result \<times> 'r" where
  "Manager_Add m rt s = add m rt s"

lemma references_iff: "references ws name t \<longleftrightarrow> (\<exists>w \<in> set ws. Ref_Name w = name \<and> Ref_Type w = t)"
  by (induction ws) auto

end
