(* ===== verification/Config_Mapping.thy ===== *)
theory Config_Mapping
  imports Kube_Objects
begin

text \<open>
  What the maps between Kubernetes objects and chain data do: which client configurations are
  considered, which CA bundles are written to them, and that writing and reading back gives the
  chain data that was written.
\<close>

section \<open>Client configurations\<close>

lemma client_config_loop_entries:
  assumes "\<forall>(n, j) \<in> set m. j < i \<and> Webhook_Name (pre ! j) = n \<and> Service (ClientConfig (pre ! j)) \<noteq> None"
    and "length pre = i"
  shows "\<forall>(n, j) \<in> set (client_config_loop i ws m).
    j < length (pre @ ws) \<and> Webhook_Name ((pre @ ws) ! j) = n \<and> Service (ClientConfig ((pre @ ws) ! j)) \<noteq> None"
  using assms
proof (induction i ws m arbitrary: pre rule: client_config_loop.induct)
  case (1 i m)
  then show ?case by auto
next
  case (2 i w ws m)
  have old: "\<forall>(n, j) \<in> set m. j < Suc i \<and> Webhook_Name ((pre @ [w]) ! j) = n
      \<and> Service (ClientConfig ((pre @ [w]) ! j)) \<noteq> None"
    using "2.prems" by (auto simp: nth_append)
  show ?case
  proof (cases "Service (ClientConfig w) = None")
    case True
    with "2.IH"(1) [OF True old] "2.prems" show ?thesis by simp
  next
    case False
    have new: "\<forall>(n, j) \<in> set (AList.update (Webhook_Name w) i m). j < Suc i \<and> Webhook_Name ((pre @ [w]) ! j) = n
        \<and> Service (ClientConfig ((pre @ [w]) ! j)) \<noteq> None"
    proof clarify
      fix n j assume "(n, j) \<in> set (AList.update (Webhook_Name w) i m)"
      then consider "n = Webhook_Name w" "j = i" | "(n, j) \<in> set m"
        using AList_update_subset [of "Webhook_Name w" i m] by auto
      then show "j < Suc i \<and> Webhook_Name ((pre @ [w]) ! j) = n \<and> Service (ClientConfig ((pre @ [w]) ! j)) \<noteq> None"
      proof cases
        case 1
        with "2.prems"(2) False show ?thesis by (simp add: nth_append)
      qed (use old in auto)
    qed
    with "2.IH"(2) [OF False new] "2.prems" False show ?thesis by auto
  qed
qed

lemma client_config_loop_distinct:
  "distinct (map fst m) \<Longrightarrow> distinct (map fst (client_config_loop i ws m))"
  by (induction i ws m rule: client_config_loop.induct) (auto simp: distinct_update)

lemma client_config_loop_cong:
  "map (\<lambda>w. (Webhook_Name w, Service (ClientConfig w))) ws = map (\<lambda>w. (Webhook_Name w, Service (ClientConfig w))) ws' \<Longrightarrow>
   client_config_loop i ws m = client_config_loop i ws' m"
proof (induction i ws m arbitrary: ws' rule: client_config_loop.induct)
  case (2 i w ws m)
  then obtain w' ws'' where ws': "ws' = w' # ws''" by (cases ws') auto
  with "2.prems" have w: "Webhook_Name w' = Webhook_Name w" "Service (ClientConfig w') = Service (ClientConfig w)"
    "map (\<lambda>w. (Webhook_Name w, Service (ClientConfig w))) ws = map (\<lambda>w. (Webhook_Name w, Service (ClientConfig w))) ws''" by simp_all
  show ?case
    using "2.IH"(1) [OF _ w(3)] "2.IH"(2) [OF _ w(3)] w(1,2)
    by (cases "Service (ClientConfig w) = None") (simp_all add: ws' del: not_None_eq)
qed simp

lemma clientConfigMap_entry:
  "(n, i) \<in> set (clientConfigMap ob) \<Longrightarrow> i < length (object_webhooks ob)
     \<and> Webhook_Name (object_webhooks ob ! i) = n \<and> Service (ClientConfig (object_webhooks ob ! i)) \<noteq> None"
  using client_config_loop_entries [of "[]" 0 "[]" "object_webhooks ob"] by (auto simp: clientConfigMap_def)

lemma clientConfigMap_distinct: "distinct (map fst (clientConfigMap ob))"
  by (simp add: clientConfigMap_def client_config_loop_distinct)

lemma clientConfigMap_distinct_indexes: "distinct (map snd (clientConfigMap ob))"
proof -
  have d: "distinct (clientConfigMap ob)" using clientConfigMap_distinct by (simp add: distinct_map)
  moreover have "inj_on snd (set (clientConfigMap ob))"
    by (rule inj_onI) (metis clientConfigMap_entry prod.collapse)
  ultimately show ?thesis by (simp add: distinct_map)
qed

text \<open>The names that are mapped, and the last webhook of each name.\<close>

lemma client_config_loop_keys:
  "fst ` set (client_config_loop i ws m) = fst ` set m \<union> {Webhook_Name w |w. w \<in> set ws \<and> Service (ClientConfig w) \<noteq> None}"
  by (induction i ws m rule: client_config_loop.induct) (auto simp: dom_update)

section \<open>CA bundles of webhooks\<close>

text \<open>The client configuration after mapping from the chain.\<close>

definition apply_bundle :: "string \<Rightarrow> CertificateChainData \<Rightarrow> string \<Rightarrow> Webhook \<Rightarrow> Webhook" where
  "apply_bundle key d name w =
     (case Service (ClientConfig w) of
        None \<Rightarrow> w
      | Some svc \<Rightarrow>
          (case map_of (CertificatesIssued d) (serviceHostname (Service_Name svc) (Service_Namespace svc)) of
             None \<Rightarrow> w
           | Some ci \<Rightarrow>
               (case lookup_slice (caBundleName key name) (CACertPEM ci) of
                  None \<Rightarrow> w
                | Some b \<Rightarrow> w\<lparr>ClientConfig := (ClientConfig w)\<lparr>CABundle := Some b\<rparr>\<rparr>)))"

lemma apply_bundle_sel [simp]:
  "Webhook_Name (apply_bundle key d n w) = Webhook_Name w" "Service (ClientConfig (apply_bundle key d n w)) = Service (ClientConfig w)"
  by (auto simp: apply_bundle_def split: option.splits)

lemma object_webhooks_set_CABundle:
  "object_webhooks (set_CABundle i b ob) = (object_webhooks ob)
     [i := (object_webhooks ob ! i)\<lparr>ClientConfig := (ClientConfig (object_webhooks ob ! i))\<lparr>CABundle := b\<rparr>\<rparr>]"
  by (cases ob) simp_all

lemma webhook_from_chain_step:
  "webhook_from_chain_loop key ((name, i) # m) d ob = webhook_from_chain_loop key m d ob'
     \<and> object_webhooks ob' = (object_webhooks ob)[i := apply_bundle key d name (object_webhooks ob ! i)]
     \<and> object_kind' ob' = object_kind' ob"
  if "ob' = (case Service (ClientConfig (object_webhooks ob ! i)) of
        None \<Rightarrow> ob
      | Some svc \<Rightarrow>
          (case map_of (CertificatesIssued d) (serviceHostname (Service_Name svc) (Service_Namespace svc)) of
             None \<Rightarrow> ob
           | Some ci \<Rightarrow>
               (case lookup_slice (caBundleName key name) (CACertPEM ci) of
                  None \<Rightarrow> ob
                | Some b \<Rightarrow> set_CABundle i (Some b) ob)))"
    and "object_kind' = object_Meta"
  using that by (cases ob) (auto simp: apply_bundle_def split: option.splits)

lemma webhook_from_chain_nth:
  assumes "distinct (map snd m)" "\<forall>(n, i) \<in> set m. i < length (object_webhooks ob)"
  shows "length (object_webhooks (webhook_from_chain_loop key m d ob)) = length (object_webhooks ob)"
    "(n, i) \<in> set m \<Longrightarrow> object_webhooks (webhook_from_chain_loop key m d ob) ! i
       = apply_bundle key d n (object_webhooks ob ! i)"
    "i \<notin> snd ` set m \<Longrightarrow> object_webhooks (webhook_from_chain_loop key m d ob) ! i = object_webhooks ob ! i"
    "object_Meta (webhook_from_chain_loop key m d ob) = object_Meta ob"
proof -
  have "length (object_webhooks (webhook_from_chain_loop key m d ob)) = length (object_webhooks ob)
    \<and> (\<forall>n i. (n, i) \<in> set m \<longrightarrow> object_webhooks (webhook_from_chain_loop key m d ob) ! i
       = apply_bundle key d n (object_webhooks ob ! i))
    \<and> (\<forall>i. i \<notin> snd ` set m \<longrightarrow> object_webhooks (webhook_from_chain_loop key m d ob) ! i = object_webhooks ob ! i)
    \<and> object_Meta (webhook_from_chain_loop key m d ob) = object_Meta ob"
    using assms
  proof (induction m arbitrary: ob)
    case (Cons kv m)
    obtain name j where kv: "kv = (name, j)" by fastforce
    obtain ob' where st: "webhook_from_chain_loop key ((name, j) # m) d ob = webhook_from_chain_loop key m d ob'"
      and ob': "object_webhooks ob' = (object_webhooks ob)[j := apply_bundle key d name (object_webhooks ob ! j)]"
      "object_Meta ob' = object_Meta ob" using webhook_from_chain_step by blast
    have "distinct (map snd m)" "\<forall>(n, i) \<in> set m. i < length (object_webhooks ob')"
      using Cons.prems kv ob' by auto
    note IH = Cons.IH [OF this]
    have j: "j \<notin> snd ` set m" "j < length (object_webhooks ob)" using Cons.prems kv by auto
    then have "i \<noteq> j" if "(n, i) \<in> set m" for n i using that by force
    with IH j st ob' kv show ?case by (auto simp: nth_list_update)
  qed simp
  then show "length (object_webhooks (webhook_from_chain_loop key m d ob)) = length (object_webhooks ob)"
    "(n, i) \<in> set m \<Longrightarrow> object_webhooks (webhook_from_chain_loop key m d ob) ! i
       = apply_bundle key d n (object_webhooks ob ! i)"
    "i \<notin> snd ` set m \<Longrightarrow> object_webhooks (webhook_from_chain_loop key m d ob) ! i = object_webhooks ob ! i"
    "object_Meta (webhook_from_chain_loop key m d ob) = object_Meta ob"
    by auto
qed

lemma mapWebhookFromChain_nth:
  "length (object_webhooks (mapWebhookFromChain key d ob)) = length (object_webhooks ob)"
  "(n, i) \<in> set (clientConfigMap ob) \<Longrightarrow> object_webhooks (mapWebhookFromChain key d ob) ! i
     = apply_bundle (objectKey_String key) d n (object_webhooks ob ! i)"
  "i \<notin> snd ` set (clientConfigMap ob) \<Longrightarrow> object_webhooks (mapWebhookFromChain key d ob) ! i = object_webhooks ob ! i"
  "object_Meta (mapWebhookFromChain key d ob) = object_Meta ob"
proof -
  have "\<forall>(n, i) \<in> set (clientConfigMap ob). i < length (object_webhooks ob)" using clientConfigMap_entry by blast
  note nth = webhook_from_chain_nth [OF clientConfigMap_distinct_indexes this, folded mapWebhookFromChain_def]
  show "length (object_webhooks (mapWebhookFromChain key d ob)) = length (object_webhooks ob)"
    "(n, i) \<in> set (clientConfigMap ob) \<Longrightarrow> object_webhooks (mapWebhookFromChain key d ob) ! i
       = apply_bundle (objectKey_String key) d n (object_webhooks ob ! i)"
    "i \<notin> snd ` set (clientConfigMap ob) \<Longrightarrow> object_webhooks (mapWebhookFromChain key d ob) ! i = object_webhooks ob ! i"
    "object_Meta (mapWebhookFromChain key d ob) = object_Meta ob"
    unfolding mapWebhookFromChain_def by (simp_all add: nth)
qed

section \<open>Reading back CA bundles\<close>

definition bundle_at :: "CertificateChainData \<Rightarrow> string \<Rightarrow> string \<Rightarrow> slice option" where
  "bundle_at d host k = (case map_of (CertificatesIssued d) host of None \<Rightarrow> None | Some ci \<Rightarrow> map_of (CACertPEM ci) k)"

text \<open>One step of \<^verbatim>\<open>mapWebhookToChain\<close>, on the chain.\<close>

definition chain_with_bundle ::
  "string \<Rightarrow> string \<Rightarrow> WebhookClientConfig \<Rightarrow> ServiceReference \<Rightarrow> CertificateChainData \<Rightarrow> CertificateChainData" where
  "chain_with_bundle key name config svc d =
     (let sn = Service_Name svc; ns = Service_Namespace svc; host = serviceHostname sn ns;
          d1 = (if map_of (CertificatesIssued d) host = None
                then d\<lparr>CertificatesIssued := AList.update host (newCertificateIssue sn ns) (CertificatesIssued d)\<rparr>
                else d);
          ci = the (map_of (CertificatesIssued d1) host)
      in d1\<lparr>CertificatesIssued := AList.update host
           (ci\<lparr>CACertPEM := AList.update (caBundleName key name) (CABundle config) (CACertPEM ci)\<rparr>) (CertificatesIssued d1)\<rparr>)"

lemma webhook_to_chain_loop_step:
  assumes "Service (ClientConfig (ws ! i)) = Some svc"
  shows "webhook_to_chain_loop key ws ((name, i) # m) os d =
   webhook_to_chain_loop key ws m (add_object (newObjectKey ''Secret'' (Service_Namespace svc) (Service_Name svc)) os)
     (chain_with_bundle key name (ClientConfig (ws ! i)) svc d)"
  using assms by (simp add: chain_with_bundle_def Let_def)

lemma bundle_at_chain_with_bundle:
  "bundle_at (chain_with_bundle key name config svc d) h k =
     (if h = serviceHostname (Service_Name svc) (Service_Namespace svc) \<and> k = caBundleName key name
      then Some (CABundle config) else bundle_at d h k)"
  by (auto simp: chain_with_bundle_def Let_def bundle_at_def update_conv' newCertificateIssue_def split: option.splits)

lemma caBundleName_inject [simp]: "caBundleName key n = caBundleName key n' \<longleftrightarrow> n = n'"
  by (simp add: caBundleName_def)

lemma bundle_at_loop_other:
  "name \<notin> fst ` set m \<Longrightarrow> bundle_at (snd (webhook_to_chain_loop key ws m os d)) h (caBundleName key name)
     = bundle_at d h (caBundleName key name)"
proof (induction m arbitrary: os d)
  case (Cons kv m)
  obtain n i where kv: "kv = (n, i)" by fastforce
  show ?case
  proof (cases "Service (ClientConfig (ws ! i))")
    case None
    with Cons show ?thesis by (simp add: kv)
  next
    case (Some svc)
    with Cons show ?thesis by (simp add: kv webhook_to_chain_loop_step bundle_at_chain_with_bundle del: webhook_to_chain_loop.simps)
  qed
qed simp

lemma bundle_at_loop:
  "distinct (map fst m) \<Longrightarrow> (name, i) \<in> set m \<Longrightarrow> Service (ClientConfig (ws ! i)) = Some svc \<Longrightarrow>
   bundle_at (snd (webhook_to_chain_loop key ws m os d)) (serviceHostname (Service_Name svc) (Service_Namespace svc))
     (caBundleName key name) = Some (CABundle (ClientConfig (ws ! i)))"
proof (induction m arbitrary: os d)
  case (Cons kv m)
  obtain n j where kv: "kv = (n, j)" by fastforce
  show ?case
  proof (cases "kv = (name, i)")
    case True
    then have "name \<notin> fst ` set m" using Cons.prems(1) by simp
    from bundle_at_loop_other [OF this] True Cons.prems(3) show ?thesis
      by (simp add: webhook_to_chain_loop_step bundle_at_chain_with_bundle del: webhook_to_chain_loop.simps)
  next
    case False
    with Cons.prems kv have in_m: "(name, i) \<in> set m" "distinct (map fst m)" by auto
    show ?thesis
    proof (cases "Service (ClientConfig (ws ! j))")
      case None
      with Cons.IH in_m Cons.prems(3) show ?thesis by (simp add: kv)
    next
      case (Some svc')
      with Cons.IH in_m Cons.prems(3) show ?thesis
        by (simp add: kv webhook_to_chain_loop_step del: webhook_to_chain_loop.simps)
    qed
  qed
qed simp

lemma mapWebhookToChain_bundle:
  assumes "(name, i) \<in> set (clientConfigMap ob)" "Service (ClientConfig (object_webhooks ob ! i)) = Some svc"
  shows "bundle_at (snd (mapWebhookToChain p key ob os d))
    (serviceHostname (Service_Name svc) (Service_Namespace svc)) (caBundleName (objectKey_String key) name)
    = Some (CABundle (ClientConfig (object_webhooks ob ! i)))"
proof -
  have "clientConfigMap ob \<noteq> []" using assms(1) by auto
  then show ?thesis using bundle_at_loop [OF clientConfigMap_distinct assms]
    by (simp add: mapWebhookToChain_def Let_def)
qed

section \<open>Secrets\<close>

lemma secret_keys [simp]: "TLSCertKey \<noteq> TLSPrivateKeyKey" "TLSPrivateKeyKey \<noteq> TLSCertKey"
  "CACertKey \<noteq> CAPrivateKeyKey" "CAPrivateKeyKey \<noteq> CACertKey"
  by (simp_all add: TLSCertKey_def TLSPrivateKeyKey_def CACertKey_def CAPrivateKeyKey_def)

lemma lookup_slice_update [simp]: "lookup_slice k (AList.update k' v m) = (if k = k' then v else lookup_slice k m)"
  by (simp add: lookup_slice_def update_conv')

section \<open>Equality of objects\<close>

lemma gomap_equal_iff: "gomap_equal m m' \<longleftrightarrow> map_of m = map_of m'"
proof
  assume a: "gomap_equal m m'"
  show "map_of m = map_of m'"
  proof
    fix k
    show "map_of m k = map_of m' k"
    proof (cases "k \<in> fst ` set m")
      case True
      then obtain v where "(k, v) \<in> set m" by auto
      with a show ?thesis by (auto simp: gomap_equal_def list_all_iff)
    next
      case False
      with a have "k \<notin> fst ` set m'" by (simp add: gomap_equal_def)
      with False show ?thesis by (metis map_of_eq_None_iff)
    qed
  qed
next
  assume a: "map_of m = map_of m'"
  have "fst ` set m = dom (map_of m)" "fst ` set m' = dom (map_of m')" by (simp_all add: dom_map_of_conv_image_fst)
  with a show "gomap_equal m m'" by (simp add: gomap_equal_def list_all_iff)
qed

lemma DeepEqual_refl [simp]: "DeepEqual ob ob"
  by (cases ob) (auto simp: meta_equal_def data_equal_def gomap_equal_iff split: option.split)

lemma meta_equal_trans: "meta_equal a b \<Longrightarrow> meta_equal b c \<Longrightarrow> meta_equal a c"
  by (simp add: meta_equal_def gomap_equal_iff)

lemma meta_equal_sym: "meta_equal a b \<Longrightarrow> meta_equal b a"
  by (simp add: meta_equal_def gomap_equal_iff)

lemma data_equal_trans: "data_equal a b \<Longrightarrow> data_equal b c \<Longrightarrow> data_equal a c"
  by (auto simp: data_equal_def gomap_equal_iff split: option.splits)

lemma data_equal_sym: "data_equal a b \<Longrightarrow> data_equal b a"
  by (auto simp: data_equal_def gomap_equal_iff split: option.splits)

lemma DeepEqual_sym: "DeepEqual a b \<Longrightarrow> DeepEqual b a"
  by (cases a; cases b) (auto dest: meta_equal_sym data_equal_sym)

lemma DeepEqual_trans: "DeepEqual a b \<Longrightarrow> DeepEqual b c \<Longrightarrow> DeepEqual a c"
  by (cases a; cases b; cases c) (auto dest: meta_equal_trans data_equal_trans)

end
