(* ===== verification/Config_Reading.thy ===== *)
theory Config_Reading
  imports Cert_Manager Config_Mapping
begin

text \<open>
  What reading the cluster gives, whatever the order of the reads: chain data that is fit for an
  update, and no panic.
\<close>

section \<open>The ways a read ends\<close>

lemma readObjectToChain_cases:
  assumes "readObjectToChain m cl p st = (r, st')"
  obtains
    (skipped) "r = Ok ()" "st' = st"
  | (no_kind) ko where "map_of (entries (rs_objects st)) p = Some ko" "kobject ko = None"
      "objectOperatorsMap (Kind (obj_key ko)) = None" "is_Panic r" "st' = st"
  | (not_read) ko ops ob s1 where "map_of (entries (rs_objects st)) p = Some ko" "kobject ko = None"
      "objectOperatorsMap (Kind (obj_key ko)) = Some ops"
      "get cl (key_Name (obj_key ko)) (creator ops (Name (key_Name (obj_key ko))) (Namespace (key_Name (obj_key ko))))
         (rs_cluster st) = (r, ob, s1)" "r \<noteq> Ok ()"
      "st' = st\<lparr>rs_objects := set_kobject p ob (rs_objects st), rs_cluster := s1\<rparr>"
  | (mapped) ko ops g ob s1 v where "map_of (entries (rs_objects st)) p = Some ko" "kobject ko = None"
      "objectOperatorsMap (Kind (obj_key ko)) = Some ops"
      "get cl (key_Name (obj_key ko)) (creator ops (Name (key_Name (obj_key ko))) (Namespace (key_Name (obj_key ko))))
         (rs_cluster st) = (g, ob, s1)" "g = Ok () \<or> IsNotFound g \<and> \<not> verifying m"
      "toChainMapper ops p (obj_key ko) ob (set_kobject p ob (rs_objects st)) (rs_chain st) = v"
      "(case v of Ok (os', d') \<Rightarrow> r = Ok () \<and> st' = st\<lparr>rs_objects := os', rs_chain := d', rs_cluster := s1\<rparr>
        | Fail e \<Rightarrow> r = Fail e \<and> st' = st\<lparr>rs_objects := set_kobject p ob (rs_objects st), rs_cluster := s1\<rparr>
        | Panic x \<Rightarrow> r = Panic x \<and> st' = st\<lparr>rs_objects := set_kobject p ob (rs_objects st), rs_cluster := s1\<rparr>)"
proof (cases "map_of (entries (rs_objects st)) p")
  case None
  with assms skipped show ?thesis by (simp add: readObjectToChain_def)
next
  case ko: (Some ko)
  show ?thesis
  proof (cases "kobject ko = None")
    case False
    with ko assms skipped show ?thesis by (simp add: readObjectToChain_def)
  next
    case un: True
    show ?thesis
    proof (cases "objectOperatorsMap (Kind (obj_key ko))")
      case None
      with ko un assms have "is_Panic r" "st' = st" by (auto simp: readObjectToChain_def)
      then show ?thesis by (rule no_kind [OF ko un None])
    next
      case ops: (Some ops)
      obtain g ob s1 where g: "get cl (key_Name (obj_key ko))
          (creator ops (Name (key_Name (obj_key ko))) (Namespace (key_Name (obj_key ko)))) (rs_cluster st) = (g, ob, s1)"
        by (metis prod_cases3)
      show ?thesis
      proof (cases "g \<noteq> Ok () \<and> (\<not> IsNotFound g \<or> verifying m)")
        case True
        then have "r = g" "st' = st\<lparr>rs_objects := set_kobject p ob (rs_objects st), rs_cluster := s1\<rparr>"
          using ko un ops g assms by (simp_all add: readObjectToChain_def Let_def)
        with not_read [OF ko un ops] g True show ?thesis by simp
      next
        case False
        let ?v = "toChainMapper ops p (obj_key ko) ob (set_kobject p ob (rs_objects st)) (rs_chain st)"
        let ?st1 = "st\<lparr>rs_objects := set_kobject p ob (rs_objects st), rs_cluster := s1\<rparr>"
        have eq: "(case ?v of Panic s \<Rightarrow> (Panic s, ?st1) | Fail e \<Rightarrow> (Fail e, ?st1)
            | Ok (os', d') \<Rightarrow> (Ok (), ?st1\<lparr>rs_objects := os', rs_chain := d'\<rparr>)) = (r, st')"
          unfolding assms [symmetric]
          by (simp only: readObjectToChain_def Let_def ko un ops g option.case prod.case
              not_True_eq_False if_False if_not_P [OF False]) simp
        show ?thesis
        proof (rule mapped [OF ko un ops g _ refl])
          show "g = Ok () \<or> IsNotFound g \<and> \<not> verifying m" using False by blast
          show "(case ?v of Ok (os', d') \<Rightarrow> r = Ok () \<and> st' = st\<lparr>rs_objects := os', rs_chain := d', rs_cluster := s1\<rparr>
            | Fail e \<Rightarrow> r = Fail e \<and> st' = st\<lparr>rs_objects := set_kobject p ob (rs_objects st), rs_cluster := s1\<rparr>
            | Panic x \<Rightarrow> r = Panic x \<and> st' = st\<lparr>rs_objects := set_kobject p ob (rs_objects st), rs_cluster := s1\<rparr>)"
            using eq by (cases ?v) (auto split: prod.splits)
        qed
      qed
    qed
  qed
qed

section \<open>The executable loop is one of the runs\<close>

lemma readObjectsToChain_run:
  "readObjectsToChain m cl pick st = (r, st') \<Longrightarrow> read_run m cl st r st'"
proof (induction m cl pick st arbitrary: r st' rule: readObjectsToChain.induct)
  case (1 m cl pick st)
  show ?case
  proof (cases "unread (rs_objects st) = []")
    case True
    with "1.prems" show ?thesis by (subst (asm) readObjectsToChain.simps) (auto intro: all_read)
  next
    case False
    let ?p = "choose_next pick (unread (rs_objects st))"
    obtain r1 st1 where one: "readObjectToChain m cl ?p st = (r1, st1)" by fastforce
    have p: "?p \<in> set (unread (rs_objects st))" using choose_next_in [OF False] .
    show ?thesis
    proof (cases r1)
      case (Ok u)
      with False one "1.prems" have "readObjectsToChain m cl pick st1 = (r, st')"
        by (subst (asm) readObjectsToChain.simps) simp
      with "1.IH" [OF False one [symmetric] Ok] have "read_run m cl st1 r st'" by simp
      with p one Ok show ?thesis by (auto intro: read_one)
    next
      case (Fail e)
      with False one "1.prems" have "r = r1" "st' = st1" by (subst (asm) readObjectsToChain.simps, simp)+
      with p one Fail show ?thesis by (auto intro: read_fails)
    next
      case (Panic x)
      with False one "1.prems" have "r = r1" "st' = st1" by (subst (asm) readObjectsToChain.simps, simp)+
      with p one Panic show ?thesis by (auto intro: read_fails)
    qed
  qed
qed

section \<open>The shape of the data that is read\<close>

text \<open>An issued certificate for a service.\<close>

definition issue_for :: "string \<Rightarrow> string \<Rightarrow> CertificateIssue \<Rightarrow> bool" where
  "issue_for sn ns ci \<longleftrightarrow> Issue_Name ci = serviceHostname sn ns \<and> IPs ci = []
     \<and> Hostnames ci = [sn, namespacedHostname sn ns, serviceHostname sn ns, serviceFqdn sn ns]
     \<and> distinct (map fst (CACertPEM ci))"

definition well_read :: "CertificateChainData \<Rightarrow> bool" where
  "well_read d \<longleftrightarrow> distinct (map fst (CertificatesIssued d))
     \<and> (\<forall>(n, ci) \<in> set (CertificatesIssued d). \<exists>sn ns. n = serviceHostname sn ns \<and> issue_for sn ns ci)"

lemma issue_for_new: "issue_for sn ns (newCertificateIssue sn ns)"
  by (simp add: issue_for_def newCertificateIssue_def Let_def)

lemma well_read_update:
  assumes "well_read d" "n = serviceHostname sn ns" "issue_for sn ns ci"
  shows "well_read (d\<lparr>CertificatesIssued := AList.update n ci (CertificatesIssued d)\<rparr>)"
  using assms AList_update_subset [of n ci "CertificatesIssued d"]
  by (fastforce simp: well_read_def distinct_update)

lemma well_read_lookup:
  assumes "well_read d" "map_of (CertificatesIssued d) n = Some ci"
  obtains sn ns where "n = serviceHostname sn ns" "issue_for sn ns ci"
  using assms by (auto simp: well_read_def dest!: map_of_SomeD)

lemma chain_with_bundle_well_read:
  assumes "well_read d"
  shows "well_read (chain_with_bundle key name config svc d)"
proof -
  let ?sn = "Service_Name svc" and ?ns = "Service_Namespace svc"
  let ?h = "serviceHostname ?sn ?ns"
  define d1 where "d1 = (if map_of (CertificatesIssued d) ?h = None
     then d\<lparr>CertificatesIssued := AList.update ?h (newCertificateIssue ?sn ?ns) (CertificatesIssued d)\<rparr> else d)"
  have d1: "well_read d1" unfolding d1_def using assms issue_for_new by (simp add: well_read_update)
  obtain ci where ci: "map_of (CertificatesIssued d1) ?h = Some ci"
    unfolding d1_def by (cases "map_of (CertificatesIssued d) ?h") (auto simp: update_conv')
  obtain sn ns where "?h = serviceHostname sn ns" "issue_for sn ns ci" using well_read_lookup [OF d1 ci] .
  then have "well_read (d1\<lparr>CertificatesIssued := AList.update ?h
      (ci\<lparr>CACertPEM := AList.update (caBundleName key name) (CABundle config) (CACertPEM ci)\<rparr>) (CertificatesIssued d1)\<rparr>)"
    using d1 by (intro well_read_update) (auto simp: issue_for_def distinct_update)
  with ci show ?thesis by (simp add: chain_with_bundle_def Let_def flip: d1_def)
qed

lemma webhook_to_chain_loop_well_read:
  "well_read d \<Longrightarrow> well_read (snd (webhook_to_chain_loop key ws m os d))"
proof (induction m arbitrary: os d)
  case (Cons kv m)
  obtain name i where kv: "kv = (name, i)" by fastforce
  show ?case
  proof (cases "Service (ClientConfig (ws ! i))")
    case None
    with Cons show ?thesis by (simp add: kv)
  next
    case (Some svc)
    with Cons chain_with_bundle_well_read show ?thesis
      by (simp add: kv webhook_to_chain_loop_step del: webhook_to_chain_loop.simps)
  qed
qed simp

lemma mapWebhookToChain_well_read: "well_read d \<Longrightarrow> well_read (snd (mapWebhookToChain p key ob os d))"
  by (simp add: mapWebhookToChain_def Let_def webhook_to_chain_loop_well_read)

lemma mapSecretToChain_well_read:
  assumes "mapSecretToChain key ob d = Ok d'" "well_read d"
  shows "well_read d'"
proof (cases "NamespacedName_String (key_Name key) = CA_Name (Chain_CA d)")
  case True
  with assms show ?thesis
    by (auto simp: mapSecretToChain_def mapCASecretToChain_def Let_def well_read_def split: Object.splits if_splits)
next
  case False
  show ?thesis
  proof (cases "d' = d")
    case False
    with \<open>NamespacedName_String (key_Name key) \<noteq> _\<close> assms(1) obtain k c ci n where
      n: "map_of (CertificatesIssued d) n = Some ci"
      and d': "d' = d\<lparr>CertificatesIssued := AList.update n (ci\<lparr>KeyPEM := k, CertPEM := c\<rparr>) (CertificatesIssued d)\<rparr>"
      by (auto simp: mapSecretToChain_def mapServiceSecretToChain_def Let_def split: Object.splits if_splits option.splits)
    obtain sn ns where "n = serviceHostname sn ns" "issue_for sn ns ci" using well_read_lookup [OF assms(2) n] .
    then show ?thesis unfolding d' using assms(2) by (intro well_read_update) (auto simp: issue_for_def)
  qed (use assms in simp)
qed

lemma readObjectToChain_well_read:
  assumes "readObjectToChain m cl p st = (r, st')" "well_read (rs_chain st)"
  shows "well_read (rs_chain st')"
  using assms(1)
proof (cases rule: readObjectToChain_cases)
  case (mapped ko ops g ob s1 v)
  show ?thesis
    using mapped(3)
  proof (cases rule: operators_kinds)
    case webhook
    obtain os' d' where w: "mapWebhookToChain p (obj_key ko) ob (set_kobject p ob (rs_objects st)) (rs_chain st) = (os', d')"
      by fastforce
    with mapped(6,7) webhook have "rs_chain st' = d'" by auto
    with mapWebhookToChain_well_read [OF assms(2)] w show ?thesis by (metis snd_conv)
  next
    case secret
    show ?thesis
    proof (cases "mapSecretToChain (obj_key ko) ob (rs_chain st)")
      case (Ok d')
      with mapped(6,7) secret have "rs_chain st' = d'" by auto
      with mapSecretToChain_well_read [OF Ok assms(2)] show ?thesis by simp
    qed (use mapped(6,7) secret assms(2) in auto)
  qed
qed (use assms(2) in simp_all)

lemma read_run_well_read: "read_run m cl st r st' \<Longrightarrow> well_read (rs_chain st) \<Longrightarrow> well_read (rs_chain st')"
  by (induction rule: read_run.induct) (auto dest: readObjectToChain_well_read)

section \<open>Reading does not panic\<close>

text \<open>A client returns objects of the kind it is asked for.\<close>

locale kube_api =
  fixes cl :: "'s kube_client"
  assumes get_kind: "client_Get cl k n s = (Inr ob, s') \<Longrightarrow> object_kind ob = k"

definition known_kind :: "objectKind \<Rightarrow> bool" where
  "known_kind k = (k \<in> {mutatingWebhookType, validatingWebhookType, secretType})"

text \<open>What is yet to be read is of a known kind, and a secret that is not the CA's belongs to a
  service with an issued certificate.\<close>

definition readable_key :: "CertificateChainData \<Rightarrow> objectKey \<Rightarrow> bool" where
  "readable_key d key \<longleftrightarrow> known_kind (Kind key)
     \<and> (Kind key = secretType \<and> NamespacedName_String (key_Name key) \<noteq> CA_Name (Chain_CA d) \<longrightarrow>
        map_of (CertificatesIssued d) (serviceHostname (Name (key_Name key)) (Namespace (key_Name key))) \<noteq> None)"

definition readable :: "objectMap \<Rightarrow> CertificateChainData \<Rightarrow> bool" where
  "readable os d \<longleftrightarrow> (\<forall>p ko. map_of (entries os) p = Some ko \<longrightarrow> kobject ko = None \<longrightarrow> readable_key d (obj_key ko))"

text \<open>Chain data with at least the same issued certificates and the same CA name.\<close>

definition extends :: "CertificateChainData \<Rightarrow> CertificateChainData \<Rightarrow> bool" where
  "extends d d' \<longleftrightarrow> CA_Name (Chain_CA d') = CA_Name (Chain_CA d)
     \<and> (\<forall>n. map_of (CertificatesIssued d) n \<noteq> None \<longrightarrow> map_of (CertificatesIssued d') n \<noteq> None)"

lemma extends_refl [simp, intro]: "extends d d"
  by (simp add: extends_def)

lemma extends_trans: "extends d d1 \<Longrightarrow> extends d1 d2 \<Longrightarrow> extends d d2"
  by (simp add: extends_def)

lemma extends_update: "extends d (d\<lparr>CertificatesIssued := AList.update n ci (CertificatesIssued d)\<rparr>)"
  by (auto simp: extends_def update_conv')

lemma readable_key_extends: "readable_key d key \<Longrightarrow> extends d d' \<Longrightarrow> readable_key d' key"
  by (simp add: readable_key_def extends_def)

lemma readable_extends: "readable os d \<Longrightarrow> extends d d' \<Longrightarrow> readable os d'"
  unfolding readable_def using readable_key_extends by blast

lemma readable_set_kobject: "readable os d \<Longrightarrow> readable (set_kobject p ob os) d"
  by (auto simp: readable_def map_of_set_kobject split: if_splits)

lemma readable_delete: "readable os d \<Longrightarrow> readable (delete_object p os) d"
  by (auto simp: readable_def map_of_delete_object split: if_splits)

lemma readable_add: "readable os d \<Longrightarrow> readable_key d key \<Longrightarrow> readable (add_object key os) d"
  by (auto simp: readable_def map_of_add_object split: if_splits)

lemma readable_add_secret:
  assumes "readable os d" "map_of (CertificatesIssued d) (serviceHostname sn ns) \<noteq> None"
  shows "readable (add_object (newObjectKey secretType ns sn) os) d"
  using assms(1) by (rule readable_add) (use assms(2) in \<open>simp add: readable_key_def newObjectKey_def known_kind_def\<close>)

lemma chain_with_bundle_extends:
  "extends d (chain_with_bundle key name config svc d)"
  "map_of (CertificatesIssued (chain_with_bundle key name config svc d))
     (serviceHostname (Service_Name svc) (Service_Namespace svc)) \<noteq> None"
  by (auto simp: chain_with_bundle_def Let_def extends_def update_conv')

lemma webhook_to_chain_loop_readable:
  "readable os d \<Longrightarrow> webhook_to_chain_loop key ws m os d = (os', d') \<Longrightarrow> readable os' d' \<and> extends d d'"
proof (induction m arbitrary: os d)
  case (Cons kv m)
  obtain name i where kv: "kv = (name, i)" by fastforce
  show ?case
  proof (cases "Service (ClientConfig (ws ! i))")
    case None
    with Cons show ?thesis by (simp add: kv)
  next
    case (Some svc)
    let ?d = "chain_with_bundle key name (ClientConfig (ws ! i)) svc d"
    have "readable (add_object (newObjectKey secretType (Service_Namespace svc) (Service_Name svc)) os) ?d"
      using readable_extends [OF Cons.prems(1) chain_with_bundle_extends(1)] chain_with_bundle_extends(2)
      by (intro readable_add_secret)
    moreover have "webhook_to_chain_loop key ws m
        (add_object (newObjectKey secretType (Service_Namespace svc) (Service_Name svc)) os) ?d = (os', d')"
      using Cons.prems(2) Some by (simp add: kv webhook_to_chain_loop_step secretType_def del: webhook_to_chain_loop.simps)
    ultimately have "readable os' d' \<and> extends ?d d'" by (rule Cons.IH)
    with chain_with_bundle_extends(1) [of d] extends_trans [of d ?d d'] show ?thesis by simp
  qed
qed simp

lemma mapSecretToChain_extends: "mapSecretToChain key ob d = Ok d' \<Longrightarrow> extends d d'"
  by (auto simp: mapSecretToChain_def mapCASecretToChain_def mapServiceSecretToChain_def Let_def extends_def update_conv'
      split: Object.splits if_splits option.splits)

lemma readObjectToChain_readable:
  assumes "readObjectToChain m cl p st = (Ok (), st')" "readable (rs_objects st) (rs_chain st)"
  shows "readable (rs_objects st') (rs_chain st')"
  using assms(1)
proof (cases rule: readObjectToChain_cases)
  case (mapped ko ops g ob s1 v)
  let ?os = "set_kobject p ob (rs_objects st)"
  have os: "readable ?os (rs_chain st)" using assms(2) by (rule readable_set_kobject)
  show ?thesis
    using mapped(3)
  proof (cases rule: operators_kinds)
    case webhook
    obtain os' d' where w: "mapWebhookToChain p (obj_key ko) ob ?os (rs_chain st) = (os', d')" by fastforce
    then have "readable os' d'"
      using os webhook_to_chain_loop_readable [OF os] readable_delete
      by (auto simp: mapWebhookToChain_def Let_def split: if_splits)
    with mapped(6,7) webhook w show ?thesis by auto
  next
    case secret
    show ?thesis
    proof (cases "mapSecretToChain (obj_key ko) ob (rs_chain st)")
      case (Ok d')
      with mapped(6,7) secret have "rs_chain st' = d'" "rs_objects st' = ?os" by auto
      with readable_extends [OF os mapSecretToChain_extends [OF Ok]] show ?thesis by simp
    qed (use mapped(6,7) secret in auto)
  qed
qed (use assms(2) in auto)

lemma webhook_to_chain_loop_extends: "extends d (snd (webhook_to_chain_loop key ws m os d))"
proof (induction m arbitrary: os d)
  case (Cons kv m)
  obtain name i where kv: "kv = (name, i)" by fastforce
  show ?case
  proof (cases "Service (ClientConfig (ws ! i))")
    case None
    with Cons show ?thesis by (simp add: kv)
  next
    case (Some svc)
    with extends_trans [OF chain_with_bundle_extends(1) Cons.IH] show ?thesis
      by (simp add: kv webhook_to_chain_loop_step del: webhook_to_chain_loop.simps)
  qed
qed simp

lemma readObjectToChain_extends:
  assumes "readObjectToChain m cl p st = (r, st')"
  shows "extends (rs_chain st) (rs_chain st')"
  using assms
proof (cases rule: readObjectToChain_cases)
  case (mapped ko ops g ob s1 v)
  show ?thesis
    using mapped(3)
  proof (cases rule: operators_kinds)
    case webhook
    obtain os' d' where w: "mapWebhookToChain p (obj_key ko) ob (set_kobject p ob (rs_objects st)) (rs_chain st) = (os', d')"
      by fastforce
    then have "d' = snd (mapWebhookToChain p (obj_key ko) ob (set_kobject p ob (rs_objects st)) (rs_chain st))" by simp
    then have "extends (rs_chain st) d'" using webhook_to_chain_loop_extends by (simp add: mapWebhookToChain_def Let_def)
    with mapped(6,7) webhook w show ?thesis by auto
  next
    case secret
    show ?thesis
    proof (cases "mapSecretToChain (obj_key ko) ob (rs_chain st)")
      case (Ok d')
      with mapped(6,7) secret mapSecretToChain_extends show ?thesis by auto
    qed (use mapped(6,7) secret in auto)
  qed
qed simp_all

lemma read_run_extends: "read_run m cl st r st' \<Longrightarrow> extends (rs_chain st) (rs_chain st')"
proof (induction rule: read_run.induct)
  case (read_one p st st1 r st2)
  then show ?case using extends_trans [OF readObjectToChain_extends] by blast
qed (auto dest: readObjectToChain_extends)

lemma known_kind_operators: "known_kind k \<Longrightarrow> objectOperatorsMap k \<noteq> None"
  by (auto simp: known_kind_def objectOperatorsMap_def)

lemma creator_kind: "objectOperatorsMap k = Some ops \<Longrightarrow> object_kind (creator ops n ns) = k"
  by (auto simp: objectOperatorsMap_def webhook_operators_def initMutatingWebhook_def initValidatingWebhook_def
      initSecret_def split: if_splits)

lemma object_kind_secret: "object_kind ob = secretType \<Longrightarrow> \<exists>s. ob = SecretObject s"
  by (cases ob) (auto simp: secretType_def mutatingWebhookType_def validatingWebhookType_def
      MutatingWebhook_def ValidatingWebhook_def)

lemma mapSecretToChain_no_panic:
  assumes "object_kind ob = secretType"
    and "NamespacedName_String (key_Name key) \<noteq> CA_Name (Chain_CA d) \<Longrightarrow>
      map_of (CertificatesIssued d) (serviceHostname (Name (key_Name key)) (Namespace (key_Name key))) \<noteq> None"
  shows "\<exists>d'. mapSecretToChain key ob d = Ok d'"
  using assms object_kind_secret [OF assms(1)]
  by (auto simp: mapSecretToChain_def mapCASecretToChain_def mapServiceSecretToChain_def Let_def)

context kube_api
begin

lemma get_attempt_kind:
  "get_attempt cl name (ob, s) = (r, ob', s') \<Longrightarrow> object_kind ob' = object_kind ob \<and> \<not> is_Panic r"
  by (auto simp: get_attempt_def dest: get_kind split: prod.splits sum.splits if_splits)

lemma get_kind_kept: "get cl name ob s = (r, ob', s') \<Longrightarrow> object_kind ob' = object_kind ob \<and> \<not> is_Panic r"
proof -
  assume g: "get cl name ob s = (r, ob', s')"
  have "object_kind (fst (ob', s')) = object_kind ob \<and> \<not> is_Panic r"
    by (rule PollImmediate_rule [OF g [unfolded get_def], where I = "\<lambda>st. object_kind (fst st) = object_kind ob"])
      (auto dest!: get_attempt_kind split: result.split)
  then show ?thesis by simp
qed

lemma readObjectToChain_no_panic:
  assumes "readObjectToChain m cl p st = (r, st')" "readable (rs_objects st) (rs_chain st)"
  shows "\<not> is_Panic r"
  using assms(1)
proof (cases rule: readObjectToChain_cases)
  case (no_kind ko)
  then have "readable_key (rs_chain st) (obj_key ko)" using assms(2) by (simp add: readable_def)
  then have "known_kind (Kind (obj_key ko))" by (simp add: readable_key_def)
  from known_kind_operators [OF this] no_kind(3) show ?thesis by simp
next
  case (not_read ko ops ob s1)
  then show ?thesis using get_kind_kept by blast
next
  case (mapped ko ops g ob s1 v)
  show ?thesis
    using mapped(3)
  proof (cases rule: operators_kinds)
    case webhook
    with mapped(6,7) show ?thesis by (cases v) (auto simp: case_prod_unfold)
  next
    case secret
    have "object_kind ob = secretType"
      using get_kind_kept [OF mapped(4)] creator_kind [OF mapped(3)] secret(1) by simp
    moreover have "readable_key (rs_chain st) (obj_key ko)" using assms(2) mapped(1,2) by (simp add: readable_def)
    ultimately obtain d' where "mapSecretToChain (obj_key ko) ob (rs_chain st) = Ok d'"
      using mapSecretToChain_no_panic [of ob "obj_key ko" "rs_chain st"] secret(1) by (auto simp: readable_key_def)
    with mapped(6,7) secret show ?thesis by auto
  qed
qed simp

lemma read_run_no_panic:
  "read_run m cl st r st' \<Longrightarrow> readable (rs_objects st) (rs_chain st) \<Longrightarrow> \<not> is_Panic r"
  by (induction rule: read_run.induct)
    (auto dest: readObjectToChain_readable readObjectToChain_no_panic)

end

section \<open>The state a read starts from\<close>

definition typed_references :: "Manager \<Rightarrow> bool" where
  "typed_references m = (\<forall>w \<in> set (webhooks m). Ref_Type w \<in> {MutatingWebhook, ValidatingWebhook})"

definition named_chain :: "Manager \<Rightarrow> CertificateChainData" where
  "named_chain m = empty_chain\<lparr>Chain_CA := (Chain_CA empty_chain)\<lparr>CA_Name := NamespacedName_String (secretCAName m)\<rparr>\<rparr>"

definition start_state :: "Manager \<Rightarrow> 's \<Rightarrow> 's read_state" where
  "start_state m s = \<lparr>rs_objects = initObjects m empty_objectMap, rs_chain = named_chain m, rs_cluster = s\<rparr>"

lemma readCertificateChain_start:
  "readCertificateChain m cl pick (initial_read s) = readObjectsToChain m cl pick (start_state m s)"
  by (simp add: readCertificateChain_def initial_read_def start_state_def named_chain_def Let_def)

lemma well_read_start: "well_read (rs_chain (start_state m s))"
  by (simp add: well_read_def start_state_def named_chain_def empty_chain_def)

lemma secretType_no_webhook: "MutatingWebhook \<noteq> secretType" "ValidatingWebhook \<noteq> secretType"
  by (simp_all add: secretType_def MutatingWebhook_def ValidatingWebhook_def)

lemma readable_init_webhooks:
  "\<forall>w \<in> set ws. Ref_Type w \<in> {MutatingWebhook, ValidatingWebhook} \<Longrightarrow> readable os d \<Longrightarrow> readable (init_webhooks ws os) d"
proof (induction ws arbitrary: os)
  case (Cons w ws)
  have "readable_key d (newObjectKey (Ref_Type w) [] (Ref_Name w))"
    using Cons.prems(1) secretType_no_webhook
    by (auto simp: readable_key_def newObjectKey_def known_kind_def mutatingWebhookType_def validatingWebhookType_def)
  with Cons.prems(2) have "readable (add_object (newObjectKey (Ref_Type w) [] (Ref_Name w)) os) d" by (rule readable_add)
  with Cons show ?case by simp
qed simp

lemma readable_start: "typed_references m \<Longrightarrow> readable (rs_objects (start_state m s)) (rs_chain (start_state m s))"
proof -
  assume t: "typed_references m"
  have "readable empty_objectMap (named_chain m)" by (simp add: readable_def empty_objectMap_def)
  with t have "readable (init_webhooks (webhooks m) empty_objectMap) (named_chain m)"
    unfolding typed_references_def by (intro readable_init_webhooks) auto
  moreover have "readable_key (named_chain m) (newObjectKey secretType (Namespace (secretCAName m)) (Name (secretCAName m)))"
    by (simp add: readable_key_def newObjectKey_def known_kind_def named_chain_def NamespacedName_String_def)
  ultimately show ?thesis by (simp add: start_state_def initObjects_def Let_def readable_add)
qed

end
