(* ===== verification/Config_Writing.thy ===== *)
theory Config_Writing
  imports Config_Reading Config_Mapping
begin

text \<open>
  Writing the chain back to the cluster. An object that changed since it was read is never
  overwritten, and nothing is written where nothing changed. In a cluster that nobody else
  changes, a written object is read back as it was written; this is the contract
  \<open>kube_store\<close>, extended to \<open>kube_cluster\<close>, with an association list of objects as its implementation.
\<close>

section \<open>The ways a write ends\<close>

lemma writeObjectFromChain_cases:
  assumes "writeObjectFromChain cl d p os s = (r, os', s')"
    and "map_of (entries os) p = Some ko" "kobject ko = Some old"
    and g: "get cl (key_Name (obj_key ko)) old s = (g, current, s1)"
  obtains
    (not_read) "g \<noteq> Ok ()" "\<not> IsNotFound g" "r = g" "s' = s1"
  | (not_mapped) "\<not> is_Ok r" "s' = s1" "objectOperatorsMap (Kind (obj_key ko)) = None
      \<or> (\<exists>ops. objectOperatorsMap (Kind (obj_key ko)) = Some ops \<and> \<not> is_Ok (fromChainMapper ops (obj_key ko) d current))"
  | (noop) ops ob where "g = Ok () \<or> IsNotFound g" "objectOperatorsMap (Kind (obj_key ko)) = Some ops"
      "fromChainMapper ops (obj_key ko) d current = Ok ob" "DeepEqual old ob" "r = Ok ()" "s' = s1"
      "os' = set_kobject p ob os"
  | (changed) ops ob where "g = Ok () \<or> IsNotFound g" "objectOperatorsMap (Kind (obj_key ko)) = Some ops"
      "fromChainMapper ops (obj_key ko) d current = Ok ob" "\<not> DeepEqual old ob" "\<not> DeepEqual old current"
      "r = Fail (Errorf (''An object changed since originally read: '' @ objectKey_String (obj_key ko)))" "s' = s1"
  | (written) ops ob er where "g = Ok () \<or> IsNotFound g" "objectOperatorsMap (Kind (obj_key ko)) = Some ops"
      "fromChainMapper ops (obj_key ko) d current = Ok ob" "\<not> DeepEqual old ob" "DeepEqual old current"
      "(if IsNotFound g then client_Create cl ob s1 else client_Update cl ob s1) = (er, s')"
      "r = (case er of None \<Rightarrow> Ok () | Some e \<Rightarrow> Fail e)" "os' = set_kobject p ob os"
proof (cases "g \<noteq> Ok () \<and> \<not> IsNotFound g")
  case True
  have "(r, os', s') = (g, set_kobject p current os, s1)"
    unfolding assms(1) [symmetric]
    by (simp only: writeObjectFromChain_def assms(2,3) g option.case prod.case Let_def if_P [OF True])
  with True not_read show ?thesis by blast
next
  case g_ok: False
  show ?thesis
  proof (cases "objectOperatorsMap (Kind (obj_key ko))")
    case None
    have "(r, os', s') = (Panic ''nil function: fromChainMapper'', set_kobject p current os, s1)"
      unfolding assms(1) [symmetric]
      by (simp only: writeObjectFromChain_def assms(2,3) g option.case prod.case Let_def if_not_P [OF g_ok] None)
    with None not_mapped show ?thesis by simp
  next
    case ops: (Some ops)
    have eq: "(r, os', s') = (case fromChainMapper ops (obj_key ko) d current of
        Panic m \<Rightarrow> (Panic m, set_kobject p current os, s1)
      | Fail e \<Rightarrow> (Fail e, set_kobject p current os, s1)
      | Ok ob \<Rightarrow>
          (if DeepEqual old ob then (Ok (), set_kobject p ob os, s1)
           else if \<not> DeepEqual old current
             then (Fail (Errorf (''An object changed since originally read: ''
               @ objectKey_String (obj_key ko))), set_kobject p ob os, s1)
           else case (if IsNotFound g then client_Create cl ob s1 else client_Update cl ob s1) of
             (None, s2) \<Rightarrow> (Ok (), set_kobject p ob os, s2)
           | (Some e, s2) \<Rightarrow> (Fail e, set_kobject p ob os, s2)))"
      unfolding assms(1) [symmetric]
      by (simp only: writeObjectFromChain_def assms(2,3) g option.case prod.case Let_def if_not_P [OF g_ok] ops)
    have gg: "g = Ok () \<or> IsNotFound g" using g_ok by blast
    show ?thesis
    proof (cases "fromChainMapper ops (obj_key ko) d current")
      case (Ok ob)
      obtain er s2 where w: "(if IsNotFound g then client_Create cl ob s1 else client_Update cl ob s1) = (er, s2)"
        by fastforce
      consider "DeepEqual old ob" | "\<not> DeepEqual old ob" "\<not> DeepEqual old current"
        | "\<not> DeepEqual old ob" "DeepEqual old current" by blast
      then show ?thesis
      proof cases
        case 1
        with eq Ok noop [OF gg ops Ok 1] show ?thesis by simp
      next
        case 2
        with eq Ok changed [OF gg ops Ok 2] show ?thesis by simp
      next
        case 3
        then have "(r, os', s') = (case er of None \<Rightarrow> (Ok (), set_kobject p ob os, s2) | Some e \<Rightarrow> (Fail e, set_kobject p ob os, s2))"
          using eq Ok w by simp
        then show ?thesis using written [OF gg ops Ok 3, of er] w by (cases er) simp_all
      qed
    qed (use eq ops not_mapped in auto)
  qed
qed

section \<open>A cluster that nobody else changes\<close>

definition object_name :: "Object \<Rightarrow> NamespacedName" where
  "object_name ob = \<lparr>Namespace = Meta_Namespace (object_Meta ob), Name = Meta_Name (object_Meta ob)\<rparr>"

text \<open>The object as the server stores it: it sets members that the program does not look at.\<close>

fun with_rest :: "string \<Rightarrow> Object \<Rightarrow> Object" where
  "with_rest r (MutatingConfiguration w) = MutatingConfiguration (w\<lparr>wc_Meta := (wc_Meta w)\<lparr>meta_rest := r\<rparr>\<rparr>)"
| "with_rest r (ValidatingConfiguration w) = ValidatingConfiguration (w\<lparr>wc_Meta := (wc_Meta w)\<lparr>meta_rest := r\<rparr>\<rparr>)"
| "with_rest r (SecretObject s) = SecretObject (s\<lparr>secret_Meta := (secret_Meta s)\<lparr>meta_rest := r\<rparr>\<rparr>)"

lemma with_rest_sel [simp]:
  "object_kind (with_rest r ob) = object_kind ob" "object_name (with_rest r ob) = object_name ob"
  "object_webhooks (with_rest r ob) = object_webhooks ob"
  by (cases ob; simp add: object_name_def)+

text \<open>What the objects of the cluster are, and what the three operations of the client do with
  them: a successful \<^verbatim>\<open>Get\<close> returns the object,
  \<^verbatim>\<open>NotFound\<close> means that there is none, and only a successful \<^verbatim>\<open>Create\<close> or \<^verbatim>\<open>Update\<close> changes an
  object, the one it is given. The contract is that of a client whose reads see earlier writes, not
  of one with a cache that lags behind; and of a server that has no defaults to fill in, since
  webhook configurations were defaulted before they were read and secrets are written with their
  type.\<close>

locale kube_store = kube_api cl for cl :: "'s kube_client" +
  fixes view :: "'s \<Rightarrow> objectKind \<Rightarrow> NamespacedName \<Rightarrow> Object option"
  assumes get_view: "client_Get cl k n s = (Inr ob, s') \<Longrightarrow> view s k n = Some ob \<and> view s' = view s"
    and get_error: "client_Get cl k n s = (Inl e, s') \<Longrightarrow>
      view s' = view s \<and> ((\<exists>x. e = NotFound x) \<longrightarrow> view s k n = None)"
    and create_ok: "client_Create cl ob s = (None, s') \<Longrightarrow> \<exists>r. \<forall>k n. view s' k n =
      (if k = object_kind ob \<and> n = object_name ob then Some (with_rest r ob) else view s k n)"
    and create_error: "client_Create cl ob s = (Some e, s') \<Longrightarrow> view s' = view s"
    and update_ok: "client_Update cl ob s = (None, s') \<Longrightarrow> \<exists>r. \<forall>k n. view s' k n =
      (if k = object_kind ob \<and> n = object_name ob then Some (with_rest r ob) else view s k n)"
    and update_error: "client_Update cl ob s = (Some e, s') \<Longrightarrow> view s' = view s"
begin

text \<open>\<^verbatim>\<open>get\<close> through all its attempts.\<close>

lemma get_view_kept:
  assumes "get cl name ob s = (r, ob', s')"
  shows "view s' = view s" "r = Ok () \<Longrightarrow> view s (object_kind ob) name = Some ob'"
    "r \<noteq> Ok () \<Longrightarrow> ob' = ob" "IsNotFound r \<Longrightarrow> view s (object_kind ob) name = None"
proof -
  let ?Q = "\<lambda>r st. view (snd st) = view s \<and> (r = Ok () \<longrightarrow> view s (object_kind ob) name = Some (fst st))
    \<and> (r \<noteq> Ok () \<longrightarrow> fst st = ob) \<and> (IsNotFound r \<longrightarrow> view s (object_kind ob) name = None)"
  have "?Q r (ob', s')"
  proof (rule PollImmediate_rule [OF assms [unfolded get_def],
        where I = "\<lambda>st. fst st = ob \<and> view (snd st) = view s"])
    fix st r st' assume i: "fst st = ob \<and> view (snd st) = view s" and a: "get_attempt cl name st = (r, st')"
    obtain res s1 where g: "client_Get cl (object_kind ob) name (snd st) = (res, s1)" by fastforce
    show "case r of Ok b \<Rightarrow> if b then ?Q (Ok ()) st' else (fst st' = ob \<and> view (snd st') = view s) \<and> ?Q (Fail ErrWaitTimeout) st'
      | Fail e \<Rightarrow> ?Q (Fail e) st' | Panic x \<Rightarrow> ?Q (Panic x) st'"
    proof (cases res)
      case (Inl e)
      with get_error [OF g [unfolded Inl]] i a g show ?thesis
        by (auto simp: get_attempt_def IsNotFound_def split: if_splits error.splits)
    next
      case (Inr ob1)
      with get_view [OF g [unfolded Inr]] i a g show ?thesis by (auto simp: get_attempt_def IsNotFound_def)
    qed
  qed simp
  then show "view s' = view s" "r = Ok () \<Longrightarrow> view s (object_kind ob) name = Some ob'"
    "r \<noteq> Ok () \<Longrightarrow> ob' = ob" "IsNotFound r \<Longrightarrow> view s (object_kind ob) name = None" by auto
qed

end

text \<open>In a cluster, an object is found under its own kind and name.\<close>

locale kube_cluster = kube_store cl view for cl :: "'s kube_client" and view :: "'s \<Rightarrow> objectKind \<Rightarrow> NamespacedName \<Rightarrow> Object option" +
  assumes view_key: "view s k n = Some ob \<Longrightarrow> object_kind ob = k \<and> object_name ob = n"

text \<open>An association list of objects as the cluster. The cache is not ready for the first \<open>delay\<close>
  reads; every write gives the object a new version.\<close>

record store =
  objects :: "((objectKind \<times> NamespacedName) \<times> Object) list"
  delay :: nat
  version :: nat

definition store_view :: "store \<Rightarrow> objectKind \<Rightarrow> NamespacedName \<Rightarrow> Object option" where
  "store_view s k n = (case map_of (objects s) (k, n) of
     Some ob \<Rightarrow> if object_kind ob = k \<and> object_name ob = n then Some ob else None
   | None \<Rightarrow> None)"

definition store_put :: "Object \<Rightarrow> store \<Rightarrow> store" where
  "store_put ob s = s\<lparr>objects := AList.update (object_kind ob, object_name ob)
     (with_rest (replicate (Suc (version s)) CHR ''v'') ob) (objects s), version := Suc (version s)\<rparr>"

definition store_client :: "nat \<Rightarrow> store kube_client" where
  "store_client n = \<lparr>
     client_Get = (\<lambda>k name s. if 0 < delay s then (Inl ErrCacheNotStarted, s\<lparr>delay := delay s - 1\<rparr>)
       else case store_view s k name of None \<Rightarrow> (Inl (NotFound (NamespacedName_String name)), s) | Some ob \<Rightarrow> (Inr ob, s)),
     client_Create = (\<lambda>ob s. if store_view s (object_kind ob) (object_name ob) = None then (None, store_put ob s)
       else (Some (Lib ''already exists''), s)),
     client_Update = (\<lambda>ob s. if store_view s (object_kind ob) (object_name ob) = None
       then (Some (NotFound (NamespacedName_String (object_name ob))), s) else (None, store_put ob s)),
     poll_ticks = n\<rparr>"

lemma store_view_put:
  "store_view (store_put ob s) k n = (if k = object_kind ob \<and> n = object_name ob
     then Some (with_rest (replicate (Suc (version s)) CHR ''v'') ob) else store_view s k n)"
  by (auto simp: store_view_def store_put_def update_conv')

lemma store_view_delay [simp]: "store_view (s\<lparr>delay := d\<rparr>) = store_view s"
  by (simp add: store_view_def fun_eq_iff)

interpretation store: kube_cluster "store_client n" store_view for n
proof unfold_locales
  fix k name s ob s' assume "client_Get (store_client n) k name s = (Inr ob, s')"
  then show "object_kind ob = k" "store_view s k name = Some ob \<and> store_view s' = store_view s"
    by (auto simp: store_client_def store_view_def split: if_splits option.splits)
next
  fix s k name ob assume "store_view s k name = Some ob"
  then show "object_kind ob = k \<and> object_name ob = name"
    by (simp add: store_view_def split: if_splits option.splits)
qed (auto simp: store_client_def store_view_put split: if_splits option.splits)

end
