(* ===== verification/Chain_Progress.thy ===== *)
theory Chain_Progress
  imports Chain_Update
begin

text \<open>
  The time an update returns lies after the moment the update started, so the caller that waits
  for it does not run in a busy loop. This needs a chain with at least one CA bundle: without
  one, every update rotates everything and returns the zero time.
\<close>

section \<open>Deadlines of new certificates\<close>

text \<open>Certificates are rotated later than a second after they were made.\<close>

definition spaced :: "Options \<Rightarrow> bool" where
  "spaced o' \<longleftrightarrow> CAOverlapInterval o' + Second + 1024 \<le> CARotateInterval o'
     \<and> CertOverlapInterval o' + Second + 1024 \<le> CertRotateInterval o'"

lemma deadline_lower:
  assumes "x + d - Second < NotAfter c" "NotBefore c \<le> NotAfter c" "NotAfter c - NotBefore c < 2 ^ 62"
    and "\<bar>overlap\<bar> < 2 ^ 61" "overlap + Second + 1024 \<le> d"
  shows "x < nextRotationDeadlineForCert c overlap"
  using deadline_error [of c overlap] assms by auto

lemma rotation_deadline_after:
  assumes "[] \<notin> set css" "css \<noteq> []"
    and "\<And>cs. cs \<in> set css \<Longrightarrow> x < nextRotationDeadlineForCert (last cs) overlap"
  shows "x < (case last_deadlines overlap css of None \<Rightarrow> zero_time | Some ds \<Rightarrow> minTime ds)"
  using assms by (simp add: last_deadlines_Some less_minTime)

section \<open>What a clean-up leaves\<close>

lemma cleaned_left:
  assumes "cleaned lib I cs cs'" "c \<in> set cs'" "\<And>i. i \<in> I \<Longrightarrow> x \<le> lib_now lib i"
    and "x < NotAfter (last cs)"
  shows "x < NotAfter c"
  using cleaned_unexpired [OF assms(1,2)] assms(3,4) by (fastforce simp: unexpired_def After_def)

lemma ca_stage_left:
  assumes c1: "(if \<not> Before (clock_at lib e) (findCleanUpDeadlineForCACerts ch)
      then cleanUpCACerts lib ch (tick e) else (ch, tick e)) = (ch1, e1)"
    and mono: "mono (lib_now lib)" and x: "x \<le> clock_at lib e"
    and keyed: "\<forall>(n, ci) \<in> set (CertificatesIssued (chain_data ch)). keyed ci"
    and lasts: "\<And>cs. cs \<in> set (all_caCerts (CertificatesIssued (chain_data ch))) \<Longrightarrow> x < NotAfter (last cs)"
    and c: "cs \<in> set (all_caCerts (CertificatesIssued (chain_data ch1)))" "c \<in> set cs"
  shows "x < NotAfter c"
proof (cases "Before (clock_at lib e) (findCleanUpDeadlineForCACerts ch)")
  case True
  then have "clock_at lib e < minTime (map NotAfter (concat (all_caCerts (CertificatesIssued (chain_data ch)))))"
    by (simp add: Before_def findCleanUpDeadlineForCACerts_def findCleanUpDeadlineForCertList_def)
  also have "\<dots> \<le> NotAfter c" using True c1 c by (intro minTime_le) auto
  finally show ?thesis using x by simp
next
  case False
  with c1 have "cleanUpCACerts lib ch (tick e) = (ch1, e1)" by simp
  note rel = cleanUpCACerts_cleaned(3) [OF this keyed]
  from c(1) obtain n ci' k where ci': "(n, ci') \<in> set (CertificatesIssued (chain_data ch1))"
    "(k, cs) \<in> set (issue_caCerts ci')" by (auto simp: mem_all_caCerts)
  from gomap_rel_in2 [OF rel ci'(1)] obtain ci where
    ci: "(n, ci) \<in> set (CertificatesIssued (chain_data ch))"
    and "bundles_cleaned lib {ticks (tick e)..<ticks e1} ci ci'" by blast
  then obtain news where "gomap_rel (cleaned lib {ticks (tick e)..<ticks e1}) (issue_caCerts ci) news"
    "ci' = with_bundles news ci" by (auto simp: bundles_cleaned_def)
  then obtain cs0 where cs0: "(k, cs0) \<in> set (issue_caCerts ci)" "cleaned lib {ticks (tick e)..<ticks e1} cs0 cs"
    using ci'(2) gomap_rel_in2 by fastforce
  have "x \<le> lib_now lib i" if "i \<in> {ticks (tick e)..<ticks e1}" for i
    using that x monoD [OF mono, of "ticks e" i] by (auto simp: clock_at_def)
  moreover have "x < NotAfter (last cs0)" using ci cs0 by (intro lasts) (auto simp: mem_all_caCerts)
  ultimately show ?thesis using cleaned_left [OF cs0(2) c(2)] by blast
qed

lemma cert_stage_left:
  assumes c2: "(if \<not> Before (clock_at lib e) (findCleanUpDeadlineForCerts ch)
      then cleanUpCerts lib ch (tick e) else (ch, tick e)) = (ch1, e1)"
    and mono: "mono (lib_now lib)" and x: "x \<le> clock_at lib e"
    and lasts: "\<And>cs. cs \<in> set (all_certs (CertificatesIssued (chain_data ch))) \<Longrightarrow> x < NotAfter (last cs)"
    and c: "cs \<in> set (all_certs (CertificatesIssued (chain_data ch1)))" "c \<in> set cs"
  shows "x < NotAfter c"
proof (cases "Before (clock_at lib e) (findCleanUpDeadlineForCerts ch)")
  case True
  then have "clock_at lib e < minTime (map NotAfter (concat (all_certs (CertificatesIssued (chain_data ch)))))"
    by (simp add: Before_def findCleanUpDeadlineForCerts_def findCleanUpDeadlineForCertList_def)
  also have "\<dots> \<le> NotAfter c" using True c2 c by (intro minTime_le) auto
  finally show ?thesis using x by simp
next
  case False
  with c2 have "cleanUpCerts lib ch (tick e) = (ch1, e1)" by simp
  note rel = cleanUpCerts_cleaned(3) [OF this]
  from c(1) obtain n ci' where ci': "(n, ci') \<in> set (CertificatesIssued (chain_data ch1))"
    "cs = issue_certs ci'" by (auto simp: mem_all_certs)
  from gomap_rel_in2 [OF rel ci'(1)] obtain ci where
    ci: "(n, ci) \<in> set (CertificatesIssued (chain_data ch))"
    and "certs_cleaned lib {ticks (tick e)..<ticks e1} ci ci'" by blast
  then have cl: "cleaned lib {ticks (tick e)..<ticks e1} (issue_certs ci) cs"
    using ci'(2) by (auto simp: certs_cleaned_def)
  have "x \<le> lib_now lib i" if "i \<in> {ticks (tick e)..<ticks e1}" for i
    using that x monoD [OF mono, of "ticks e" i] by (auto simp: clock_at_def)
  moreover have "x < NotAfter (last (issue_certs ci))" using ci by (intro lasts) (auto simp: mem_all_certs)
  ultimately show ?thesis using cleaned_left [OF cl c(2)] by blast
qed

lemma all_certs_cong:
  "gomap_rel R m m' \<Longrightarrow> (\<And>ci ci'. R ci ci' \<Longrightarrow> issue_certs ci' = issue_certs ci) \<Longrightarrow> all_certs m' = all_certs m"
  unfolding gomap_rel_def all_certs_def by (induction rule: list_all2_induct) auto

text \<open>The time returned lies after \<open>x\<close> when the rotation deadlines do and the last
  certificates of the chain expire after \<open>x\<close>.\<close>

lemma update_cleanup_after:
  assumes up: "update_cleanup lib dA dC ch e = (Ok t, ch', e')"
    and mono: "mono (lib_now lib)" and x: "x \<le> clock_at lib e" "x < dA" "x < dC"
    and keyed: "\<forall>(n, ci) \<in> set (CertificatesIssued (chain_data ch)). keyed ci"
    and ca_lasts: "\<And>cs. cs \<in> set (all_caCerts (CertificatesIssued (chain_data ch))) \<Longrightarrow> x < NotAfter (last cs)"
    and cert_lasts: "\<And>cs. cs \<in> set (all_certs (CertificatesIssued (chain_data ch))) \<Longrightarrow> x < NotAfter (last cs)"
    and ne: "concat (all_caCerts (CertificatesIssued (chain_data ch'))) \<noteq> []"
      "concat (all_certs (CertificatesIssued (chain_data ch'))) \<noteq> []"
  shows "x < t"
proof -
  obtain ch1 e1 where
    c1: "(if \<not> Before (clock_at lib e) (findCleanUpDeadlineForCACerts ch)
      then cleanUpCACerts lib ch (tick e) else (ch, tick e)) = (ch1, e1)"
    and c2: "(if \<not> Before (clock_at lib e1) (findCleanUpDeadlineForCerts ch1)
      then cleanUpCerts lib ch1 (tick e1) else (ch1, tick e1)) = (ch', e')"
    and t: "t = minTime [dA, dC, findCleanUpDeadlineForCACerts ch1, findCleanUpDeadlineForCerts ch']"
    by (rule update_cleanup_stages [OF up])
  note s1 = cleanup_ca_stage [OF c1 keyed] and s2 = cleanup_cert_stage [OF c2]
  have eq1: "all_certs (CertificatesIssued (chain_data ch1)) = all_certs (CertificatesIssued (chain_data ch))"
    by (rule all_certs_cong [OF conjunct1 [OF conjunct2 [OF conjunct2 [OF s1]]]])
      (auto simp: bundles_cleaned_def)
  have eq2: "all_caCerts (CertificatesIssued (chain_data ch')) = all_caCerts (CertificatesIssued (chain_data ch1))"
    by (rule all_caCerts_cong [OF conjunct1 [OF conjunct2 [OF conjunct2 [OF s2]]]])
      (auto dest: certs_cleaned_caCerts)
  have x1: "x \<le> clock_at lib e1" using x(1) s1 monoD [OF mono, of "ticks e" "ticks e1"] by (simp add: clock_at_def)
  have "x < findCleanUpDeadlineForCACerts ch1"
    using ne(1) ca_stage_left [OF c1 mono x(1) keyed ca_lasts] eq2
    by (auto simp: findCleanUpDeadlineForCACerts_def findCleanUpDeadlineForCertList_def less_minTime)
  moreover have "x < findCleanUpDeadlineForCerts ch'"
    using ne(2) cert_stage_left [OF c2 mono x1 cert_lasts] eq1
    by (auto simp: findCleanUpDeadlineForCerts_def findCleanUpDeadlineForCertList_def less_minTime)
  ultimately show ?thesis using x t by (simp add: less_minTime)
qed

end
