(* ===== verification/Services.thy ===== *)
theory Services
  imports Chain_Update
begin

text \<open>
  An update changes keys, certificates and the contents of CA bundles. It never changes which
  services there are, their names, addresses and host names, or which bundles each has. This
  holds for every outcome, errors and panics included.
\<close>

definition same_service :: "CertificateIssue \<Rightarrow> CertificateIssue \<Rightarrow> bool" where
  "same_service ci ci' \<longleftrightarrow> Issue_Name ci' = Issue_Name ci \<and> IPs ci' = IPs ci \<and> Hostnames ci' = Hostnames ci
     \<and> map fst (CACertPEM ci') = map fst (CACertPEM ci)
     \<and> map fst (issue_caCerts ci') = map fst (issue_caCerts ci)"

definition same_names :: "CertificateIssue \<Rightarrow> bool" where
  "same_names ci = (map fst (issue_caCerts ci) = map fst (CACertPEM ci))"

text \<open>Two states of a chain with the same options, CA name and services.\<close>

definition same_services :: "certificateChain \<Rightarrow> certificateChain \<Rightarrow> bool" where
  "same_services ch ch' \<longleftrightarrow> chain_Options ch' = chain_Options ch
     \<and> CA_Name (Chain_CA (chain_data ch')) = CA_Name (Chain_CA (chain_data ch))
     \<and> gomap_rel same_service (CertificatesIssued (chain_data ch)) (CertificatesIssued (chain_data ch'))"

definition all_same_names :: "certificateChain \<Rightarrow> bool" where
  "all_same_names ch = (\<forall>(n, ci) \<in> set (CertificatesIssued (chain_data ch)). same_names ci)"

lemma same_service_refl [simp, intro]: "same_service ci ci"
  by (simp add: same_service_def)

lemma same_service_trans: "same_service ci ci1 \<Longrightarrow> same_service ci1 ci2 \<Longrightarrow> same_service ci ci2"
  by (simp add: same_service_def)

lemma same_service_names: "same_service ci ci' \<Longrightarrow> same_names ci \<Longrightarrow> same_names ci'"
  by (simp add: same_service_def same_names_def)

lemma same_services_refl [simp, intro]: "same_services ch ch"
  by (simp add: same_services_def gomap_rel_refl)

lemma same_services_trans: "same_services ch ch1 \<Longrightarrow> same_services ch1 ch2 \<Longrightarrow> same_services ch ch2"
  unfolding same_services_def using gomap_rel_trans [OF _ _ same_service_trans] by auto

lemma same_services_names: "same_services ch ch' \<Longrightarrow> all_same_names ch \<Longrightarrow> all_same_names ch'"
proof -
  assume s: "same_services ch ch'" and n: "all_same_names ch"
  show ?thesis
    unfolding all_same_names_def
  proof (intro ballI, clarify)
    fix k ci' assume "(k, ci') \<in> set (CertificatesIssued (chain_data ch'))"
    with s obtain ci where "(k, ci) \<in> set (CertificatesIssued (chain_data ch))" "same_service ci ci'"
      using gomap_rel_in2 unfolding same_services_def by metis
    with n show "same_names ci'" by (auto simp: all_same_names_def dest: same_service_names)
  qed
qed

text \<open>The chain has a CA bundle.\<close>

definition has_bundle :: "certificateChain \<Rightarrow> bool" where
  "has_bundle ch \<longleftrightarrow> (\<exists>(n, ci) \<in> set (CertificatesIssued (chain_data ch)). issue_caCerts ci \<noteq> [])"

lemma has_bundleE:
  assumes "has_bundle ch"
  obtains n ci k cs where "(n, ci) \<in> set (CertificatesIssued (chain_data ch))" "(k, cs) \<in> set (issue_caCerts ci)"
proof -
  from assms obtain n ci where ci: "(n, ci) \<in> set (CertificatesIssued (chain_data ch))" "issue_caCerts ci \<noteq> []"
    by (auto simp: has_bundle_def)
  from ci(2) obtain k cs m where "issue_caCerts ci = (k, cs) # m" by (cases "issue_caCerts ci") auto
  with ci(1) show ?thesis by (intro that [of n ci k cs]) auto
qed

lemma same_services_bundle: "same_services ch ch' \<Longrightarrow> has_bundle ch \<Longrightarrow> has_bundle ch'"
proof -
  assume s: "same_services ch ch'" and "has_bundle ch"
  then obtain n ci where ci: "(n, ci) \<in> set (CertificatesIssued (chain_data ch))" "issue_caCerts ci \<noteq> []"
    by (auto simp: has_bundle_def)
  from s obtain ci' where ci': "(n, ci') \<in> set (CertificatesIssued (chain_data ch'))" "same_service ci ci'"
    using gomap_rel_in1 ci(1) unfolding same_services_def by metis
  then have "map fst (issue_caCerts ci') = map fst (issue_caCerts ci)" by (simp add: same_service_def)
  with ci(2) have "issue_caCerts ci' \<noteq> []" by auto
  with ci' show ?thesis by (auto simp: has_bundle_def)
qed

lemma keys_update_in: "k \<in> fst ` set m \<Longrightarrow> map fst (AList.update k v m) = map fst m"
  by (induction m) auto

lemma setCaCerts_same:
  "k \<in> fst ` set (issue_caCerts ci) \<Longrightarrow> same_names ci \<Longrightarrow> same_service ci (setCaCerts k cs ci)"
proof -
  assume k: "k \<in> fst ` set (issue_caCerts ci)" and "same_names ci"
  then have "k \<in> fst ` set (CACertPEM ci)" by (metis same_names_def set_map)
  with k show ?thesis by (simp add: same_service_def setCaCerts_def keys_update_in)
qed

lemma set_bundles_same:
  "fst ` set m \<subseteq> fst ` set (issue_caCerts ci) \<Longrightarrow> same_names ci \<Longrightarrow> same_service ci (set_bundles m ci)"
proof (induction m arbitrary: ci)
  case (Cons kv m)
  obtain k cs where kv: "kv = (k, cs)" by fastforce
  have s: "same_service ci (setCaCerts k cs ci)" using Cons.prems kv by (intro setCaCerts_same) auto
  then have "fst ` set (issue_caCerts (setCaCerts k cs ci)) = fst ` set (issue_caCerts ci)"
    by (metis same_service_def set_map)
  with Cons.prems s have "same_service (setCaCerts k cs ci) (set_bundles m (setCaCerts k cs ci))"
    by (intro Cons.IH) (auto dest: same_service_names)
  with s show ?case by (auto simp: kv intro: same_service_trans)
qed simp

lemma add_ca_same: "same_names ci \<Longrightarrow> same_service ci (add_ca c ci)"
  unfolding add_ca_def add_ca_loop_set_bundles
  by (rule set_bundles_same) (simp_all add: set_map_values image_image case_prod_unfold)

lemma setKeyResetCert_same: "setKeyResetCert lib ci kp = Ok ci' \<Longrightarrow> same_service ci ci'"
  by (auto simp: setKeyResetCert_def same_service_def)

lemma setKeyAppendCert_same: "setKeyAppendCert lib ci kp = Ok ci' \<Longrightarrow> same_service ci ci'"
  by (auto simp: setKeyAppendCert_def same_service_def Let_def)

lemma cleanup_bundles_loop_same:
  assumes "same_names ci"
  shows "same_service ci (fst (cleanup_bundles_loop lib (issue_caCerts ci) ci e))"
proof -
  obtain ci' e' where l: "cleanup_bundles_loop lib (issue_caCerts ci) ci e = (ci', e')" by fastforce
  from cleanup_bundles_loop_cleaned [OF l] obtain news where
    n: "gomap_rel (cleaned lib {ticks e..<ticks e'}) (issue_caCerts ci) news" "ci' = set_bundles news ci" by blast
  have "fst ` set news = fst ` set (issue_caCerts ci)" using gomap_rel_keys [OF n(1)] by (metis set_map)
  with assms n(2) l show ?thesis by (simp add: set_bundles_same)
qed

section \<open>The operations on the chain\<close>

lemma rotate_loop_same:
  assumes f: "\<And>ci kp ci'. f ci kp = Ok ci' \<Longrightarrow> same_service ci ci'"
  shows "gomap_rel same_service m (fst (snd (rotate_loop lib d ca f m e)))"
proof (induction m arbitrary: e)
  case (Cons kv m)
  obtain n ci where kv: "kv = (n, ci)" by fastforce
  obtain r e1 where new: "NewServerKeyPair lib ca (Issue_Name ci) (IPs ci) (Hostnames ci) d e = (r, e1)"
    by fastforce
  have refl: "gomap_rel same_service m m" by (rule gomap_rel_refl) simp
  show ?case
  proof (cases r)
    case (Ok kp)
    show ?thesis
    proof (cases "f ci kp")
      case (Ok ci')
      with f Cons.IH [of e1] \<open>r = Ok kp\<close> new kv show ?thesis by (auto split: prod.splits)
    qed (use Ok new kv refl in simp_all)
  qed (use new kv refl in simp_all)
qed simp

lemma rotateCerts_same:
  assumes "\<And>ci kp ci'. f ci kp = Ok ci' \<Longrightarrow> same_service ci ci'"
  shows "same_services ch (fst (snd (rotateCerts lib f ch e)))"
  using rotate_loop_same [OF assms] by (simp add: rotateCerts_def same_services_def case_prod_unfold)

lemma setCaKeyPair_same:
  "all_same_names ch \<Longrightarrow> setCaKeyPair lib ch kp = Ok ch' \<Longrightarrow> same_services ch ch'"
proof -
  assume n: "all_same_names ch" and s: "setCaKeyPair lib ch kp = Ok ch'"
  from s obtain k c where "kp = \<lparr>Key = Some k, Cert = Some c\<rparr>"
    by (cases kp) (auto simp: setCaKeyPair_def keyPairToKeyPairPem_def split: option.splits)
  moreover have "gomap_rel same_service (CertificatesIssued (chain_data ch))
      (map_values (add_ca c) (CertificatesIssued (chain_data ch)))" for c
    by (rule gomap_rel_mono_in [OF gomap_rel_map_values])
      (use n in \<open>auto simp: all_same_names_def intro: add_ca_same\<close>)
  ultimately show ?thesis using s by (auto simp: same_services_def)
qed

lemma rotateAll_same: "all_same_names ch \<Longrightarrow> same_services ch (fst (snd (rotateAll lib ch e)))"
proof -
  assume n: "all_same_names ch"
  have rot: "same_services ch (fst (snd (rotateCertsWithoutOverlap lib ch1 e1)))"
    if "same_services ch ch1" for ch1 e1
    unfolding rotateCertsWithoutOverlap_def
    using that rotateCerts_same [OF setKeyResetCert_same] by (rule same_services_trans)
  obtain r e1 where new: "NewCA lib (CA_Name (Chain_CA (chain_data ch))) (CARotateInterval (chain_Options ch)) e = (r, e1)"
    by fastforce
  show ?thesis
  proof (cases r)
    case (Ok kp)
    show ?thesis
    proof (cases "setCaKeyPair lib ch kp")
      case (Ok ch1)
      with rot [OF setCaKeyPair_same [OF n Ok], of e1] \<open>r = Ok kp\<close> new show ?thesis
        by (auto simp: rotateAll_def split: prod.split result.split)
    qed (use Ok new in \<open>simp_all add: rotateAll_def\<close>)
  qed (use new in \<open>simp_all add: rotateAll_def\<close>)
qed

lemma cleanUpCACerts_same: "all_same_names ch \<Longrightarrow> same_services ch (fst (cleanUpCACerts lib ch e))"
proof -
  have "\<forall>(n, ci) \<in> set m. same_names ci \<Longrightarrow> gomap_rel same_service m (fst (cleanup_ca_issues lib m e))" for m e
  proof (induction m arbitrary: e)
    case (Cons kv m)
    obtain n ci where kv: "kv = (n, ci)" by fastforce
    obtain ci' e1 where c: "cleanup_bundles_loop lib (issue_caCerts ci) ci e = (ci', e1)" by fastforce
    have "same_service ci ci'" using cleanup_bundles_loop_same [of ci lib e] Cons.prems kv c by simp
    with Cons.IH [of e1] Cons.prems c kv show ?case by (auto split: prod.split)
  qed simp
  then show "all_same_names ch \<Longrightarrow> ?thesis"
    by (simp add: all_same_names_def cleanUpCACerts_def same_services_def case_prod_unfold)
qed

lemma cleanUpCerts_same: "same_services ch (fst (cleanUpCerts lib ch e))"
proof -
  have "gomap_rel same_service m (fst (cleanup_cert_issues lib m e))" for m e
  proof (induction m arbitrary: e)
    case (Cons kv m)
    obtain n ci where kv: "kv = (n, ci)" by fastforce
    obtain cs e1 where c: "cleanUpCertificateList lib (issue_certs ci) e = (cs, e1)" by fastforce
    have "same_service ci (setCerts cs ci)" by (simp add: same_service_def setCerts_def)
    with Cons.IH [of e1] c kv show ?case by (auto split: prod.split)
  qed simp
  then show ?thesis by (simp add: cleanUpCerts_def same_services_def case_prod_unfold)
qed

lemma update_cleanup_same:
  assumes "all_same_names ch"
  shows "same_services ch (fst (snd (update_cleanup lib dA dC ch e)))"
proof -
  have 1: "same_services ch (fst (if b then cleanUpCACerts lib ch e1 else (ch, e1)))" for b e1
    using cleanUpCACerts_same [OF assms] by simp
  have 2: "same_services ch1 (fst (if b then cleanUpCerts lib ch1 e1 else (ch1, e1)))" for b ch1 e1
    using cleanUpCerts_same by simp
  show ?thesis
    unfolding update_cleanup_def Let_def case_prod_unfold fst_conv snd_conv
    by (rule same_services_trans [OF 1 2])
qed

lemma update_same:
  assumes "all_same_names ch"
  shows "same_services ch (fst (snd (update lib ch e)))"
proof -
  have cl: "same_services ch (fst (snd (update_cleanup lib dA dC ch1 e1)))" if "same_services ch ch1" for dA dC ch1 e1
    using that update_cleanup_same [OF same_services_names [OF that assms]] by (rule same_services_trans)
  have all: "same_services ch ch1" if "rotateAll lib ch e2 = (r, ch1, e3)" for r ch1 e2 e3
    using rotateAll_same [OF assms, of lib e2] that by simp
  have certs: "same_services ch ch1" if "rotateCertsWithOverlap lib ch e2 = (r, ch1, e3)" for r ch1 e2 e3
    using rotateCerts_same [where f = "setKeyAppendCert lib" and e = e2] setKeyAppendCert_same that
    unfolding rotateCertsWithOverlap_def by (metis fst_conv snd_conv)
  show ?thesis
    unfolding update_def Let_def
    by (auto split: prod.split result.split dest: all certs intro: cl)
qed

end
