(* ===== verification/Chain_Ownership.thy ===== *)
theory Chain_Ownership
  imports Chain_Progress Services
begin

text \<open>
  What successive updates keep of a chain. Data is owned when its CA was made by this program and
  every certificate in it was issued by that CA for the host names of its service. An update that
  rotates everything makes any data owned, every other update keeps owned data owned, and owned
  data verifies until the time for the next update.
\<close>

section \<open>Owned data\<close>

definition own_ca :: "go_lib \<Rightarrow> time \<Rightarrow> rsa_PrivateKey \<Rightarrow> certificate \<Rightarrow> bool" where
  "own_ca lib T ck ca \<longleftrightarrow> self_signed lib ca ck \<and> signing_ca ca ck \<and> parsed lib ca
     \<and> NotBefore ca \<le> T \<and> NotBefore ca \<le> NotAfter ca \<and> NotAfter ca - NotBefore ca \<le> 2 ^ 60 + Second"

definition own_cert :: "go_lib \<Rightarrow> rsa_PrivateKey \<Rightarrow> certificate \<Rightarrow> string list \<Rightarrow> certificate \<Rightarrow> bool" where
  "own_cert lib ck ca hostnames c \<longleftrightarrow> issued_by lib ca ck c \<and> DNSNames c = hostnames
     \<and> ExtKeyUsageServerAuth \<in> set (ExtKeyUsage c) \<and> NotBefore c \<le> NotBefore ca \<and> NotBefore c \<le> NotAfter c"

definition own_issue :: "go_lib \<Rightarrow> rsa_PrivateKey \<Rightarrow> certificate \<Rightarrow> CertificateIssue \<Rightarrow> bool" where
  "own_issue lib ck ca ci \<longleftrightarrow> coherent lib ci \<and> issue_certs ci \<noteq> []
     \<and> (\<forall>c \<in> set (issue_certs ci). own_cert lib ck ca (Hostnames ci) c)
     \<and> (\<forall>(n, cs) \<in> set (issue_caCerts ci). getLastCert cs = Some ca)"

definition own_data :: "go_lib \<Rightarrow> time \<Rightarrow> CertificateChainData \<Rightarrow> bool" where
  "own_data lib T d \<longleftrightarrow> (\<exists>ck ca. CA_keyPair (Chain_CA d) = \<lparr>Key = Some ck, Cert = Some ca\<rparr>
     \<and> coherent_ca lib (Chain_CA d) \<and> own_ca lib T ck ca
     \<and> (\<forall>(n, ci) \<in> set (CertificatesIssued d). own_issue lib ck ca ci))"

text \<open>Every service has a first host name, and one that can be verified.\<close>

definition hostnames_ok :: "go_lib \<Rightarrow> CertificateChainData \<Rightarrow> bool" where
  "hostnames_ok lib d = (\<forall>(n, ci) \<in> set (CertificatesIssued d).
     Hostnames ci \<noteq> [] \<and> hostname_ok lib (hd (Hostnames ci)))"

text \<open>The intervals leave time for an update that takes \<open>w\<close>: certificates last longer than an
  update and a second, and overlap for longer than an update and the rounding of the deadlines.
  A CA lasts less than \<open>2 ^ 60\<close> nanoseconds, 36 years.\<close>

definition paced :: "duration \<Rightarrow> Options \<Rightarrow> bool" where
  "paced w o' \<longleftrightarrow> 0 \<le> w \<and> options_ok o' \<and> w + Second \<le> CertRotateInterval o'
     \<and> w + 2048 \<le> CAOverlapInterval o' \<and> w + 2048 \<le> CertOverlapInterval o'
     \<and> CARotateInterval o' < 2 ^ 60"

lemma own_issue_keyed: "own_issue lib ck ca ci \<Longrightarrow> keyed ci"
  by (auto simp: own_issue_def intro: coherent_keyed)

text \<open>A certificate made by the CA at one of the instants \<open>I\<close>, to last for \<open>d\<close>.\<close>

definition new_cert :: "go_lib \<Rightarrow> nat set \<Rightarrow> duration \<Rightarrow> certificate \<Rightarrow> certificate \<Rightarrow> bool" where
  "new_cert lib I d ca c \<longleftrightarrow> NotBefore ca - Second < NotBefore c
     \<and> (\<exists>i \<in> I. lib_now lib i + d - Second < NotAfter c \<and> NotAfter c \<le> lib_now lib i + d)"

section \<open>Cleaning up owned data\<close>

lemma cleaned_last:
  "cleaned lib I cs cs' \<Longrightarrow> getLastCert cs = Some c \<Longrightarrow> (\<And>i. i \<in> I \<Longrightarrow> unexpired (lib_now lib i) c) \<Longrightarrow>
   getLastCert cs' = Some c"
  using cleaned_snoc by (fastforce simp: getLastCert_Some)

context x509_lib
begin

lemma bundles_cleaned_own:
  assumes "own_issue lib ck ca ci" "bundles_cleaned lib I ci ci'"
    and ca: "\<And>i. i \<in> I \<Longrightarrow> unexpired (lib_now lib i) ca"
  shows "own_issue lib ck ca ci'"
proof -
  from assms(2) obtain news where n: "gomap_rel (cleaned lib I) (issue_caCerts ci) news"
    and ci': "ci' = with_bundles news ci" by (auto simp: bundles_cleaned_def)
  have coh: "coherent lib ci" using assms(1) by (simp add: own_issue_def)
  have new: "getLastCert cs = Some ca \<and> (\<forall>c \<in> set cs. parsed lib c)" if cs: "(k, cs) \<in> set news" for k cs
  proof -
    from gomap_rel_in2 [OF n cs] obtain cs0 where
      o: "(k, cs0) \<in> set (issue_caCerts ci)" "cleaned lib I cs0 cs" by blast
    from assms(1) o(1) have "getLastCert cs0 = Some ca" by (auto simp: own_issue_def)
    from cleaned_last [OF o(2) this ca] have "getLastCert cs = Some ca" .
    moreover have "\<forall>c \<in> set cs0. parsed lib c" using coherent_parsed(2) [OF coh] o(1) by auto
    ultimately show ?thesis using cleaned_subset [OF o(2)] by auto
  qed
  then have "coherent lib ci'"
    unfolding ci' using coh gomap_rel_keys [OF n] by (intro coherent_with_bundles) auto
  with assms(1) new show ?thesis by (auto simp: own_issue_def ci')
qed

lemma certs_cleaned_own:
  assumes "own_issue lib ck ca ci" "certs_cleaned lib I ci ci'"
    and last: "\<And>i. i \<in> I \<Longrightarrow> unexpired (lib_now lib i) (last (issue_certs ci))"
  shows "own_issue lib ck ca ci'"
proof -
  from assms(2) obtain cs where c: "cleaned lib I (issue_certs ci) cs" and ci': "ci' = setCerts cs ci"
    by (auto simp: certs_cleaned_def)
  have ne: "issue_certs ci \<noteq> []" and coh: "coherent lib ci" using assms(1) by (auto simp: own_issue_def)
  have "getLastCert cs = Some (last (issue_certs ci))"
    using c by (rule cleaned_last) (use ne last in \<open>simp_all add: getLastCert_last\<close>)
  then have cs: "cs \<noteq> []" by auto
  note sub = cleaned_subset [OF c]
  have "coherent lib ci'" unfolding ci' using coh sub cs by (intro coherent_setCerts) auto
  with assms(1) cs sub show ?thesis by (auto simp: own_issue_def ci')
qed

lemma tidied_own:
  assumes "own_issue lib ck ca ci" "tidied lib I ci ci'"
    and "\<And>i. i \<in> I \<Longrightarrow> unexpired (lib_now lib i) ca"
    and "\<And>i. i \<in> I \<Longrightarrow> unexpired (lib_now lib i) (last (issue_certs ci))"
  shows "own_issue lib ck ca ci'"
proof -
  from assms(2) obtain ci1 where
    c1: "ci1 = ci \<or> bundles_cleaned lib I ci ci1" and c2: "ci' = ci1 \<or> certs_cleaned lib I ci1 ci'"
    unfolding tidied_def by blast
  have certs: "issue_certs ci1 = issue_certs ci" using c1 by (auto simp: bundles_cleaned_def)
  have own: "own_issue lib ck ca ci1" using c1 assms(1) bundles_cleaned_own [OF assms(1) _ assms(3)] by blast
  have "unexpired (lib_now lib i) (last (issue_certs ci1))" if "i \<in> I" for i
    using assms(4) [OF that] by (simp only: certs)
  with c2 own certs_cleaned_own [OF own] show ?thesis by blast
qed

text \<open>Cleaning up keeps the last certificate of every list, which is what the rotation deadlines
  look at.\<close>

definition same_lasts :: "CertificateIssue \<Rightarrow> CertificateIssue \<Rightarrow> bool" where
  "same_lasts ci ci' \<longleftrightarrow> map getLastCert (map snd (issue_caCerts ci')) = map getLastCert (map snd (issue_caCerts ci))
     \<and> getLastCert (issue_certs ci') = getLastCert (issue_certs ci)"

lemma tidied_lasts:
  assumes own: "own_issue lib ck ca ci" and "tidied lib I ci ci'"
    and ca: "\<And>i. i \<in> I \<Longrightarrow> unexpired (lib_now lib i) ca"
    and last: "\<And>i. i \<in> I \<Longrightarrow> unexpired (lib_now lib i) (last (issue_certs ci))"
  shows "same_lasts ci ci'"
proof -
  from assms(2) obtain ci1 where
    c1: "ci1 = ci \<or> bundles_cleaned lib I ci ci1" and c2: "ci' = ci1 \<or> certs_cleaned lib I ci1 ci'"
    unfolding tidied_def by blast
  have "getLastCert cs' = getLastCert cs" if "(k, cs) \<in> set (issue_caCerts ci)" "cleaned lib I cs cs'" for k cs cs'
    using that cleaned_last [OF that(2) _ ca] own by (auto simp: own_issue_def)
  then have "same_lasts ci ci1" using c1
    by (auto simp: same_lasts_def bundles_cleaned_def intro!: gomap_rel_map_snd elim!: gomap_rel_mono_in simp del: map_map)
  moreover have "issue_certs ci1 = issue_certs ci" using c1 by (auto simp: bundles_cleaned_def)
  moreover have "getLastCert cs = getLastCert (issue_certs ci)" if "cleaned lib I (issue_certs ci) cs" for cs
    using that cleaned_last [OF that _ last] own by (simp add: own_issue_def getLastCert_last)
  ultimately show ?thesis using c2 by (auto simp: same_lasts_def certs_cleaned_def)
qed

lemma last_deadlines_cong:
  "map getLastCert css' = map getLastCert css \<Longrightarrow> last_deadlines overlap css' = last_deadlines overlap css"
proof (induction css arbitrary: css')
  case (Cons cs css)
  then obtain c' cs' where css': "css' = c' # cs'" by (cases css') auto
  with Cons.prems have c: "getLastCert c' = getLastCert cs" "map getLastCert cs' = map getLastCert css" by simp_all
  from Cons.IH [OF c(2)] show ?case unfolding css' by (simp only: last_deadlines.simps c(1))
qed simp

lemma same_lasts_deadlines:
  assumes "gomap_rel same_lasts (CertificatesIssued (chain_data ch)) (CertificatesIssued (chain_data ch'))"
    and "chain_Options ch' = chain_Options ch"
  shows "findRotationDeadlineForCA ch' = findRotationDeadlineForCA ch"
    "findRotationDeadlineForCerts ch' = findRotationDeadlineForCerts ch"
proof -
  have m: "map getLastCert (all_caCerts m') = map getLastCert (all_caCerts m)
     \<and> map getLastCert (all_certs m') = map getLastCert (all_certs m)"
    if "gomap_rel same_lasts m m'" for m m'
    using that unfolding gomap_rel_def
    by (induction rule: list_all2_induct) (auto simp: all_caCerts_def all_certs_def same_lasts_def)
  show "findRotationDeadlineForCA ch' = findRotationDeadlineForCA ch"
    "findRotationDeadlineForCerts ch' = findRotationDeadlineForCerts ch"
    using m [OF assms(1)] last_deadlines_cong
    unfolding findRotationDeadlineForCA_def findRotationDeadlineForCerts_def assms(2) by metis+
qed

section \<open>Rotating\<close>

lemma fresh_own_cert:
  assumes "fresh_server lib t d ca ck hostnames k c" "NotBefore ca \<le> t" "0 \<le> d"
  shows "own_cert lib ck ca hostnames c"
proof -
  have "trunc_second (NotBefore ca) \<le> trunc_second (Add t d)"
    using assms by (intro trunc_second_mono) (simp add: Add_def)
  with assms(1) trunc_second_le [of "NotBefore ca"] show ?thesis
    by (auto simp: fresh_server_def own_cert_def)
qed

lemma fresh_own_ca:
  assumes "fresh_ca lib t d k c" "0 \<le> d" "d < 2 ^ 60" "t \<le> T"
  shows "own_ca lib T k c"
proof -
  have "trunc_second t \<le> trunc_second (Add t d)" using assms by (intro trunc_second_mono) (simp add: Add_def)
  with assms trunc_second_le [of t] trunc_second_gt [of t] trunc_second_le [of "Add t d"] show ?thesis
    by (auto simp: fresh_ca_def own_ca_def Add_def)
qed

text \<open>The life of a new certificate.\<close>

lemma fresh_new_cert:
  "fresh_server lib (lib_now lib i) d ca ck hostnames k c \<Longrightarrow> i \<in> I \<Longrightarrow> new_cert lib I d ca c"
  using trunc_second_gt [of "Add (lib_now lib i) d"] trunc_second_le [of "Add (lib_now lib i) d"]
    trunc_second_gt [of "NotBefore ca"]
  unfolding new_cert_def by (auto simp: fresh_server_def Add_def)

lemma fresh_ca_NotAfter: "fresh_ca lib t d ck ca \<Longrightarrow> t + d - Second < NotAfter ca"
  using trunc_second_gt [of "Add t d"] by (auto simp: fresh_ca_def Add_def)

lemma fully_rotated_own:
  assumes "fully_rotated lib I d ck ca ci ci'" "coherent lib ci" "parsed lib ca" "0 \<le> d"
    and time: "\<And>i. i \<in> I \<Longrightarrow> NotBefore ca \<le> lib_now lib i"
  shows "own_issue lib ck ca ci'"
    "new_cert lib I d ca (last (issue_certs ci'))"
proof -
  let ?m = "map_values (\<lambda>cs. cs @ [ca]) (issue_caCerts ci)"
  from assms(1) obtain k c i where i: "i \<in> I"
    and fr: "fresh_server lib (lib_now lib i) d ca ck (Hostnames ci) k c"
    and ci': "ci' = (with_bundles ?m ci)\<lparr>issue_key := Some k, issue_certs := [c],
      KeyPEM := Some (EncodePrivateKeyPEM lib k), CertPEM := Some (EncodeCertsPEM [c])\<rparr>"
    unfolding fully_rotated_def by blast
  have "coherent lib (with_bundles ?m ci)"
    using assms(2,3) coherent_parsed(2) [OF assms(2)]
    by (intro coherent_with_bundles) (fastforce simp: set_map_values)+
  then have "coherent lib ci'"
    unfolding ci' using fr by (intro coherent_new_key) (auto simp: fresh_server_def)
  moreover have "own_cert lib ck ca (Hostnames ci) c" using fresh_own_cert [OF fr time [OF i] assms(4)] .
  ultimately show "own_issue lib ck ca ci'" by (auto simp: own_issue_def ci' set_map_values)
  show "new_cert lib I d ca (last (issue_certs ci'))"
    using fresh_new_cert [OF fr i] by (simp add: ci')
qed

lemma appended_own:
  assumes "own_issue lib ck ca ci"
    and "rotated lib I d \<lparr>Key = Some ck, Cert = Some ca\<rparr> (setKeyAppendCert lib) ci ci'" "0 \<le> d"
    and time: "\<And>i. i \<in> I \<Longrightarrow> NotBefore ca \<le> lib_now lib i"
  shows "own_issue lib ck ca ci'"
    "new_cert lib I d ca (last (issue_certs ci'))"
    "issue_caCerts ci' = issue_caCerts ci"
proof -
  from assms(2) obtain k c i where i: "i \<in> I"
    and fr: "fresh_server lib (lib_now lib i) d ca ck (Hostnames ci) k c"
    and ci': "ci' = ci\<lparr>issue_key := Some k, issue_certs := issue_certs ci @ [c],
      KeyPEM := Some (EncodePrivateKeyPEM lib k), CertPEM := Some (EncodeCertsPEM (issue_certs ci @ [c]))\<rparr>"
    unfolding rotated_def by auto
  have coh: "coherent lib ci" using assms(1) by (simp add: own_issue_def)
  have "coherent lib ci'"
    unfolding ci' using coh fr coherent_parsed(1) [OF coh]
    by (intro coherent_new_key) (auto simp: fresh_server_def)
  moreover have "own_cert lib ck ca (Hostnames ci) c" using fresh_own_cert [OF fr time [OF i] assms(3)] .
  ultimately show "own_issue lib ck ca ci'" using assms(1) by (auto simp: own_issue_def ci')
  show "new_cert lib I d ca (last (issue_certs ci'))"
    using fresh_new_cert [OF fr i] by (simp add: ci')
  show "issue_caCerts ci' = issue_caCerts ci" by (simp add: ci')
qed

lemma encoded_ca_coherent:
  assumes "fresh_ca lib t d ck ca"
  shows "coherent_ca lib (a\<lparr>CA_keyPair := \<lparr>Key = Some ck, Cert = Some ca\<rparr>,
     CA_KeyPEM := Some (EncodePrivateKeyPEM lib ck), CA_CertPEM := Some (EncodeCertPEM ca)\<rparr>)"
proof -
  have "keyPairPemToKeypair lib (Some (EncodePrivateKeyPEM lib ck)) (Some (EncodeCertsPEM [ca])) = (Some ck, [ca], None)"
    using assms by (intro keyPairPemToKeypair_encoded) (auto simp: fresh_ca_def)
  then show ?thesis
    by (simp add: coherent_ca_def decode_ca_def EncodeCertsPEM_single getLastCert_def)
qed

section \<open>The clean-up half of an update\<close>

text \<open>Owned data stays owned when the CA and every last certificate outlive the clean-up.\<close>

lemma update_cleanup_own:
  assumes up: "update_cleanup lib dA dC ch e = (Ok t, ch', e')"
    and ca: "CA_keyPair (Chain_CA (chain_data ch)) = \<lparr>Key = Some ck, Cert = Some ca\<rparr>"
      "coherent_ca lib (Chain_CA (chain_data ch))" "own_ca lib T ck ca"
    and own: "\<forall>(n, ci) \<in> set (CertificatesIssued (chain_data ch)). own_issue lib ck ca ci"
    and ca_left: "\<And>i. i < ticks e' \<Longrightarrow> lib_now lib i < NotAfter ca"
    and certs_left: "\<forall>(n, ci) \<in> set (CertificatesIssued (chain_data ch)).
      \<forall>i < ticks e'. lib_now lib i < NotAfter (last (issue_certs ci))"
  shows "own_data lib T (chain_data ch')" "ticks e \<le> ticks e'" "chain_Options ch' = chain_Options ch"
    "t = minTime [dA, dC, findCleanUpDeadlineForCACerts ch', findCleanUpDeadlineForCerts ch']"
    "findRotationDeadlineForCA ch' = findRotationDeadlineForCA ch"
    "findRotationDeadlineForCerts ch' = findRotationDeadlineForCerts ch"
proof -
  have "\<forall>(n, ci) \<in> set (CertificatesIssued (chain_data ch)). keyed ci"
    using own own_issue_keyed by fastforce
  note r = update_cleanup_tidied [OF up this]
  show "ticks e \<le> ticks e'" "chain_Options ch' = chain_Options ch"
    "t = minTime [dA, dC, findCleanUpDeadlineForCACerts ch', findCleanUpDeadlineForCerts ch']"
    by (fact r)+
  have "own_issue lib ck ca ci'" if ci': "(n, ci') \<in> set (CertificatesIssued (chain_data ch'))" for n ci'
  proof -
    from gomap_rel_in2 [OF r(3) ci'] obtain ci where
      ci: "(n, ci) \<in> set (CertificatesIssued (chain_data ch))"
      and td: "tidied lib {ticks e..<ticks e'} ci ci'" by blast
    have oi: "own_issue lib ck ca ci" using own ci by auto
    show ?thesis
      using oi td by (rule tidied_own) (use ca_left certs_left ci in \<open>auto simp: unexpired_def After_def\<close>)
  qed
  then show "own_data lib T (chain_data ch')" using ca r(2) unfolding own_data_def by auto
  have "gomap_rel same_lasts (CertificatesIssued (chain_data ch)) (CertificatesIssued (chain_data ch'))"
    using r(3)
  proof (rule gomap_rel_mono_in)
    fix n ci ci' assume ci: "(n, ci) \<in> set (CertificatesIssued (chain_data ch))"
      and td: "tidied lib {ticks e..<ticks e'} ci ci'"
    have "own_issue lib ck ca ci" using own ci by auto
    then show "same_lasts ci ci'" using td
      by (rule tidied_lasts) (use ca_left certs_left ci in \<open>auto simp: unexpired_def After_def\<close>)
  qed
  from same_lasts_deadlines [OF this r(1)]
  show "findRotationDeadlineForCA ch' = findRotationDeadlineForCA ch"
    "findRotationDeadlineForCerts ch' = findRotationDeadlineForCerts ch" .
qed

end

section \<open>Updates\<close>

text \<open>When the next update is due.\<close>

definition next_deadline :: "certificateChain \<Rightarrow> time" where
  "next_deadline ch = minTime [findRotationDeadlineForCA ch, findRotationDeadlineForCerts ch,
     findCleanUpDeadlineForCACerts ch, findCleanUpDeadlineForCerts ch]"

lemma less_next_deadline: "x < next_deadline ch \<longleftrightarrow> x < findRotationDeadlineForCA ch
    \<and> x < findRotationDeadlineForCerts ch \<and> x < findCleanUpDeadlineForCACerts ch \<and> x < findCleanUpDeadlineForCerts ch"
  by (simp add: next_deadline_def less_minTime)

text \<open>What is shown of the three kinds of update.\<close>

definition renewed :: "go_lib \<Rightarrow> time \<Rightarrow> certificateChain \<Rightarrow> time \<Rightarrow> certificateChain \<Rightarrow> env \<Rightarrow> bool" where
  "renewed lib x ch t ch' e' \<longleftrightarrow> own_data lib (clock_at lib e') (chain_data ch')
     \<and> chain_Options ch' = chain_Options ch
     \<and> t = next_deadline ch'
     \<and> (spaced (chain_Options ch) \<and> has_bundle ch \<longrightarrow> x < t)"

lemma renewedI:
  assumes "own_data lib T (chain_data ch')" "T \<le> clock_at lib e'" "chain_Options ch' = chain_Options ch"
    and "t = minTime [findRotationDeadlineForCA ch', findRotationDeadlineForCerts ch',
      findCleanUpDeadlineForCACerts ch', findCleanUpDeadlineForCerts ch']"
    and "spaced (chain_Options ch) \<Longrightarrow> has_bundle ch \<Longrightarrow> x < t"
  shows "renewed lib x ch t ch' e'"
proof -
  have "own_data lib (clock_at lib e') (chain_data ch')"
    using assms(1,2) unfolding own_data_def own_ca_def by fastforce
  then show ?thesis using assms(3-5) by (simp add: renewed_def next_deadline_def)
qed

text \<open>The time returned lies after \<open>x\<close>, for owned chains.\<close>

lemma own_cleanup_after:
  assumes up: "update_cleanup lib dA dC ch e = (Ok t, ch', e')"
    and mono: "mono (lib_now lib)" and x: "x \<le> clock_at lib e" "x < dA" "x < dC" "x < NotAfter ca"
    and own: "\<forall>(n, ci) \<in> set (CertificatesIssued (chain_data ch)). own_issue lib ck ca ci"
    and left: "\<forall>(n, ci) \<in> set (CertificatesIssued (chain_data ch)). x < NotAfter (last (issue_certs ci))"
    and own': "own_data lib T (chain_data ch')" and "has_bundle ch"
  shows "x < t"
proof (rule update_cleanup_after [OF up mono x(1-3)])
  show "\<forall>(n, ci) \<in> set (CertificatesIssued (chain_data ch)). keyed ci" using own own_issue_keyed by fastforce
  fix cs
  show "x < NotAfter (last cs)" if "cs \<in> set (all_caCerts (CertificatesIssued (chain_data ch)))"
    using that own x(4) by (fastforce simp: mem_all_caCerts own_issue_def getLastCert_Some)
  show "x < NotAfter (last cs)" if "cs \<in> set (all_certs (CertificatesIssued (chain_data ch)))"
    using that left by (auto simp: mem_all_certs)
next
  have "all_same_names ch" using own own_issue_keyed by (fastforce simp: all_same_names_def same_names_def keyed_def)
  then have "has_bundle ch'" using update_cleanup_same [of ch lib dA dC e] up assms(10) by (auto dest: same_services_bundle)
  then obtain n ci k cs where ci: "(n, ci) \<in> set (CertificatesIssued (chain_data ch'))" "(k, cs) \<in> set (issue_caCerts ci)"
    by (rule has_bundleE)
  from own' ci(1) obtain ck' ca' where "own_issue lib ck' ca' ci" unfolding own_data_def by blast
  with ci(2) have ne: "cs \<noteq> []" "issue_certs ci \<noteq> []" by (auto simp: own_issue_def)
  have "cs \<in> set (all_caCerts (CertificatesIssued (chain_data ch')))"
    "issue_certs ci \<in> set (all_certs (CertificatesIssued (chain_data ch')))"
    using ci by (auto simp: mem_all_caCerts mem_all_certs)
  with ne show "concat (all_caCerts (CertificatesIssued (chain_data ch'))) \<noteq> []"
    "concat (all_certs (CertificatesIssued (chain_data ch'))) \<noteq> []"
    unfolding concat_eq_Nil_conv by blast+
qed

text \<open>New certificates have a rotation deadline after \<open>x\<close>.\<close>

lemma new_certs_deadline:
  assumes "spaced (chain_Options ch)" "paced w (chain_Options ch)" "has_bundle ch1"
    and opts: "chain_Options ch1 = chain_Options ch"
    and issue: "\<And>n ci. (n, ci) \<in> set (CertificatesIssued (chain_data ch1)) \<Longrightarrow> own_issue lib ck ca ci
      \<and> new_cert lib I (CertRotateInterval (chain_Options ch)) ca (last (issue_certs ci))"
    and life: "NotAfter ca - NotBefore ca \<le> 2 ^ 60 + Second"
    and x: "\<And>i. i \<in> I \<Longrightarrow> x \<le> lib_now lib i \<and> lib_now lib i < NotAfter ca"
  shows "x < findRotationDeadlineForCerts ch1"
  unfolding findRotationDeadlineForCerts_def
proof (rule rotation_deadline_after)
  let ?css = "all_certs (CertificatesIssued (chain_data ch1))" and ?d = "CertRotateInterval (chain_Options ch)"
  show "?css \<noteq> []" using assms(3) by (auto simp: has_bundle_def all_certs_def)
  show "[] \<notin> set ?css" using issue by (fastforce simp: mem_all_certs own_issue_def)
  fix cs assume "cs \<in> set ?css"
  then obtain n ci where ci: "(n, ci) \<in> set (CertificatesIssued (chain_data ch1))" and cs: "cs = issue_certs ci"
    by (auto simp: mem_all_certs)
  from issue [OF ci] cs obtain i where i: "i \<in> I" "lib_now lib i + ?d - Second < NotAfter (last cs)"
    "NotAfter (last cs) \<le> lib_now lib i + ?d" "NotBefore ca - Second < NotBefore (last cs)"
    by (auto simp: new_cert_def)
  have "last cs \<in> set (issue_certs ci)" using issue [OF ci] cs by (auto simp: own_issue_def)
  then have nb: "NotBefore (last cs) \<le> NotAfter (last cs)" using issue [OF ci] by (auto simp: own_issue_def own_cert_def)
  have d: "?d < 2 ^ 60" using assms(2) by (auto simp: paced_def options_ok_def)
  show "x < nextRotationDeadlineForCert (last cs) (CertOverlapInterval (chain_Options ch1))"
  proof (rule deadline_lower [of _ ?d])
    show "x + ?d - Second < NotAfter (last cs)" using i x [OF i(1)] by linarith
    show "NotAfter (last cs) - NotBefore (last cs) < 2 ^ 62" using i x [OF i(1)] life d by (simp add: Second_def)
  qed (use nb assms(1,2) opts in \<open>auto simp: spaced_def paced_def options_ok_def\<close>)
qed

context x509_lib
begin

text \<open>A full rotation makes any coherent data owned.\<close>

lemma full_rotation_own:
  assumes mono: "mono (lib_now lib)" and coh: "coherent_data lib (chain_data ch)"
    and opt: "paced w (chain_Options ch)"
    and t2: "ticks e \<le> ticks e2" and rot: "rotateAll lib ch e2 = (Ok (), ch1, e3)"
    and up: "update_cleanup lib (findRotationDeadlineForCA ch1) (findRotationDeadlineForCerts ch1) ch1 e3
      = (Ok t, ch', e')"
    and fast: "clock_at lib e' \<le> clock_at lib e + w"
  shows "renewed lib (clock_at lib e) ch t ch' e'"
proof -
  let ?d = "CertRotateInterval (chain_Options ch)"
  have coherent: "\<forall>(n, ci) \<in> set (CertificatesIssued (chain_data ch)). coherent lib ci"
    using coh by (simp add: coherent_data_def)
  then have "\<forall>(n, ci) \<in> set (CertificatesIssued (chain_data ch)). keyed ci" using coherent_keyed by fastforce
  from rotateAll_spec [OF rot this] obtain ck ca where
    ca: "fresh_ca lib (clock_at lib e2) (CARotateInterval (chain_Options ch)) ck ca"
    and opts: "chain_Options ch1 = chain_Options ch"
    and ca1: "Chain_CA (chain_data ch1) = (Chain_CA (chain_data ch))\<lparr>CA_keyPair := \<lparr>Key = Some ck, Cert = Some ca\<rparr>,
       CA_KeyPEM := Some (EncodePrivateKeyPEM lib ck), CA_CertPEM := Some (EncodeCertPEM ca)\<rparr>"
    and rel: "gomap_rel (fully_rotated lib {ticks e2..<ticks e3} ?d ck ca)
      (CertificatesIssued (chain_data ch)) (CertificatesIssued (chain_data ch1))"
    and t3: "ticks e2 < ticks e3" by blast
  have d: "w + Second \<le> ?d" "w + Second \<le> CARotateInterval (chain_Options ch)" "0 \<le> ?d"
    "0 \<le> CARotateInterval (chain_Options ch)" "CARotateInterval (chain_Options ch) < 2 ^ 60"
    using opt by (auto simp: paced_def options_ok_def Second_def)
  have later: "lib_now lib i \<le> clock_at lib e'" if "i < ticks e'" for i
    using that mono by (simp add: clock_at_def monoD)
  have fast: "clock_at lib e' \<le> clock_at lib e2 + w" using fast monoD [OF mono t2] by (simp add: clock_at_def)
  have own_ca: "own_ca lib (clock_at lib e2) ck ca" by (rule fresh_own_ca [OF ca d(4,5) order_refl])
  then have before: "NotBefore ca \<le> lib_now lib i" if "ticks e2 \<le> i" for i
    using monoD [OF mono that] by (simp add: own_ca_def clock_at_def)
  have issue: "own_issue lib ck ca ci'
      \<and> new_cert lib {ticks e2..<ticks e3} ?d ca (last (issue_certs ci'))"
    if ci': "(n, ci') \<in> set (CertificatesIssued (chain_data ch1))" for n ci'
  proof -
    from gomap_rel_in2 [OF rel ci'] obtain ci where
      ci: "(n, ci) \<in> set (CertificatesIssued (chain_data ch))"
      and fr: "fully_rotated lib {ticks e2..<ticks e3} ?d ck ca ci ci'" by blast
    have "coherent lib ci" "parsed lib ca" using ci coherent ca by (auto simp: fresh_ca_def)
    from fully_rotated_own [OF fr this d(3)] before show ?thesis by auto
  qed
  have left: "lib_now lib i < NotAfter (last (issue_certs ci'))"
    if "(n, ci') \<in> set (CertificatesIssued (chain_data ch1))" "i < ticks e'" for n ci' i
  proof -
    from issue [OF that(1)] obtain j where j: "ticks e2 \<le> j"
      "lib_now lib j + ?d - Second < NotAfter (last (issue_certs ci'))" by (auto simp: new_cert_def)
    have "clock_at lib e2 \<le> lib_now lib j" using mono j(1) by (simp add: clock_at_def monoD)
    with j later [OF that(2)] fast d show ?thesis by linarith
  qed
  have keys: "CA_keyPair (Chain_CA (chain_data ch1)) = \<lparr>Key = Some ck, Cert = Some ca\<rparr>"
    "coherent_ca lib (Chain_CA (chain_data ch1))"
    unfolding ca1 by (simp, rule encoded_ca_coherent [OF ca])
  have issues: "\<forall>(n, ci) \<in> set (CertificatesIssued (chain_data ch1)). own_issue lib ck ca ci"
    using issue by blast
  have ca_left: "lib_now lib i < NotAfter ca" if "i < ticks e'" for i
    using later [OF that] fresh_ca_NotAfter [OF ca] fast d by linarith
  have "\<forall>(n, ci) \<in> set (CertificatesIssued (chain_data ch1)).
      \<forall>i < ticks e'. lib_now lib i < NotAfter (last (issue_certs ci))" using left by blast
  note r = update_cleanup_own [OF up keys own_ca issues ca_left this]
  from r(2) t3 have "clock_at lib e2 \<le> clock_at lib e'" using mono by (simp add: clock_at_def monoD)
  moreover have "clock_at lib e < t" if sp: "spaced (chain_Options ch)" and hb: "has_bundle ch"
  proof (rule own_cleanup_after [OF up mono _ _ _ _ issues _ r(1)])
    show hb1: "has_bundle ch1"
      using rotateAll_same [of ch lib e2] rot hb coherent coherent_keyed
      by (fastforce simp: all_same_names_def same_names_def keyed_def dest: same_services_bundle)
    have all: "clock_at lib e \<le> lib_now lib i \<and> lib_now lib i < NotAfter ca" if "i \<in> {ticks e2..<ticks e3}" for i
      using that t2 r(2) ca_left monoD [OF mono, of "ticks e" i] by (simp add: clock_at_def)
    show "clock_at lib e < NotAfter ca" using ca_left [of "ticks e2"] monoD [OF mono t2] r(2) t3
      by (simp add: clock_at_def)
    show "clock_at lib e < findRotationDeadlineForCerts ch1"
      by (rule new_certs_deadline [OF sp opt hb1 opts issue _ all]) (use own_ca in \<open>simp_all add: own_ca_def\<close>)
    show "\<forall>(n, ci) \<in> set (CertificatesIssued (chain_data ch1)). clock_at lib e < NotAfter (last (issue_certs ci))"
      using left [of _ _ "ticks e2"] monoD [OF mono t2] r(2) t3 by (fastforce simp: clock_at_def)
    show "clock_at lib e < findRotationDeadlineForCA ch1"
      unfolding findRotationDeadlineForCA_def
    proof (rule rotation_deadline_after)
      let ?css = "all_caCerts (CertificatesIssued (chain_data ch1))"
      have lst: "getLastCert cs = Some ca" if "cs \<in> set ?css" for cs
        using that issues by (fastforce simp: mem_all_caCerts own_issue_def)
      then show "[] \<notin> set ?css" by fastforce
      show "?css \<noteq> []" using hb1 by (fastforce simp: has_bundle_def all_caCerts_def)
      fix cs assume "cs \<in> set ?css"
      from lst [OF this] have "last cs = ca" by (auto simp: getLastCert_Some)
      moreover have "clock_at lib e < nextRotationDeadlineForCert ca (CAOverlapInterval (chain_Options ch1))"
        using sp opt opts own_ca fresh_ca_NotAfter [OF ca] monoD [OF mono t2]
        by (intro deadline_lower [of _ "CARotateInterval (chain_Options ch)"])
          (auto simp: spaced_def paced_def options_ok_def own_ca_def clock_at_def Second_def)
      ultimately show "clock_at lib e < nextRotationDeadlineForCert (last cs) (CAOverlapInterval (chain_Options ch1))"
        by simp
    qed
    show "clock_at lib e \<le> clock_at lib e3" using mono t2 t3 by (simp add: clock_at_def monoD)
  qed
  moreover have "t = minTime [findRotationDeadlineForCA ch', findRotationDeadlineForCerts ch',
      findCleanUpDeadlineForCACerts ch', findCleanUpDeadlineForCerts ch']" using r(4-6) by simp
  ultimately show ?thesis using renewedI [OF r(1)] r(3) opts by simp
qed

text \<open>While no rotation is due, the CA and the last certificates outlive an update.\<close>

lemma ca_outlives:
  assumes "Before (clock_at lib e) (findRotationDeadlineForCA ch)" "zero_time \<le> clock_at lib e"
    and "paced w (chain_Options ch)" "NotBefore ca \<le> NotAfter ca"
    and own: "\<forall>(n, ci) \<in> set (CertificatesIssued (chain_data ch)). own_issue lib ck ca ci"
  shows "clock_at lib e + w < NotAfter ca"
proof -
  let ?css = "all_caCerts (CertificatesIssued (chain_data ch))"
  let ?o = "CAOverlapInterval (chain_Options ch)"
  note f = rotation_deadline_future [OF assms(1) [unfolded Before_def findRotationDeadlineForCA_def] assms(2)]
  from f(1) obtain cs where cs: "cs \<in> set ?css" by (cases ?css) auto
  then have "getLastCert cs = Some ca" using own by (fastforce simp: mem_all_caCerts own_issue_def)
  then have "last cs = ca" by (auto simp: getLastCert_Some)
  with f(3) [OF cs] have "clock_at lib e < nextRotationDeadlineForCert ca ?o" by simp
  also have "\<dots> \<le> NotAfter ca - ?o + 2048"
    using assms(3,4) by (intro deadline_upper) (auto simp: paced_def options_ok_def)
  finally show ?thesis using assms(3) by (auto simp: paced_def)
qed

lemma certs_outlive:
  assumes "Before x (findRotationDeadlineForCerts ch)" "zero_time \<le> x"
    and "paced w (chain_Options ch)" "(n, ci) \<in> set (CertificatesIssued (chain_data ch))"
    and own: "own_issue lib ck ca ci"
  shows "x + w < NotAfter (last (issue_certs ci))"
proof -
  let ?o = "CertOverlapInterval (chain_Options ch)" and ?c = "last (issue_certs ci)"
  have "issue_certs ci \<in> set (all_certs (CertificatesIssued (chain_data ch)))"
    using assms(4) by (auto simp: mem_all_certs)
  then have "x < nextRotationDeadlineForCert ?c ?o"
    using rotation_deadline_future(3) [OF assms(1) [unfolded Before_def findRotationDeadlineForCerts_def] assms(2)]
    by blast
  also have "\<dots> \<le> NotAfter ?c - ?o + 2048"
  proof (rule deadline_upper)
    have "?c \<in> set (issue_certs ci)" using own by (simp add: own_issue_def)
    then show "NotBefore ?c \<le> NotAfter ?c" using own by (auto simp: own_issue_def own_cert_def)
  qed (use assms(3) in \<open>auto simp: paced_def options_ok_def\<close>)
  finally show ?thesis using assms(3) by (auto simp: paced_def)
qed

lemma update_none_own:
  assumes mono: "mono (lib_now lib)" and own: "own_data lib T (chain_data ch)" "T \<le> clock_at lib e"
    and opt: "paced w (chain_Options ch)" and z: "zero_time \<le> clock_at lib e"
    and ca_due: "Before (clock_at lib e) (findRotationDeadlineForCA ch)"
    and certs_due: "Before (clock_at lib (tick e)) (findRotationDeadlineForCerts ch)"
    and t2: "ticks e \<le> ticks e2"
    and up: "update_cleanup lib (findRotationDeadlineForCA ch) (findRotationDeadlineForCerts ch) ch e2
      = (Ok t, ch', e')"
    and fast: "clock_at lib e' \<le> clock_at lib e + w"
  shows "renewed lib (clock_at lib e) ch t ch' e'"
proof -
  from own obtain ck ca where keys: "CA_keyPair (Chain_CA (chain_data ch)) = \<lparr>Key = Some ck, Cert = Some ca\<rparr>"
    "coherent_ca lib (Chain_CA (chain_data ch))" and oc: "own_ca lib T ck ca"
    and issues: "\<forall>(n, ci) \<in> set (CertificatesIssued (chain_data ch)). own_issue lib ck ca ci"
    unfolding own_data_def by blast
  have later: "lib_now lib i \<le> clock_at lib e'" if "i < ticks e'" for i
    using that mono by (simp add: clock_at_def monoD)
  have tick: "clock_at lib e \<le> clock_at lib (tick e)" using mono by (simp add: clock_at_def monoD)
  have ca_left: "lib_now lib i < NotAfter ca" if "i < ticks e'" for i
    using ca_outlives [OF ca_due z opt _ issues] oc later [OF that] fast by (simp add: own_ca_def)
  have left: "\<forall>(n, ci) \<in> set (CertificatesIssued (chain_data ch)).
      \<forall>i < ticks e'. lib_now lib i < NotAfter (last (issue_certs ci))"
    using certs_outlive [OF certs_due _ opt] issues z tick later fast by fastforce
  note r = update_cleanup_own [OF up keys oc issues ca_left left]
  from r(2) t2 have "clock_at lib e \<le> clock_at lib e'" using mono by (simp add: clock_at_def monoD)
  with own(2) have "T \<le> clock_at lib e'" by simp
  moreover have "clock_at lib e < t" if "has_bundle ch"
  proof (rule own_cleanup_after [OF up mono _ _ _ _ issues _ r(1) that])
    show "clock_at lib e \<le> clock_at lib e2" using mono t2 by (simp add: clock_at_def monoD)
    show "clock_at lib e < findRotationDeadlineForCA ch" using ca_due by (simp add: Before_def)
    show "clock_at lib e < findRotationDeadlineForCerts ch" using certs_due tick by (simp add: Before_def)
    have "ticks e < ticks e'" using update_cleanup_ticks [OF up] t2 by simp
    with ca_left [of "ticks e"] left show "clock_at lib e < NotAfter ca"
      "\<forall>(n, ci) \<in> set (CertificatesIssued (chain_data ch)). clock_at lib e < NotAfter (last (issue_certs ci))"
      by (auto simp: clock_at_def)
  qed
  moreover have "t = minTime [findRotationDeadlineForCA ch', findRotationDeadlineForCerts ch',
      findCleanUpDeadlineForCACerts ch', findCleanUpDeadlineForCerts ch']" using r(4-6) by simp
  ultimately show ?thesis using renewedI [OF r(1) _ r(3)] by simp
qed

lemma update_certs_own:
  assumes mono: "mono (lib_now lib)" and own: "own_data lib T (chain_data ch)" "T \<le> clock_at lib e"
    and opt: "paced w (chain_Options ch)" and z: "zero_time \<le> clock_at lib e"
    and ca_due: "Before (clock_at lib e) (findRotationDeadlineForCA ch)"
    and t2: "ticks e \<le> ticks e2"
    and rot: "rotateCertsWithOverlap lib ch e2 = (Ok (), ch1, e3)"
    and up: "update_cleanup lib (findRotationDeadlineForCA ch) (findRotationDeadlineForCerts ch1) ch1 e3
      = (Ok t, ch', e')"
    and fast: "clock_at lib e' \<le> clock_at lib e + w"
  shows "renewed lib (clock_at lib e) ch t ch' e'"
proof -
  let ?d = "CertRotateInterval (chain_Options ch)"
  from own obtain ck ca where keys: "CA_keyPair (Chain_CA (chain_data ch)) = \<lparr>Key = Some ck, Cert = Some ca\<rparr>"
    "coherent_ca lib (Chain_CA (chain_data ch))" and oc: "own_ca lib T ck ca"
    and issues: "\<forall>(n, ci) \<in> set (CertificatesIssued (chain_data ch)). own_issue lib ck ca ci"
    unfolding own_data_def by blast
  note rr = rotateCerts_rotated [OF rot [unfolded rotateCertsWithOverlap_def]]
  have d: "w + Second \<le> ?d" "0 \<le> ?d" using opt by (auto simp: paced_def Second_def)
  have later: "lib_now lib i \<le> clock_at lib e'" if "i < ticks e'" for i
    using that mono by (simp add: clock_at_def monoD)
  have since: "clock_at lib e \<le> lib_now lib i" if "ticks e2 \<le> i" for i
    using that t2 mono by (simp add: clock_at_def monoD)
  then have before: "NotBefore ca \<le> lib_now lib i" if "ticks e2 \<le> i" for i
    using that oc own(2) by (fastforce simp: own_ca_def)
  have issue: "own_issue lib ck ca ci'
      \<and> new_cert lib {ticks e2..<ticks e3} ?d ca (last (issue_certs ci'))"
    if ci': "(n, ci') \<in> set (CertificatesIssued (chain_data ch1))" for n ci'
  proof -
    from gomap_rel_in2 [OF rr(3) ci'] obtain ci where
      ci: "(n, ci) \<in> set (CertificatesIssued (chain_data ch))"
      and ro: "rotated lib {ticks e2..<ticks e3} ?d \<lparr>Key = Some ck, Cert = Some ca\<rparr> (setKeyAppendCert lib) ci ci'"
      by (auto simp: keys)
    have "own_issue lib ck ca ci" using issues ci by auto
    from appended_own [OF this ro d(2)] before show ?thesis by auto
  qed
  have "clock_at lib e + w < NotAfter ca" using ca_outlives [OF ca_due z opt _ issues] oc by (simp add: own_ca_def)
  then have ca_left: "lib_now lib i < NotAfter ca" if "i < ticks e'" for i
    using later [OF that] fast by linarith
  have left: "\<forall>(n, ci) \<in> set (CertificatesIssued (chain_data ch1)).
      \<forall>i < ticks e'. lib_now lib i < NotAfter (last (issue_certs ci))"
  proof (intro ballI, clarify)
    fix n ci' i assume a: "(n, ci') \<in> set (CertificatesIssued (chain_data ch1))" "i < ticks e'"
    from issue [OF a(1)] obtain j where "ticks e2 \<le> j"
      "lib_now lib j + ?d - Second < NotAfter (last (issue_certs ci'))" by (auto simp: new_cert_def)
    with since [of j] later [OF a(2)] fast d show "lib_now lib i < NotAfter (last (issue_certs ci'))" by linarith
  qed
  have keys1: "CA_keyPair (Chain_CA (chain_data ch1)) = \<lparr>Key = Some ck, Cert = Some ca\<rparr>"
    "coherent_ca lib (Chain_CA (chain_data ch1))"
    and issues1: "\<forall>(n, ci) \<in> set (CertificatesIssued (chain_data ch1)). own_issue lib ck ca ci"
    using keys rr(2) issue by auto
  note r = update_cleanup_own [OF up keys1 oc issues1 ca_left left]
  from r(2) t2 rr(4) have "clock_at lib e \<le> clock_at lib e'" using mono by (simp add: clock_at_def monoD)
  with own(2) have "T \<le> clock_at lib e'" by simp
  moreover have "clock_at lib e < t" if sp: "spaced (chain_Options ch)" and hb: "has_bundle ch"
  proof (rule own_cleanup_after [OF up mono _ _ _ _ issues1 _ r(1)])
    show hb1: "has_bundle ch1"
      using rotateCerts_same [where f = "setKeyAppendCert lib" and ch = ch and lib = lib and e = e2]
        setKeyAppendCert_same rot hb
      unfolding rotateCertsWithOverlap_def by (metis fst_conv snd_conv same_services_bundle)
    show "clock_at lib e \<le> clock_at lib e3" using mono t2 rr(4) by (simp add: clock_at_def monoD)
    show "clock_at lib e < findRotationDeadlineForCA ch" using ca_due by (simp add: Before_def)
    have "ticks e < ticks e'" using update_cleanup_ticks [OF up] t2 rr(4) by simp
    with ca_left [of "ticks e"] left show "clock_at lib e < NotAfter ca"
      "\<forall>(n, ci) \<in> set (CertificatesIssued (chain_data ch1)). clock_at lib e < NotAfter (last (issue_certs ci))"
      by (auto simp: clock_at_def)
    have all: "clock_at lib e \<le> lib_now lib i \<and> lib_now lib i < NotAfter ca" if "i \<in> {ticks e2..<ticks e3}" for i
      using that since ca_left r(2) by auto
    show "clock_at lib e < findRotationDeadlineForCerts ch1"
      by (rule new_certs_deadline [OF sp opt hb1 rr(1) issue _ all]) (use oc in \<open>simp_all add: own_ca_def\<close>)
  qed
  moreover have "t = minTime [findRotationDeadlineForCA ch', findRotationDeadlineForCerts ch',
      findCleanUpDeadlineForCACerts ch', findCleanUpDeadlineForCerts ch']"
  proof -
    have "gomap_rel (\<lambda>ci ci'. issue_caCerts ci' = issue_caCerts ci)
        (CertificatesIssued (chain_data ch)) (CertificatesIssued (chain_data ch1))"
      using rr(3) by (rule gomap_rel_mono) (auto simp: rotated_def)
    from all_caCerts_cong [OF this] have "findRotationDeadlineForCA ch1 = findRotationDeadlineForCA ch"
      by (simp add: findRotationDeadlineForCA_def rr(1))
    with r(4-6) show ?thesis by simp
  qed
  ultimately show ?thesis using renewedI [OF r(1)] r(3) rr(1) by simp
qed

text \<open>The update as a whole.\<close>

lemma update_own:
  assumes "mono (lib_now lib)" "coherent_data lib (chain_data ch)" "paced w (chain_Options ch)"
    and "zero_time \<le> clock_at lib e" "update lib ch e = (Ok t, ch', e')"
    and fast: "clock_at lib e' \<le> clock_at lib e + w"
    and own: "full_rotation_due lib ch e \<or> own_data lib T (chain_data ch) \<and> T \<le> clock_at lib e"
  shows "renewed lib (clock_at lib e) ch t ch' e'"
  using assms(5)
proof (cases rule: update_Ok_cases)
  case (full e2 ch1 e3)
  then show ?thesis using full_rotation_own [OF assms(1-3) full(2-4)] fast by simp
next
  case (certs e2 ch1 e3)
  then show ?thesis using update_certs_own [OF assms(1) _ _ assms(3,4)] own fast by blast
next
  case (none e2)
  then show ?thesis using update_none_own [OF assms(1) _ _ assms(3,4)] own fast by blast
qed

end

end
