(* ===== verification/Chain_Storage.thy ===== *)
theory Chain_Storage
  imports Chain_Ownership
begin

text \<open>
  What is kept of a chain between two updates. Only PEM data is stored, in maps whose order is not
  defined; data that is the same as maps has the same owner and the same deadlines.
\<close>

section \<open>Stored data\<close>

text \<open>What is stored of a chain between two updates: the PEM data, not the decoded data.\<close>

definition stored_issue :: "CertificateIssue \<Rightarrow> CertificateIssue" where
  "stored_issue ci = ci\<lparr>issue_key := None, issue_certs := [], issue_caCerts := []\<rparr>"

definition stored :: "CertificateChainData \<Rightarrow> CertificateChainData" where
  "stored d = d\<lparr>CertificatesIssued := map_values stored_issue (CertificatesIssued d),
     Chain_CA := (Chain_CA d)\<lparr>CA_keyPair := \<lparr>Key = None, Cert = None\<rparr>\<rparr>\<rparr>"

lemma stored_stored [simp]: "stored (stored d) = stored d"
  by (simp add: stored_def stored_issue_def map_values_def comp_def case_prod_unfold)

lemma decode_stored: "decode_data lib (stored d) = decode_data lib d"
proof -
  have "decode_issue lib (stored_issue ci) = decode_issue lib ci" for ci
    by (auto simp: decode_issue_def stored_issue_def split: prod.split)
  moreover have "decode_ca lib (ca\<lparr>CA_keyPair := kp\<rparr>) = decode_ca lib ca" for ca kp
    by (auto simp: decode_ca_def split: prod.split)
  ultimately show ?thesis
    by (simp add: decode_data_def stored_def map_values_def comp_def case_prod_unfold)
qed

lemma stored_decode: "stored d1 = stored d \<Longrightarrow> decode_data lib d1 = decode_data lib d"
  by (metis decode_stored)

lemma coherent_data_decode: "coherent_data lib d \<Longrightarrow> decode_data lib d = d"
proof -
  assume c: "coherent_data lib d"
  then have "map_values (decode_issue lib) (CertificatesIssued d) = CertificatesIssued d"
    by (intro map_values_id) (auto simp: coherent_data_def coherent_def)
  with c show ?thesis by (simp add: decode_data_def coherent_data_def coherent_ca_def)
qed

lemma own_data_coherent: "own_data lib T d \<Longrightarrow> coherent_data lib d"
  unfolding own_data_def coherent_data_def own_issue_def by blast

lemma ParsePEM_Nil [simp]:
  "ParsePrivateKeyPEM lib [] = Fail (Errorf ''data does not contain a valid RSA or ECDSA private key'')"
  "ParseCertsPEM lib [] = ([], Some (Errorf ''data does not contain any valid RSA or ECDSA certificates''))"
  by (simp add: ParsePrivateKeyPEM.simps, simp add: ParseCertsPEM_def parse_certs_loop.simps)

text \<open>Owned data has all its PEM fields.\<close>

definition full_data :: "CertificateChainData \<Rightarrow> bool" where
  "full_data d \<longleftrightarrow> CA_KeyPEM (Chain_CA d) \<noteq> None \<and> CA_CertPEM (Chain_CA d) \<noteq> None
     \<and> (\<forall>(n, ci) \<in> set (CertificatesIssued d). KeyPEM ci \<noteq> None \<and> CertPEM ci \<noteq> None
         \<and> (\<forall>(k, b) \<in> set (CACertPEM ci). b \<noteq> None))"

lemma keyPairPem_present: "fst (snd (keyPairPemToKeypair lib k c)) \<noteq> [] \<Longrightarrow> k \<noteq> None \<and> c \<noteq> None"
  by (cases k; cases c) (auto simp: keyPairPemToKeypair_def split: result.splits prod.splits option.splits private_key.splits)

lemma own_data_full: "own_data lib T d \<Longrightarrow> full_data d"
proof -
  assume "own_data lib T d"
  then obtain ck ca where ca: "CA_keyPair (Chain_CA d) = \<lparr>Key = Some ck, Cert = Some ca\<rparr>" "decode_ca lib (Chain_CA d) = Chain_CA d"
    and issues: "\<forall>(n, ci) \<in> set (CertificatesIssued d). own_issue lib ck ca ci"
    unfolding own_data_def coherent_ca_def by blast
  have "Cert (CA_keyPair (decode_ca lib (Chain_CA d)))
      = getLastCert (fst (snd (keyPairPemToKeypair lib (CA_KeyPEM (Chain_CA d)) (CA_CertPEM (Chain_CA d)))))"
    by (simp add: decode_ca_def split: prod.split)
  with ca have "getLastCert (fst (snd (keyPairPemToKeypair lib (CA_KeyPEM (Chain_CA d)) (CA_CertPEM (Chain_CA d))))) = Some ca"
    by simp
  then have "fst (snd (keyPairPemToKeypair lib (CA_KeyPEM (Chain_CA d)) (CA_CertPEM (Chain_CA d)))) \<noteq> []"
    by (auto simp: getLastCert_def)
  then have "CA_KeyPEM (Chain_CA d) \<noteq> None \<and> CA_CertPEM (Chain_CA d) \<noteq> None" by (rule keyPairPem_present)
  moreover have "KeyPEM ci \<noteq> None \<and> CertPEM ci \<noteq> None \<and> (\<forall>(k, b) \<in> set (CACertPEM ci). b \<noteq> None)"
    if "(n, ci) \<in> set (CertificatesIssued d)" for n ci
  proof -
    from issues that have own: "own_issue lib ck ca ci" by auto
    then have dec: "decode_issue lib ci = ci" by (simp add: own_issue_def coherent_def)
    have "fst (snd (keyPairPemToKeypair lib (KeyPEM ci) (CertPEM ci))) = issue_certs ci"
      by (subst (3) dec [symmetric]) (simp add: decode_issue_def split: prod.split)
    then have "KeyPEM ci \<noteq> None \<and> CertPEM ci \<noteq> None" using own by (intro keyPairPem_present [of lib]) (simp add: own_issue_def)
    moreover have "b \<noteq> None" if "(k, b) \<in> set (CACertPEM ci)" for k b
    proof
      assume "b = None"
      have "(k, fst (ParseCertsPEM lib (bytes_of b))) \<in> set (issue_caCerts ci)"
        by (subst dec [symmetric]) (use that in \<open>auto simp: decode_issue_def mem_map_values split: prod.split\<close>)
      with own \<open>b = None\<close> show False by (auto simp: own_issue_def getLastCert_def)
    qed
    ultimately show ?thesis by blast
  qed
  ultimately show ?thesis unfolding full_data_def by blast
qed

section \<open>The same data in another order\<close>

definition distinct_keys :: "CertificateChainData \<Rightarrow> bool" where
  "distinct_keys d = distinct (map fst (CertificatesIssued d))"

definition same_issue :: "CertificateIssue \<Rightarrow> CertificateIssue \<Rightarrow> bool" where
  "same_issue ci ci' \<longleftrightarrow> Issue_Name ci = Issue_Name ci' \<and> IPs ci = IPs ci' \<and> Hostnames ci = Hostnames ci'
     \<and> KeyPEM ci = KeyPEM ci' \<and> CertPEM ci = CertPEM ci' \<and> map_of (CACertPEM ci) = map_of (CACertPEM ci')"

definition same_data :: "CertificateChainData \<Rightarrow> CertificateChainData \<Rightarrow> bool" where
  "same_data d d' \<longleftrightarrow> distinct_keys d \<and> distinct_bundles d
     \<and> CA_Name (Chain_CA d) = CA_Name (Chain_CA d') \<and> CA_KeyPEM (Chain_CA d) = CA_KeyPEM (Chain_CA d')
     \<and> CA_CertPEM (Chain_CA d) = CA_CertPEM (Chain_CA d')
     \<and> (\<forall>n. rel_option same_issue (map_of (CertificatesIssued d) n) (map_of (CertificatesIssued d') n))"

lemma same_issue_refl [simp, intro]: "same_issue ci ci"
  by (simp add: same_issue_def)

lemma same_data_stored: "distinct_keys d \<Longrightarrow> distinct_bundles d \<Longrightarrow> same_data (stored d) d"
  by (auto simp: same_data_def distinct_keys_def distinct_bundles_def stored_def stored_issue_def mem_map_values
      same_issue_def option.rel_map intro!: option.rel_refl) fastforce

lemma same_data_in:
  assumes "same_data d d'" "(n, ci) \<in> set (CertificatesIssued d)"
  obtains ci' where "(n, ci') \<in> set (CertificatesIssued d')" "same_issue ci ci'"
proof -
  have "map_of (CertificatesIssued d) n = Some ci" using assms by (simp add: same_data_def distinct_keys_def)
  moreover have "rel_option same_issue (map_of (CertificatesIssued d) n) (map_of (CertificatesIssued d') n)"
    using assms(1) by (simp add: same_data_def)
  ultimately obtain ci' where "map_of (CertificatesIssued d') n = Some ci'" "same_issue ci ci'"
    by (auto simp: option_rel_Some1)
  with that show ?thesis by (auto dest: map_of_SomeD)
qed

lemma same_data_in':
  assumes "same_data d d'" "distinct_keys d'" "(n, ci') \<in> set (CertificatesIssued d')"
  obtains ci where "(n, ci) \<in> set (CertificatesIssued d)" "same_issue ci ci'"
proof -
  have "map_of (CertificatesIssued d') n = Some ci'" using assms(2,3) by (simp add: distinct_keys_def)
  moreover have "rel_option same_issue (map_of (CertificatesIssued d) n) (map_of (CertificatesIssued d') n)"
    using assms(1) by (simp add: same_data_def)
  ultimately obtain ci where "map_of (CertificatesIssued d) n = Some ci" "same_issue ci ci'"
    by (auto simp: option_rel_Some2)
  with that show ?thesis by (auto dest: map_of_SomeD)
qed

text \<open>The decoded members of issued certificates that are the same.\<close>

lemma same_issue_decode:
  assumes "same_issue ci ci'" "coherent lib ci'"
  shows "issue_certs (decode_issue lib ci) = issue_certs ci'"
    and "distinct (map fst (CACertPEM ci)) \<Longrightarrow> set (issue_caCerts (decode_issue lib ci)) = set (issue_caCerts ci')"
proof -
  have ci': "decode_issue lib ci' = ci'" "distinct (map fst (CACertPEM ci'))" using assms(2) by (simp_all add: coherent_def)
  have "issue_certs (decode_issue lib ci) = issue_certs (decode_issue lib ci')"
    using assms(1) by (auto simp: same_issue_def decode_issue_def split: prod.split)
  then show "issue_certs (decode_issue lib ci) = issue_certs ci'" using ci'(1) by simp
  assume d: "distinct (map fst (CACertPEM ci))"
  have "set (CACertPEM ci) = set (CACertPEM ci')"
    using assms(1) map_of_inject_set [OF d ci'(2)] by (simp add: same_issue_def)
  then have "set (issue_caCerts (decode_issue lib ci)) = set (issue_caCerts (decode_issue lib ci'))"
    by (simp add: decode_issue_def set_map_values split: prod.split)
  with ci'(1) show "set (issue_caCerts (decode_issue lib ci)) = set (issue_caCerts ci')" by simp
qed

lemma same_data_own:
  assumes "same_data d d'" "own_data lib T d'"
  shows "own_data lib T (decode_data lib d)"
proof -
  from assms(2) obtain ck ca where ca: "CA_keyPair (Chain_CA d') = \<lparr>Key = Some ck, Cert = Some ca\<rparr>"
    "coherent_ca lib (Chain_CA d')" "own_ca lib T ck ca"
    and issues: "\<forall>(n, ci) \<in> set (CertificatesIssued d'). own_issue lib ck ca ci" unfolding own_data_def by blast
  have "CA_keyPair (decode_ca lib (Chain_CA d)) = CA_keyPair (decode_ca lib (Chain_CA d'))"
    using assms(1) by (auto simp: same_data_def decode_ca_def split: prod.split)
  with ca(1,2) have keys: "CA_keyPair (decode_ca lib (Chain_CA d)) = \<lparr>Key = Some ck, Cert = Some ca\<rparr>"
    by (simp add: coherent_ca_def)
  have "own_issue lib ck ca (decode_issue lib ci)" if ci: "(n, ci) \<in> set (CertificatesIssued d)" for n ci
  proof -
    obtain ci' where ci': "(n, ci') \<in> set (CertificatesIssued d')" "same_issue ci ci'" using same_data_in [OF assms(1) ci] .
    then have own: "own_issue lib ck ca ci'" using issues by auto
    then have coh: "coherent lib ci'" by (simp add: own_issue_def)
    have dist: "distinct (map fst (CACertPEM ci))" using assms(1) ci by (auto simp: same_data_def distinct_bundles_def)
    then have "coherent lib (decode_issue lib ci)" by (simp add: coherent_def decode_issue_idem)
    with own ci'(2) same_issue_decode [OF ci'(2) coh] dist show ?thesis
      by (auto simp: own_issue_def same_issue_def)
  qed
  then have "\<forall>(n, ci) \<in> set (CertificatesIssued (decode_data lib d)). own_issue lib ck ca ci"
    by (auto simp: decode_data_def mem_map_values)
  with keys ca(3) show ?thesis by (auto simp: own_data_def decode_data_def coherent_ca_def decode_ca_idem)
qed

lemma same_data_hostnames: "same_data d d' \<Longrightarrow> hostnames_ok lib d' \<Longrightarrow> hostnames_ok lib d"
  unfolding hostnames_ok_def by (clarify, erule (1) same_data_in) (force simp: same_issue_def)

text \<open>The deadlines depend only on the sets of certificate lists.\<close>

lemma minTime_set: "set ts = set us \<Longrightarrow> minTime ts = minTime us"
  by (cases "ts = []"; cases "us = []") (simp_all add: minTime_Min)

lemma rotation_deadline_set:
  assumes "set css = set css'"
  shows "(case last_deadlines overlap css of None \<Rightarrow> zero_time | Some ds \<Rightarrow> minTime ds)
    = (case last_deadlines overlap css' of None \<Rightarrow> zero_time | Some ds \<Rightarrow> minTime ds)"
proof (cases "[] \<in> set css")
  case True
  then have "last_deadlines overlap css = None" "last_deadlines overlap css' = None"
    using assms by (simp_all add: last_deadlines_None)
  then show ?thesis by simp
next
  case False
  with assms show ?thesis by (auto simp: last_deadlines_Some intro!: minTime_set)
qed

lemma next_deadline_set:
  assumes "set (all_caCerts (CertificatesIssued d)) = set (all_caCerts (CertificatesIssued d'))"
    and "set (all_certs (CertificatesIssued d)) = set (all_certs (CertificatesIssued d'))"
  shows "next_deadline \<lparr>chain_Options = o', chain_data = d\<rparr> = next_deadline \<lparr>chain_Options = o', chain_data = d'\<rparr>"
proof -
  have clean: "minTime (map NotAfter (concat css)) = minTime (map NotAfter (concat css'))" if "set css = set css'" for css css'
    using that by (intro minTime_set) simp
  show ?thesis
    by (simp add: next_deadline_def findRotationDeadlineForCA_def findRotationDeadlineForCerts_def
        findCleanUpDeadlineForCACerts_def findCleanUpDeadlineForCerts_def findCleanUpDeadlineForCertList_def
        rotation_deadline_set [OF assms(1)] rotation_deadline_set [OF assms(2)] clean [OF assms(1)] clean [OF assms(2)])
qed

lemma same_data_deadline:
  assumes "same_data d d'" "distinct_keys d'" "coherent_data lib d'"
  shows "next_deadline \<lparr>chain_Options = o', chain_data = decode_data lib d\<rparr>
    = next_deadline \<lparr>chain_Options = o', chain_data = d'\<rparr>"
proof (rule next_deadline_set)
  have same: "issue_certs (decode_issue lib ci) = issue_certs ci'
      \<and> set (issue_caCerts (decode_issue lib ci)) = set (issue_caCerts ci')"
    if "(n, ci) \<in> set (CertificatesIssued d)" "(n, ci') \<in> set (CertificatesIssued d')" "same_issue ci ci'" for n ci ci'
    using that same_issue_decode [OF that(3), of lib] assms(1,3)
    by (auto simp: coherent_data_def same_data_def distinct_bundles_def)
  have l: "\<exists>ci'. (n, ci') \<in> set (CertificatesIssued d') \<and> issue_certs (decode_issue lib ci) = issue_certs ci'
      \<and> set (issue_caCerts (decode_issue lib ci)) = set (issue_caCerts ci')"
    if ci: "(n, ci) \<in> set (CertificatesIssued d)" for n ci
  proof -
    obtain ci' where "(n, ci') \<in> set (CertificatesIssued d')" "same_issue ci ci'" by (rule same_data_in [OF assms(1) ci])
    with same [OF ci] show ?thesis by blast
  qed
  have r: "\<exists>ci. (n, ci) \<in> set (CertificatesIssued d) \<and> issue_certs (decode_issue lib ci) = issue_certs ci'
      \<and> set (issue_caCerts (decode_issue lib ci)) = set (issue_caCerts ci')"
    if ci': "(n, ci') \<in> set (CertificatesIssued d')" for n ci'
  proof -
    obtain ci where "(n, ci) \<in> set (CertificatesIssued d)" "same_issue ci ci'" by (rule same_data_in' [OF assms(1,2) ci'])
    with same [OF _ ci'] show ?thesis by blast
  qed
  show "set (all_caCerts (CertificatesIssued (decode_data lib d))) = set (all_caCerts (CertificatesIssued d'))"
  proof (rule set_eqI)
    fix cs
    have "cs \<in> set (all_caCerts (CertificatesIssued (decode_data lib d))) \<longleftrightarrow>
        (\<exists>n ci k. (n, ci) \<in> set (CertificatesIssued d) \<and> (k, cs) \<in> set (issue_caCerts (decode_issue lib ci)))"
      by (auto simp: mem_all_caCerts decode_data_def mem_map_values)
    also have "\<dots> \<longleftrightarrow> (\<exists>n ci k. (n, ci) \<in> set (CertificatesIssued d') \<and> (k, cs) \<in> set (issue_caCerts ci))" (is "?l \<longleftrightarrow> ?r")
    proof
      assume ?l
      then obtain n ci k where "(n, ci) \<in> set (CertificatesIssued d)" "(k, cs) \<in> set (issue_caCerts (decode_issue lib ci))"
        by blast
      with l [of n ci] show ?r by blast
    next
      assume ?r
      then obtain n ci k where "(n, ci) \<in> set (CertificatesIssued d')" "(k, cs) \<in> set (issue_caCerts ci)" by blast
      with r [of n ci] show ?l by blast
    qed
    finally show "cs \<in> set (all_caCerts (CertificatesIssued (decode_data lib d))) \<longleftrightarrow> cs \<in> set (all_caCerts (CertificatesIssued d'))"
      by (simp only: mem_all_caCerts)
  qed
  show "set (all_certs (CertificatesIssued (decode_data lib d))) = set (all_certs (CertificatesIssued d'))"
  proof (rule set_eqI)
    fix cs
    have "cs \<in> set (all_certs (CertificatesIssued (decode_data lib d))) \<longleftrightarrow>
        (\<exists>n ci. (n, ci) \<in> set (CertificatesIssued d) \<and> cs = issue_certs (decode_issue lib ci))"
      by (auto simp: mem_all_certs decode_data_def mem_map_values)
    then show "cs \<in> set (all_certs (CertificatesIssued (decode_data lib d))) \<longleftrightarrow> cs \<in> set (all_certs (CertificatesIssued d'))"
      unfolding mem_all_certs using l r by metis
  qed
qed

end
