(* ===== verification/Chain_Lifecycle.thy ===== *)
theory Chain_Lifecycle
  imports Chain_Storage Services
begin

text \<open>
  The life of a chain: owned data verifies until its clean-up deadlines, an update never touches
  what identifies the services, and so the data that successive updates maintain verifies until
  the time each of them returns.
\<close>

section \<open>Owned data verifies\<close>

context x509_lib
begin

lemma VerifyTLS_own:
  assumes own: "own_issue lib ck ca ci" and ca: "self_signed lib ca ck" "signing_ca ca ck"
    and host: "Hostnames ci \<noteq> []" "hostname_ok lib (hd (Hostnames ci))"
    and pem: "(name, pem) \<in> set (CACertPEM ci)"
    and valid: "valid_at (clock_at lib e) ca" "valid_at (clock_at lib e) (hd (issue_certs ci))"
  shows "VerifyTLS lib (bytes_of (CertPEM ci)) (bytes_of (KeyPEM ci)) (bytes_of pem) e = (Ok (), tick e)"
proof -
  have coh: "coherent lib ci" and ne: "issue_certs ci \<noteq> []" using own by (auto simp: own_issue_def)
  then obtain c cs where cs: "issue_certs ci = c # cs" by (cases "issue_certs ci") auto
  obtain k where p: "ParsePrivateKeyPEM lib (bytes_of (KeyPEM ci)) = Ok (RSA_key k)"
    "ParseCertsPEM lib (bytes_of (CertPEM ci)) = (c # cs, None)"
    using coh ne cs by (cases rule: keyPairPemToKeypair_cases [of lib "KeyPEM ci" "CertPEM ci"])
      (auto simp: coherent_iff)
  let ?pool = "AppendCertsFromPEM lib [] (bytes_of pem)"
  have "(name, fst (ParseCertsPEM lib (bytes_of pem))) \<in> set (issue_caCerts ci)"
    using coh pem by (auto simp: coherent_iff mem_map_values)
  then have "getLastCert (fst (ParseCertsPEM lib (bytes_of pem))) = Some ca"
    using own by (auto simp: own_issue_def)
  then have "ca \<in> set (fst (ParseCertsPEM lib (bytes_of pem)))" by (auto simp: getLastCert_Some)
  then have pool: "ca \<in> set ?pool" using ParseCertsPEM_pool by blast
  have oc: "own_cert lib ck ca (Hostnames ci) c" using own cs by (simp add: own_issue_def)
  obtain h hs where h: "Hostnames ci = h # hs" using host(1) by (cases "Hostnames ci") auto
  have "lib_Verify lib ?pool h (clock_at lib e) c = None"
    using verify_issued [OF ca _ pool valid(1)] oc valid(2) host cs h by (simp add: own_cert_def)
  with p pool oc h show ?thesis by (auto simp: VerifyTLS_def Let_def own_cert_def)
qed

lemma verify_bundles_own:
  assumes own: "own_issue lib ck ca ci" and ca: "self_signed lib ca ck" "signing_ca ca ck"
    and host: "Hostnames ci \<noteq> []" "hostname_ok lib (hd (Hostnames ci))"
    and "set m \<subseteq> set (CACertPEM ci)" "verify_bundles lib (Some ca) ci m e = (r, e')"
    and "m \<noteq> [] \<Longrightarrow> \<forall>i \<in> {ticks e..ticks e'}. valid_at (lib_now lib i) ca \<and> valid_at (lib_now lib i) (hd (issue_certs ci))"
  shows "r = Ok ()"
  using assms(6-8)
proof (induction m arbitrary: e)
  case (Cons kv m)
  obtain name pem where kv: "kv = (name, pem)" by fastforce
  have coh: "coherent lib ci" using own by (simp add: own_issue_def)
  have pem: "(name, pem) \<in> set (CACertPEM ci)" using Cons.prems(1) kv by simp
  then have "map_of (CACertPEM ci) name = Some pem" using coh by (simp add: coherent_iff)
  then have mp: "map_of (issue_caCerts ci) name = Some (fst (ParseCertsPEM lib (bytes_of pem)))"
    using coh by (auto simp: coherent_iff)
  then have "getLastCert (fst (ParseCertsPEM lib (bytes_of pem))) = Some ca"
    using own by (auto simp: own_issue_def dest!: map_of_SomeD)
  with mp have step: "verify_bundles lib (Some ca) ci (kv # m) e =
     (case VerifyTLS lib (bytes_of (CertPEM ci)) (bytes_of (KeyPEM ci)) (bytes_of pem) e of
        (Panic s, e1) \<Rightarrow> (Panic s, e1)
      | (Fail er, e1) \<Rightarrow> (Fail (Wrap er (''Failed to verify certificate '' @ Issue_Name ci
            @ '' with named CA '' @ name)), e1)
      | (Ok _, e1) \<Rightarrow> verify_bundles lib (Some ca) ci m e1)"
    by (simp add: kv)
  have "ticks e \<le> ticks e'" using Cons.prems(2) by (rule verify_bundles_ticks)
  then have "VerifyTLS lib (bytes_of (CertPEM ci)) (bytes_of (KeyPEM ci)) (bytes_of pem) e = (Ok (), tick e)"
    using Cons.prems(3) by (intro VerifyTLS_own [OF own ca host pem]) (auto simp: clock_at_def)
  with step Cons.prems(2) have "verify_bundles lib (Some ca) ci m (tick e) = (r, e')" by simp
  then show ?case using Cons.IH [of "tick e"] Cons.prems by auto
qed simp

lemma verify_issues_own:
  assumes ca: "self_signed lib ca ck" "signing_ca ca ck"
    and "verify_issues lib (Some ca) m e = (r, e')"
    and "\<forall>(n, ci) \<in> set m. own_issue lib ck ca ci \<and> Hostnames ci \<noteq> [] \<and> hostname_ok lib (hd (Hostnames ci))
      \<and> (CACertPEM ci \<noteq> [] \<longrightarrow> (\<forall>i \<in> {ticks e..ticks e'}.
          valid_at (lib_now lib i) ca \<and> valid_at (lib_now lib i) (hd (issue_certs ci))))"
  shows "r = Ok ()"
  using assms(3,4)
proof (induction m arbitrary: e)
  case (Cons kv m)
  obtain n ci where kv: "kv = (n, ci)" by fastforce
  obtain r1 e1 where v: "verify_bundles lib (Some ca) ci (CACertPEM ci) e = (r1, e1)" by fastforce
  note t1 = verify_bundles_ticks [OF v]
  have le: "ticks e1 \<le> ticks e'"
  proof (cases r1)
    case (Ok u)
    then show ?thesis using Cons.prems(1) v kv verify_issues_ticks by auto
  qed (use Cons.prems(1) v kv in auto)
  have "r1 = Ok ()"
    by (rule verify_bundles_own [OF _ ca _ _ order_refl v]) (use Cons.prems(2) kv le t1 in auto)
  then have "verify_issues lib (Some ca) m e1 = (r, e')" using Cons.prems(1) v kv by simp
  then show ?case by (rule Cons.IH) (use Cons.prems(2) t1 in auto)
qed simp

text \<open>The clean-up deadlines bound the life of every certificate of the chain.\<close>

lemma verifyTLS_own:
  assumes mono: "mono (lib_now lib)" and own: "own_data lib T (chain_data ch)"
    and host: "hostnames_ok lib (chain_data ch)"
    and v: "verifyTLS lib ch e = (r, e')" and T: "T \<le> clock_at lib e"
    and ca_left: "clock_at lib e' < findCleanUpDeadlineForCACerts ch"
    and certs_left: "clock_at lib e' < findCleanUpDeadlineForCerts ch"
  shows "r = Ok ()"
proof -
  let ?m = "CertificatesIssued (chain_data ch)"
  from own obtain ck ca where keys: "CA_keyPair (Chain_CA (chain_data ch)) = \<lparr>Key = Some ck, Cert = Some ca\<rparr>"
    and oc: "own_ca lib T ck ca" and issues: "\<forall>(n, ci) \<in> set ?m. own_issue lib ck ca ci"
    unfolding own_data_def by blast
  have vi: "verify_issues lib (Some ca) ?m e = (r, e')" using v keys by (simp add: verifyTLS_def)
  have rng: "T \<le> lib_now lib i" "lib_now lib i \<le> clock_at lib e'" if "i \<in> {ticks e..ticks e'}" for i
    using that T mono order_trans [of T "clock_at lib e" "lib_now lib i"] by (auto simp: clock_at_def monoD)
  have left: "clock_at lib e' < NotAfter c"
    if "css = all_caCerts ?m \<or> css = all_certs ?m" "cs \<in> set css" "c \<in> set cs" for css cs c
  proof -
    have "clock_at lib e' < minTime (map NotAfter (concat css))"
      using that(1) ca_left certs_left
      by (auto simp: findCleanUpDeadlineForCACerts_def findCleanUpDeadlineForCerts_def findCleanUpDeadlineForCertList_def)
    also have "\<dots> \<le> NotAfter c" using that(2,3) by (intro minTime_le) auto
    finally show ?thesis .
  qed
  have "CACertPEM ci \<noteq> [] \<longrightarrow> (\<forall>i \<in> {ticks e..ticks e'}.
      valid_at (lib_now lib i) ca \<and> valid_at (lib_now lib i) (hd (issue_certs ci)))"
    if ci: "(n, ci) \<in> set ?m" for n ci
  proof (intro impI ballI)
    fix i assume "CACertPEM ci \<noteq> []" and i: "i \<in> {ticks e..ticks e'}"
    have oi: "own_issue lib ck ca ci" using issues ci by auto
    then have "map fst (issue_caCerts ci) = map fst (CACertPEM ci)"
      using own_issue_keyed by (auto simp: keyed_def)
    with \<open>CACertPEM ci \<noteq> []\<close> have "issue_caCerts ci \<noteq> []" by auto
    then obtain k cs where cs: "(k, cs) \<in> set (issue_caCerts ci)" by (cases "issue_caCerts ci") auto
    then have "getLastCert cs = Some ca" using oi by (auto simp: own_issue_def)
    then have "ca \<in> set cs" by (auto simp: getLastCert_Some)
    moreover have "cs \<in> set (all_caCerts ?m)" using ci cs by (auto simp: mem_all_caCerts)
    ultimately have a: "clock_at lib e' < NotAfter ca" using left by blast
    have h: "hd (issue_certs ci) \<in> set (issue_certs ci)" using oi by (simp add: own_issue_def)
    moreover have "issue_certs ci \<in> set (all_certs ?m)" using ci by (auto simp: mem_all_certs)
    ultimately have b: "clock_at lib e' < NotAfter (hd (issue_certs ci))" using left by blast
    have "NotBefore (hd (issue_certs ci)) \<le> NotBefore ca" using oi h by (auto simp: own_issue_def own_cert_def)
    with a b rng [OF i] oc show "valid_at (lib_now lib i) ca \<and> valid_at (lib_now lib i) (hd (issue_certs ci))"
      by (auto simp: valid_at_def own_ca_def)
  qed
  with issues host have "\<forall>(n, ci) \<in> set ?m. own_issue lib ck ca ci \<and> Hostnames ci \<noteq> [] \<and> hostname_ok lib (hd (Hostnames ci))
      \<and> (CACertPEM ci \<noteq> [] \<longrightarrow> (\<forall>i \<in> {ticks e..ticks e'}.
          valid_at (lib_now lib i) ca \<and> valid_at (lib_now lib i) (hd (issue_certs ci))))"
    by (auto simp: hostnames_ok_def)
  then show ?thesis using oc by (intro verify_issues_own [OF _ _ vi]) (auto simp: own_ca_def)
qed

end

section \<open>Entry points\<close>

lemma newChain_Ok:
  "newChain lib options d = Ok ch \<longleftrightarrow> options_ok (withDefaults options)
     \<and> ch = \<lparr>chain_Options = withDefaults options, chain_data = decode_data lib d\<rparr>"
  by (cases rule: SetDefaultsAndValidate_cases [of options]) (auto simp: newChain_def)

lemma Update_Ok:
  "Update lib options d e = (Ok t, d', e') \<longleftrightarrow> options_ok (withDefaults options)
     \<and> (\<exists>ch'. update lib \<lparr>chain_Options = withDefaults options, chain_data = decode_data lib d\<rparr> e = (Ok t, ch', e')
          \<and> d' = chain_data ch')"
  by (cases rule: SetDefaultsAndValidate_cases [of options])
    (auto simp: Update_def newChain_def split: prod.splits)

lemma decode_same_names: "all_same_names \<lparr>chain_Options = o', chain_data = decode_data lib d\<rparr>"
  by (auto simp: all_same_names_def decode_data_def mem_map_values same_names_def decode_issue_def split: prod.split)

text \<open>An update keeps the host names and the names of the bundles.\<close>

lemma update_keeps_hosts:
  assumes "update lib \<lparr>chain_Options = o', chain_data = decode_data lib d\<rparr> e = (r, ch', e')"
  shows "hostnames_ok lib' d \<Longrightarrow> hostnames_ok lib' (chain_data ch')"
    "distinct_bundles d \<Longrightarrow> distinct_bundles (chain_data ch')"
    "distinct_keys d \<Longrightarrow> distinct_keys (chain_data ch')"
proof -
  have rel: "gomap_rel same_service (map_values (decode_issue lib) (CertificatesIssued d)) (CertificatesIssued (chain_data ch'))"
    using update_same [OF decode_same_names [of o' lib d], of lib e] assms by (simp add: same_services_def decode_data_def)
  have ex: "\<exists>ci0. (n, ci0) \<in> set (CertificatesIssued d) \<and> same_service (decode_issue lib ci0) ci"
    if "(n, ci) \<in> set (CertificatesIssued (chain_data ch'))" for n ci
    using gomap_rel_in2 [OF rel that] by (auto simp: mem_map_values)
  show "hostnames_ok lib' d \<Longrightarrow> hostnames_ok lib' (chain_data ch')"
    using ex unfolding hostnames_ok_def same_service_def by fastforce
  show "distinct_bundles d \<Longrightarrow> distinct_bundles (chain_data ch')"
    using ex unfolding distinct_bundles_def same_service_def by fastforce
  show "distinct_keys d \<Longrightarrow> distinct_keys (chain_data ch')"
    using gomap_rel_keys [OF rel] by (simp add: distinct_keys_def)
qed

section \<open>Maintained data\<close>

text \<open>The clock never goes back, and shows a time after the zero time.\<close>

definition clock_ok :: "go_lib \<Rightarrow> bool" where
  "clock_ok lib \<longleftrightarrow> mono (lib_now lib) \<and> zero_time \<le> lib_now lib 0"

text \<open>Data after an update at which everything had to be rotated, whatever it held before, and
  any number of further updates, each of what is stored of the previous one, in any order. \<open>t\<close> is the time
  the last update returned and \<open>e\<close> the environment it left; an update takes at most \<open>w\<close>.\<close>

inductive maintained ::
  "go_lib \<Rightarrow> duration \<Rightarrow> Options \<Rightarrow> CertificateChainData \<Rightarrow> time \<Rightarrow> env \<Rightarrow> bool"
  for lib w options where
  rotated_all: "distinct_keys d0 \<Longrightarrow> distinct_bundles d0 \<Longrightarrow> hostnames_ok lib d0 \<Longrightarrow>
    newChain lib options d0 = Ok ch \<Longrightarrow> full_rotation_due lib ch e0 \<Longrightarrow>
    Update lib options d0 e0 = (Ok t, d, e) \<Longrightarrow> clock_at lib e \<le> clock_at lib e0 + w \<Longrightarrow>
    maintained lib w options d t e"
| updated: "maintained lib w options d t e \<Longrightarrow> same_data d1 d \<Longrightarrow> ticks e \<le> ticks e1 \<Longrightarrow>
    Update lib options d1 e1 = (Ok t', d', e') \<Longrightarrow> clock_at lib e' \<le> clock_at lib e1 + w \<Longrightarrow>
    maintained lib w options d' t' e'"

definition kept :: "go_lib \<Rightarrow> Options \<Rightarrow> CertificateChainData \<Rightarrow> time \<Rightarrow> env \<Rightarrow> bool" where
  "kept lib options d t e \<longleftrightarrow> own_data lib (clock_at lib e) d \<and> hostnames_ok lib d \<and> distinct_keys d
     \<and> t = next_deadline \<lparr>chain_Options = withDefaults options, chain_data = d\<rparr>"

lemma renewed_kept:
  assumes "renewed lib x \<lparr>chain_Options = withDefaults options, chain_data = d0\<rparr> t ch' e'"
    and "hostnames_ok lib (chain_data ch')" "distinct_keys (chain_data ch')"
  shows "kept lib options (chain_data ch') t e'"
  using assms
  by (cases ch') (auto simp: renewed_def kept_def)

lemma hostnames_ok_decode [simp]: "hostnames_ok lib' (decode_data lib d) = hostnames_ok lib' d"
  by (auto simp: hostnames_ok_def decode_data_def set_map_values)

lemma kept_same_data:
  assumes "kept lib options d t e" "same_data d1 d"
  shows "kept lib options (decode_data lib d1) t e"
proof -
  have own: "own_data lib (clock_at lib e) d" "hostnames_ok lib d" "distinct_keys d"
    and t: "t = next_deadline \<lparr>chain_Options = withDefaults options, chain_data = d\<rparr>"
    using assms(1) by (simp_all add: kept_def)
  have "distinct_keys (decode_data lib d1)" using assms(2) by (simp add: same_data_def distinct_keys_def decode_data_def)
  with own t same_data_own [OF assms(2) own(1)] same_data_hostnames [OF assms(2) own(2)]
    same_data_deadline [OF assms(2) own(3) own_data_coherent [OF own(1)]]
  show ?thesis by (simp add: kept_def)
qed

context x509_lib
begin

lemma maintained_kept:
  assumes "maintained lib w options d t e" and clock: "clock_ok lib" and opt: "paced w (withDefaults options)"
  shows "kept lib options d t e"
  using assms(1)
proof (induction rule: maintained.induct)
  case (rotated_all d0 ch e0 t d e)
  from rotated_all(4) have ch: "ch = \<lparr>chain_Options = withDefaults options, chain_data = decode_data lib d0\<rparr>"
    by (simp add: newChain_Ok)
  with rotated_all(6) obtain ch' where up: "update lib ch e0 = (Ok t, ch', e)" "d = chain_data ch'"
    by (auto simp: Update_Ok)
  have "renewed lib (clock_at lib e0) ch t ch' e"
  proof (rule update_own [OF _ _ _ _ up(1) rotated_all(7)])
    show "zero_time \<le> clock_at lib e0" using clock monoD [of "lib_now lib" 0 "ticks e0"]
      by (simp add: clock_ok_def clock_at_def)
  qed (use clock opt rotated_all ch coherent_decode in \<open>auto simp: clock_ok_def\<close>)
  with up update_keeps_hosts(1,3) [OF up(1) [unfolded ch]] rotated_all(1,3) ch show ?case
    by (auto intro: renewed_kept)
next
  case (updated d t e d1 e1 t' d' e')
  define ch where "ch = \<lparr>chain_Options = withDefaults options, chain_data = decode_data lib d1\<rparr>"
  have k: "kept lib options (chain_data ch) t e" using kept_same_data [OF updated.IH updated(2)] by (simp add: ch_def)
  then have own: "own_data lib (clock_at lib e) (chain_data ch)" by (simp add: kept_def)
  from updated(4) obtain ch' where up: "update lib ch e1 = (Ok t', ch', e')" "d' = chain_data ch'"
    by (auto simp: Update_Ok ch_def)
  have le: "clock_at lib e \<le> clock_at lib e1"
    using clock updated(3) by (simp add: clock_ok_def clock_at_def monoD)
  have "zero_time \<le> clock_at lib e1" using clock monoD [of "lib_now lib" 0 "ticks e1"]
    by (simp add: clock_ok_def clock_at_def)
  then have "renewed lib (clock_at lib e1) ch t' ch' e'"
    using update_own [OF _ _ _ _ up(1) updated(5)] clock opt own own_data_coherent [OF own] le
    by (auto simp: clock_ok_def ch_def)
  moreover have "hostnames_ok lib d'" "distinct_keys d'"
    using update_keeps_hosts(1,3) [OF up(1) [unfolded ch_def]] up(2) k updated(2)
    by (auto simp: kept_def ch_def same_data_def)
  ultimately show ?case using up by (auto simp: ch_def intro: renewed_kept)
qed

lemma maintained_stored:
  assumes "maintained lib w options d t e" and clock: "clock_ok lib" and opt: "paced w (withDefaults options)"
  shows "same_data (stored d) d"
proof -
  have k: "own_data lib (clock_at lib e) d" "distinct_keys d"
    using maintained_kept [OF assms] by (simp_all add: kept_def)
  have "distinct_bundles d"
    using own_data_coherent [OF k(1)] by (auto simp: coherent_data_def coherent_def distinct_bundles_def)
  then show ?thesis using k(2) by (intro same_data_stored)
qed

text \<open>Maintained data, decoded or as it is stored, verifies until the next update is due.\<close>

lemma maintained_Verify:
  assumes "maintained lib w options d t e" and clock: "clock_ok lib" and opt: "paced w (withDefaults options)"
    and "same_data d1 d" and later: "ticks e \<le> ticks e1"
    and v: "Verify lib options d1 e1 = (r, d2, e2)" and early: "clock_at lib e2 < t"
  shows "r = Ok ()"
proof -
  define ch where "ch = \<lparr>chain_Options = withDefaults options, chain_data = decode_data lib d1\<rparr>"
  have k: "kept lib options (chain_data ch) t e"
    using kept_same_data [OF maintained_kept [OF assms(1) clock opt] assms(4)] by (simp add: ch_def)
  have "newChain lib options d1 = Ok ch" using opt by (simp add: newChain_Ok ch_def paced_def)
  with v have vt: "verifyTLS lib ch e1 = (r, e2)" by (auto simp: Verify_def split: prod.splits)
  have "clock_at lib e \<le> clock_at lib e1"
    using clock later by (simp add: clock_ok_def clock_at_def monoD)
  then show ?thesis
    using verifyTLS_own [OF _ _ _ vt] k clock early by (auto simp: clock_ok_def kept_def ch_def less_next_deadline)
qed

lemma Update_future:
  assumes clock: "clock_ok lib" and opt: "paced w (withDefaults options)" "spaced (withDefaults options)"
    and ch: "newChain lib options d1 = Ok ch" "has_bundle ch"
    and own: "(distinct_bundles d1 \<and> full_rotation_due lib ch e1)
      \<or> (\<exists>d t e. maintained lib w options d t e \<and> same_data d1 d \<and> ticks e \<le> ticks e1)"
    and up: "Update lib options d1 e1 = (Ok t', d', e')" "clock_at lib e' \<le> clock_at lib e1 + w"
  shows "clock_at lib e1 < t'"
proof -
  have ch': "chain_Options ch = withDefaults options" "chain_data ch = decode_data lib d1"
    using ch(1) by (auto simp: newChain_Ok)
  from up(1) ch(1) obtain ch1 where u: "update lib ch e1 = (Ok t', ch1, e')" by (auto simp: Update_def split: prod.splits)
  have "zero_time \<le> clock_at lib e1" using clock monoD [of "lib_now lib" 0 "ticks e1"]
    by (simp add: clock_ok_def clock_at_def)
  moreover have "\<exists>T. coherent_data lib (chain_data ch)
      \<and> (full_rotation_due lib ch e1 \<or> own_data lib T (chain_data ch) \<and> T \<le> clock_at lib e1)"
  proof (rule disjE [OF own])
    assume "distinct_bundles d1 \<and> full_rotation_due lib ch e1"
    then show ?thesis using coherent_decode ch'(2) by simp
  next
    assume "\<exists>d t e. maintained lib w options d t e \<and> same_data d1 d \<and> ticks e \<le> ticks e1"
    then obtain d t e where m: "maintained lib w options d t e" "same_data d1 d" "ticks e \<le> ticks e1"
      by blast
    have "own_data lib (clock_at lib e) (chain_data ch)"
      using kept_same_data [OF maintained_kept [OF m(1) clock opt(1)] m(2)] ch'(2) by (simp add: kept_def)
    moreover have "clock_at lib e \<le> clock_at lib e1" using m(3) clock by (simp add: clock_ok_def clock_at_def monoD)
    ultimately show ?thesis using own_data_coherent by blast
  qed
  ultimately have "renewed lib (clock_at lib e1) ch t' ch1 e'"
    using update_own [OF _ _ _ _ u up(2)] clock opt(1) ch'(1) by (auto simp: clock_ok_def)
  then show ?thesis using opt(2) ch(2) ch'(1) by (simp add: renewed_def)
qed

end

end
