(* ===== verification/Chain_Total.thy ===== *)
theory Chain_Total
  imports Chain_Lifecycle
begin

text \<open>
  When an update returns: it panics only on a certificate without DNS names, and it fails only when
  key generation, the random serial number, signing or parsing a new certificate fails.
\<close>

section \<open>Panics\<close>

text \<open>The certificate that is verified has a DNS name.\<close>

definition named_certs :: "go_lib \<Rightarrow> CertificateIssue \<Rightarrow> bool" where
  "named_certs lib ci = (case ParseCertsPEM lib (bytes_of (CertPEM ci)) of
     (c # _, None) \<Rightarrow> DNSNames c \<noteq> [] | _ \<Rightarrow> True)"

definition all_named_certs :: "go_lib \<Rightarrow> CertificateChainData \<Rightarrow> bool" where
  "all_named_certs lib d = (\<forall>(n, ci) \<in> set (CertificatesIssued d). named_certs lib ci)"

lemma VerifyTLS_no_panic:
  "named_certs lib ci \<Longrightarrow> \<not> is_Panic (fst (VerifyTLS lib (bytes_of (CertPEM ci)) k b e))"
  unfolding VerifyTLS_panic_iff by (auto simp: named_certs_def)

lemma verify_bundles_no_panic:
  "named_certs lib ci \<Longrightarrow> \<not> is_Panic (fst (verify_bundles lib ca ci m e))"
proof (induction m arbitrary: e)
  case (Cons kv m)
  obtain n pem where kv: "kv = (n, pem)" by fastforce
  show ?case
    using VerifyTLS_no_panic [OF Cons.prems, of "bytes_of (KeyPEM ci)" "bytes_of pem" e] Cons
    by (auto simp: kv Let_def split: prod.split result.split)
qed simp

lemma verify_issues_no_panic:
  "\<forall>(n, ci) \<in> set m. named_certs lib ci \<Longrightarrow> \<not> is_Panic (fst (verify_issues lib ca m e))"
proof (induction m arbitrary: e)
  case (Cons kv m)
  obtain n ci where kv: "kv = (n, ci)" by fastforce
  show ?case
    using verify_bundles_no_panic [of lib ci ca "CACertPEM ci" e] Cons
    by (auto simp: kv split: prod.split result.split)
qed simp

lemma verifyTLS_no_panic:
  "all_named_certs lib (chain_data ch) \<Longrightarrow> \<not> is_Panic (fst (verifyTLS lib ch e))"
  unfolding verifyTLS_def all_named_certs_def by (rule verify_issues_no_panic)

text \<open>A verified chain that has a bundle has a CA.\<close>

lemma verify_bundles_last:
  "verify_bundles lib ca ci m e = (Ok u, e') \<Longrightarrow> (k, pem) \<in> set m \<Longrightarrow>
   getLastCert (case map_of (issue_caCerts ci) k of None \<Rightarrow> [] | Some cs \<Rightarrow> cs) = ca"
  by (induction m arbitrary: e) (auto simp: Let_def split: if_splits prod.splits result.splits)

lemma verify_issues_last:
  "verify_issues lib ca m e = (Ok u, e') \<Longrightarrow> (n, ci) \<in> set m \<Longrightarrow> (k, pem) \<in> set (CACertPEM ci) \<Longrightarrow>
   getLastCert (case map_of (issue_caCerts ci) k of None \<Rightarrow> [] | Some cs \<Rightarrow> cs) = ca"
  by (induction m arbitrary: e) (auto split: prod.splits result.splits dest: verify_bundles_last)

lemma verified_ca:
  assumes v: "verifyTLS lib ch e1 = (Ok u, e2)" and coh: "coherent_data lib (chain_data ch)"
    and due: "Before (clock_at lib e) (findRotationDeadlineForCA ch)" "zero_time \<le> clock_at lib e"
  obtains k c where "CA_keyPair (Chain_CA (chain_data ch)) = \<lparr>Key = Some k, Cert = Some c\<rparr>"
proof -
  let ?m = "CertificatesIssued (chain_data ch)" and ?kp = "CA_keyPair (Chain_CA (chain_data ch))"
  note f = rotation_deadline_future [OF due(1) [unfolded Before_def findRotationDeadlineForCA_def] due(2)]
  from f(1) obtain cs where cs: "cs \<in> set (all_caCerts ?m)" by (cases "all_caCerts ?m") auto
  then obtain n ci k where ci: "(n, ci) \<in> set ?m" "(k, cs) \<in> set (issue_caCerts ci)" by (auto simp: mem_all_caCerts)
  have kd: "keyed ci" using coh ci(1) coherent_keyed by (fastforce simp: coherent_data_def)
  then have "map_of (issue_caCerts ci) k = Some cs" using ci(2) by (simp add: keyed_def)
  moreover have "k \<in> set (map fst (CACertPEM ci))"
    using kd ci(2) by (metis keyed_def fst_conv image_eqI list.set_map)
  then obtain pem where "(k, pem) \<in> set (CACertPEM ci)" by auto
  ultimately have "getLastCert cs = Cert ?kp"
    using verify_issues_last [OF v [unfolded verifyTLS_def] ci(1)] by fastforce
  moreover have "cs \<noteq> []" using f(2) cs by auto
  ultimately have "Cert ?kp \<noteq> None" by (metis getLastCert_None)
  moreover have "coherent_ca lib (Chain_CA (chain_data ch))" using coh by (simp add: coherent_data_def)
  ultimately obtain k c where "Key ?kp = Some k" "Cert ?kp = Some c"
    using coherent_ca_parts [of lib "Chain_CA (chain_data ch)"] by auto
  then show ?thesis by (intro that [of k c]) (cases ?kp, simp)
qed

lemma update_cleanup_Ok: "\<exists>t. fst (update_cleanup lib dA dC ch e) = Ok t"
  by (simp add: update_cleanup_def Let_def case_prod_unfold)

lemma update_cleanup_no_panic [simp]: "\<not> is_Panic (fst (update_cleanup lib dA dC ch e))"
  using update_cleanup_Ok [of lib dA dC ch e] by auto

lemma full_branch_no_panic: "\<not> is_Panic (fst (full_branch lib ch e))"
proof -
  obtain r ch1 e1 where r: "rotateAll lib ch e = (r, ch1, e1)" by (cases "rotateAll lib ch e")
  with rotateAll_no_panic [of lib ch e] obtain "\<not> is_Panic r" by simp
  then show ?thesis using r by (cases r) (auto simp: full_branch_def)
qed

lemma certs_branch_no_panic:
  assumes "CA_keyPair (Chain_CA (chain_data ch)) = \<lparr>Key = Some k, Cert = Some c\<rparr>"
  shows "\<not> is_Panic (fst (certs_branch lib ch e))"
proof -
  obtain r ch1 e1 where r: "rotateCertsWithOverlap lib ch e = (r, ch1, e1)" by (cases "rotateCertsWithOverlap lib ch e")
  have "\<not> is_Panic (fst (rotateCertsWithOverlap lib ch e))"
    using assms rotate_loop_no_panic [of "\<lparr>Key = Some k, Cert = Some c\<rparr>" "setKeyAppendCert lib" lib]
    by (simp add: rotateCertsWithOverlap_def rotateCerts_def case_prod_unfold)
  with r have "\<not> is_Panic r" by simp
  then show ?thesis using r by (cases r) (auto simp: certs_branch_def)
qed

lemma update_no_panic:
  assumes named: "all_named_certs lib (chain_data ch)" and coh: "coherent_data lib (chain_data ch)"
    and z: "zero_time \<le> clock_at lib e"
  shows "\<not> is_Panic (fst (update lib ch e))"
proof (cases "Before (clock_at lib e) (findRotationDeadlineForCA ch)")
  case False
  then show ?thesis by (simp add: update_branches full_branch_no_panic)
next
  case due: True
  obtain r e2 where v: "verifyTLS lib ch (tick (tick e)) = (r, e2)" by fastforce
  show ?thesis
  proof (cases r)
    case (Ok u)
    then obtain k c where "CA_keyPair (Chain_CA (chain_data ch)) = \<lparr>Key = Some k, Cert = Some c\<rparr>"
      using verified_ca [OF _ coh due z] v by blast
    then show ?thesis using certs_branch_no_panic due v Ok by (simp add: update_branches)
  next
    case (Fail er)
    with due v show ?thesis by (simp add: update_branches full_branch_no_panic)
  next
    case (Panic s)
    with verifyTLS_no_panic [OF named, of "tick (tick e)"] v show ?thesis by simp
  qed
qed

lemma all_named_certs_decode [simp]: "all_named_certs lib (decode_data lib d) = all_named_certs lib d"
  by (auto simp: all_named_certs_def decode_data_def set_map_values named_certs_def)

section \<open>The only errors\<close>

text \<open>The messages with which key generation, drawing a serial number, or signing and parsing a
  certificate fail, for the certificates that \<^verbatim>\<open>cert.go\<close> asks for.\<close>

definition requested :: "certificate \<Rightarrow> certificate \<Rightarrow> public_key \<Rightarrow> rsa_PrivateKey \<Rightarrow> bool" where
  "requested tmpl parent pub k \<longleftrightarrow>
     (\<exists>cfg t d. tmpl = ca_template cfg t d \<and> parent = tmpl \<and> pub = RSA_pub (rsa_Public k))
   \<or> (\<exists>cfg serial t d (k' :: rsa_PrivateKey). tmpl = server_template cfg serial parent t d \<and> pub = RSA_pub (rsa_Public k'))"

definition crypto_fails :: "go_lib \<Rightarrow> string \<Rightarrow> bool" where
  "crypto_fails lib m \<longleftrightarrow> (\<exists>n. lib_GenerateKey lib n = Inl m) \<or> (\<exists>n. lib_rand_Int lib n = Inl m)
     \<or> (\<exists>n tmpl parent pub k. requested tmpl parent pub k
          \<and> (lib_CreateCertificate lib n tmpl parent pub k = Inl m
           \<or> (\<exists>der. lib_CreateCertificate lib n tmpl parent pub k = Inr der \<and> lib_ParseCertificate lib der = Inl m)))"

fun root_cause :: "error \<Rightarrow> error" where
  "root_cause (Wrap e s) = root_cause e"
| "root_cause e = e"

text \<open>An error of the cryptographic library, wrapped any number of times.\<close>

definition crypto_error :: "go_lib \<Rightarrow> error \<Rightarrow> bool" where
  "crypto_error lib er \<longleftrightarrow> (\<exists>m. root_cause er = Lib m \<and> crypto_fails lib m)"

lemma crypto_error_simps [simp]:
  "crypto_error lib (Wrap er s) = crypto_error lib er" "crypto_error lib (Lib m) = crypto_fails lib m"
  by (simp_all add: crypto_error_def)

fun ok_or_crypto :: "go_lib \<Rightarrow> 'a result \<Rightarrow> bool" where
  "ok_or_crypto lib (Ok x) = True"
| "ok_or_crypto lib (Fail er) = crypto_error lib er"
| "ok_or_crypto lib (Panic s) = False"

definition issues_named :: "CertificateChainData \<Rightarrow> bool" where
  "issues_named d = (\<forall>(n, ci) \<in> set (CertificatesIssued d). Issue_Name ci \<noteq> [])"

lemma NewPrivateKey_errors: "ok_or_crypto lib (fst (NewPrivateKey lib e))"
  by (auto simp: NewPrivateKey_def lib_result_def crypto_fails_def split: sum.split)

lemma create_errors:
  assumes "requested tmpl parent pub k"
  shows "lib_CreateCertificate lib n tmpl parent pub k = Inl m \<Longrightarrow> crypto_fails lib m"
    "lib_CreateCertificate lib n tmpl parent pub k = Inr der \<Longrightarrow> ok_or_crypto lib (lib_result (lib_ParseCertificate lib der))"
proof -
  show "lib_CreateCertificate lib n tmpl parent pub k = Inl m \<Longrightarrow> crypto_fails lib m"
    using assms unfolding crypto_fails_def by blast
  assume c: "lib_CreateCertificate lib n tmpl parent pub k = Inr der"
  show "ok_or_crypto lib (lib_result (lib_ParseCertificate lib der))"
  proof (cases "lib_ParseCertificate lib der")
    case (Inl m)
    with assms c have "crypto_fails lib m" unfolding crypto_fails_def by blast
    with Inl show ?thesis by (simp add: lib_result_def)
  qed (simp add: lib_result_def)
qed

lemma NewSelfSignedCACert_errors: "ok_or_crypto lib (fst (NewSelfSignedCACert lib cfg k d e))"
proof -
  let ?t = "ca_template cfg (clock_at lib e) d"
  have "requested ?t ?t (RSA_pub (rsa_Public k)) k" unfolding requested_def by blast
  from create_errors [OF this] show ?thesis by (auto simp: NewSelfSignedCACert_def Let_def split: sum.split)
qed

lemma NewSignedCert_errors:
  assumes "CommonName cfg \<noteq> []" "Usages cfg \<noteq> []"
  shows "ok_or_crypto lib (fst (NewSignedCert lib cfg k (Some ca) (Some ck) d e))"
proof (cases "lib_rand_Int lib (draws e)")
  case (Inl m)
  then show ?thesis by (auto simp: NewSignedCert_def crypto_fails_def)
next
  case (Inr i)
  let ?t = "server_template cfg i ca (clock_at lib (draw e)) d"
  have "requested ?t ca (RSA_pub (rsa_Public k)) ck" unfolding requested_def by blast
  from create_errors [OF this] show ?thesis using assms Inr by (auto simp: NewSignedCert_def Let_def split: sum.split)
qed

text \<open>A new key pair has both parts, or there is an error of the library.\<close>

lemma NewCA_errors:
  obtains (made) k c e' where "NewCA lib name d e = (Ok \<lparr>Key = Some k, Cert = Some c\<rparr>, e')"
  | (failed) er e' where "NewCA lib name d e = (Fail er, e')" "crypto_error lib er"
proof -
  let ?cfg = "\<lparr>CommonName = name, Organization = [],
     Config_AltNames = \<lparr>Alt_DNSNames = [], Alt_IPs = []\<rparr>, Usages = []\<rparr>"
  obtain r e1 where k: "NewPrivateKey lib e = (r, e1)" by fastforce
  show ?thesis
  proof (cases r)
    case (Ok key)
    obtain r2 e2 where "NewSelfSignedCACert lib ?cfg key d e1 = (r2, e2)" by fastforce
    with k Ok NewSelfSignedCACert_errors [of lib ?cfg key d e1] made failed show ?thesis
      by (cases r2) (auto simp: NewCA_def Let_def)
  qed (use k NewPrivateKey_errors [of lib e] failed in \<open>auto simp: NewCA_def\<close>)
qed

lemma NewServerKeyPair_errors:
  assumes "name \<noteq> []"
  obtains (made) k c e' where "NewServerKeyPair lib \<lparr>Key = Some ck, Cert = Some ca\<rparr> name ips hostnames d e
      = (Ok \<lparr>Key = Some k, Cert = Some c\<rparr>, e')"
  | (failed) er e' where "NewServerKeyPair lib \<lparr>Key = Some ck, Cert = Some ca\<rparr> name ips hostnames d e = (Fail er, e')"
      "crypto_error lib er"
proof -
  let ?cfg = "\<lparr>CommonName = name, Organization = [],
     Config_AltNames = \<lparr>Alt_DNSNames = hostnames, Alt_IPs = parse_ips lib ips\<rparr>,
     Usages = [ExtKeyUsageServerAuth]\<rparr>"
  obtain r e1 where k: "NewPrivateKey lib e = (r, e1)" by fastforce
  show ?thesis
  proof (cases r)
    case (Ok key)
    obtain r2 e2 where "NewSignedCert lib ?cfg key (Some ca) (Some ck) d e1 = (r2, e2)" by fastforce
    with k Ok NewSignedCert_errors [of ?cfg lib key ca ck d e1] assms made failed show ?thesis
      by (cases r2) (auto simp: NewServerKeyPair_def Let_def)
  qed (use k NewPrivateKey_errors [of lib e] failed in \<open>auto simp: NewServerKeyPair_def\<close>)
qed

lemma rotate_loop_errors:
  assumes f: "\<And>ci k c. \<exists>ci'. f ci \<lparr>Key = Some k, Cert = Some c\<rparr> = Ok ci'"
  shows "\<forall>(n, ci) \<in> set m. Issue_Name ci \<noteq> [] \<Longrightarrow>
    ok_or_crypto lib (fst (rotate_loop lib d \<lparr>Key = Some ck, Cert = Some ca\<rparr> f m e))"
proof (induction m arbitrary: e)
  case (Cons kv m)
  obtain n ci where kv: "kv = (n, ci)" by fastforce
  with Cons.prems have named: "Issue_Name ci \<noteq> []" by simp
  show ?case
  proof (rule NewServerKeyPair_errors [OF named, of lib ck ca "IPs ci" "Hostnames ci" d e])
    fix k c e1
    assume new: "NewServerKeyPair lib \<lparr>Key = Some ck, Cert = Some ca\<rparr> (Issue_Name ci) (IPs ci) (Hostnames ci) d e
      = (Ok \<lparr>Key = Some k, Cert = Some c\<rparr>, e1)"
    obtain ci' where "f ci \<lparr>Key = Some k, Cert = Some c\<rparr> = Ok ci'" using f by blast
    moreover have "ok_or_crypto lib (fst (rotate_loop lib d \<lparr>Key = Some ck, Cert = Some ca\<rparr> f m e1))" using Cons by simp
    ultimately show ?thesis using new kv by (simp add: case_prod_unfold)
  qed (simp add: kv)
qed simp

lemma issues_named_same: "same_services ch ch' \<Longrightarrow> issues_named (chain_data ch) \<Longrightarrow> issues_named (chain_data ch')"
  unfolding issues_named_def same_services_def
  by (fastforce dest!: gomap_rel_in2 simp: same_service_def)

lemma rotateCerts_errors:
  assumes "issues_named (chain_data ch)" "CA_keyPair (Chain_CA (chain_data ch)) = \<lparr>Key = Some k, Cert = Some c\<rparr>"
    and f: "\<And>ci k c. \<exists>ci'. f ci \<lparr>Key = Some k, Cert = Some c\<rparr> = Ok ci'"
  shows "ok_or_crypto lib (fst (rotateCerts lib f ch e))"
  using rotate_loop_errors [where f = f, OF f assms(1) [unfolded issues_named_def]] assms(2)
  by (simp add: rotateCerts_def split: prod.split) (metis fst_conv)

lemma rotateAll_errors:
  assumes "issues_named (chain_data ch)" "all_same_names ch"
  shows "ok_or_crypto lib (fst (rotateAll lib ch e))"
proof (rule NewCA_errors [of lib "CA_Name (Chain_CA (chain_data ch))" "CARotateInterval (chain_Options ch)" e])
  fix k c e1
  assume new: "NewCA lib (CA_Name (Chain_CA (chain_data ch))) (CARotateInterval (chain_Options ch)) e
      = (Ok \<lparr>Key = Some k, Cert = Some c\<rparr>, e1)"
  obtain ch1 where ch1: "setCaKeyPair lib ch \<lparr>Key = Some k, Cert = Some c\<rparr> = Ok ch1" by simp
  then have "issues_named (chain_data ch1)"
    using issues_named_same [OF setCaKeyPair_same [OF assms(2)]] assms(1) by blast
  moreover have "CA_keyPair (Chain_CA (chain_data ch1)) = \<lparr>Key = Some k, Cert = Some c\<rparr>" using ch1 by auto
  ultimately have "ok_or_crypto lib (fst (rotateCerts lib (setKeyResetCert lib) ch1 e1))"
    by (rule rotateCerts_errors) simp
  with new ch1 show ?thesis
    by (auto simp: rotateAll_def rotateCertsWithoutOverlap_def split: prod.split result.split)
qed (simp add: rotateAll_def)

text \<open>An update returns a time, or it fails with an error of the cryptographic library.\<close>

lemma update_errors:
  assumes named: "issues_named (chain_data ch)" "all_named_certs lib (chain_data ch)"
    and coh: "coherent_data lib (chain_data ch)" and z: "zero_time \<le> clock_at lib e"
  shows "ok_or_crypto lib (fst (update lib ch e))"
proof -
  have sn: "all_same_names ch" using coh coherent_keyed
    by (fastforce simp: coherent_data_def all_same_names_def same_names_def keyed_def)
  have cleanup: "ok_or_crypto lib (fst (update_cleanup lib dA dC ch1 e1))" for dA dC ch1 e1
    using update_cleanup_Ok [of lib dA dC ch1 e1] by auto
  have full: "ok_or_crypto lib (fst (full_branch lib ch e1))" for e1
    using rotateAll_errors [OF named(1) sn, of lib e1] cleanup
    by (auto simp: full_branch_def split: prod.split result.split)
  show ?thesis
  proof (cases "Before (clock_at lib e) (findRotationDeadlineForCA ch)")
    case False
    then show ?thesis using full by (simp add: update_branches)
  next
    case due: True
    obtain r e2 where v: "verifyTLS lib ch (tick (tick e)) = (r, e2)" by fastforce
    show ?thesis
    proof (cases r)
      case (Ok u)
      then obtain k c where kp: "CA_keyPair (Chain_CA (chain_data ch)) = \<lparr>Key = Some k, Cert = Some c\<rparr>"
        using verified_ca [OF _ coh due z] v by blast
      have "ok_or_crypto lib (fst (rotateCerts lib (setKeyAppendCert lib) ch e2))"
        by (rule rotateCerts_errors [OF named(1) kp]) simp
      then have "ok_or_crypto lib (fst (certs_branch lib ch e2))"
        using cleanup by (auto simp: certs_branch_def rotateCertsWithOverlap_def split: prod.split result.split)
      then show ?thesis using cleanup due v Ok by (simp add: update_branches)
    next
      case (Fail er)
      with due v full show ?thesis by (simp add: update_branches)
    next
      case (Panic s)
      with verifyTLS_no_panic [OF named(2), of "tick (tick e)"] v show ?thesis by simp
    qed
  qed
qed

lemma Update_errors:
  assumes "options_ok (withDefaults options)" "issues_named d" "all_named_certs lib d" "distinct_bundles d" "zero_time \<le> clock_at lib e"
  shows "ok_or_crypto lib (fst (Update lib options d e))"
proof -
  define ch where "ch = \<lparr>chain_Options = withDefaults options, chain_data = decode_data lib d\<rparr>"
  have "issues_named (decode_data lib d)"
    using assms(2) by (auto simp: issues_named_def decode_data_def set_map_values)
  then have "ok_or_crypto lib (fst (update lib ch e))"
    using assms coherent_decode by (intro update_errors) (auto simp: ch_def)
  moreover have "newChain lib options d = Ok ch" using assms(1) by (simp add: newChain_Ok ch_def)
  ultimately show ?thesis by (cases "update lib ch e") (simp add: Update_def)
qed

text \<open>Cryptography that never fails.\<close>

definition crypto_ok :: "go_lib \<Rightarrow> bool" where
  "crypto_ok lib \<longleftrightarrow> (\<forall>m. \<not> crypto_fails lib m)"

lemma crypto_ok_result: "crypto_ok lib \<Longrightarrow> ok_or_crypto lib r \<Longrightarrow> \<exists>x. r = Ok x"
  by (cases r) (auto simp: crypto_ok_def crypto_error_def)

lemma NewCA_succeeds:
  assumes "crypto_ok lib"
  shows "\<exists>k c e'. NewCA lib name d e = (Ok \<lparr>Key = Some k, Cert = Some c\<rparr>, e')"
  by (rule NewCA_errors [of lib name d e]) (use assms in \<open>auto simp: crypto_ok_def crypto_error_def\<close>)

lemma NewServerKeyPair_succeeds:
  assumes "crypto_ok lib" "name \<noteq> []"
  shows "\<exists>k c e'. NewServerKeyPair lib \<lparr>Key = Some ck, Cert = Some ca\<rparr> name ips hostnames d e
    = (Ok \<lparr>Key = Some k, Cert = Some c\<rparr>, e')"
  by (rule NewServerKeyPair_errors [OF assms(2), of lib ck ca ips hostnames d e])
    (use assms(1) in \<open>auto simp: crypto_ok_def crypto_error_def\<close>)

lemma Update_no_panic:
  assumes "all_named_certs lib d" "distinct_bundles d" "zero_time \<le> clock_at lib e"
  shows "\<not> is_Panic (fst (Update lib options d e))"
proof (cases "newChain lib options d")
  case (Ok ch)
  then have "\<not> is_Panic (fst (update lib ch e))"
    using assms coherent_decode by (intro update_no_panic) (auto simp: newChain_Ok)
  with Ok show ?thesis by (auto simp: Update_def split: prod.split)
qed (auto simp: Update_def newChain_def split: prod.splits option.splits)

end
