(* ===== verification/Webhook_Server.thy ===== *)
theory Webhook_Server
  imports Cert_Manager
begin

text \<open>
  \<^verbatim>\<open>src/pkg/webhook/server/server.go\<close>: the webhook server, configured by modifiers, which starts
  serving only after the certificates verify. The HTTP server behind it is \<^verbatim>\<open>webhook.Server\<close> of
  controller-runtime: registration of handlers is modelled as that code has it, serving is a
  parameter. The constructor of the certificate manager is a closure over the server, so it sees
  the webhooks that are configured when it is called.
\<close>

text \<open>The part of \<^verbatim>\<open>webhook.Server\<close> that registration touches. Its defaults are set at the first
  registration (with the usual temporary directory); \<open>hooks\<close> are the registered paths with
  their handlers. The multiplexer behind it refuses an empty path. The metrics of a path that is
  not valid UTF-8 would make registration panic as well; paths are taken to be valid.\<close>

record http_server =
  Port :: int
  CertDir :: string
  hooks :: "string gomap"
  defaulted :: bool

definition DefaultPort :: int where
  "DefaultPort = 9443"

definition setDefaults :: "http_server \<Rightarrow> http_server" where
  "setDefaults h = h\<lparr>hooks := [],
     Port := (if Port h \<le> 0 then DefaultPort else Port h),
     CertDir := (if length (CertDir h) = 0 then ''/tmp/k8s-webhook-server/serving-certs'' else CertDir h),
     defaulted := True\<rparr>"

definition Register :: "string \<Rightarrow> string \<Rightarrow> http_server \<Rightarrow> http_server result" where
  "Register path hook h =
     (let h1 = (if defaulted h then h else setDefaults h) in
      if map_of (hooks h1) path \<noteq> None then Panic (''can't register duplicate path: '' @ path)
      else if path = [] then Panic ''http: invalid pattern''
      else Ok (h1\<lparr>hooks := AList.update path hook (hooks h1)\<rparr>))"

record Server =
  webhookServer :: http_server
  webhookConfigs :: "WebhookReference list"
  server_name :: string
  server_namespace :: string
  server_options :: Options
  certManager :: "Manager option"

type_synonym ServerModifier = "Server \<Rightarrow> Server result"

definition WithHook :: "string \<Rightarrow> string \<Rightarrow> ServerModifier" where
  "WithHook path hook s = bind_result (Register path hook (webhookServer s)) (\<lambda>h. Ok (s\<lparr>webhookServer := h\<rparr>))"

definition WithPort :: "int \<Rightarrow> ServerModifier" where
  "WithPort port s = Ok (s\<lparr>webhookServer := (webhookServer s)\<lparr>Port := port\<rparr>\<rparr>)"

definition WithCertDir :: "string \<Rightarrow> ServerModifier" where
  "WithCertDir dir s = Ok (s\<lparr>webhookServer := (webhookServer s)\<lparr>CertDir := dir\<rparr>\<rparr>)"

definition WithConfig :: "WebhookReference \<Rightarrow> ServerModifier" where
  "WithConfig w s = Ok (s\<lparr>webhookConfigs := webhookConfigs s @ [w]\<rparr>)"

fun UpdateOpts :: "ServerModifier list \<Rightarrow> Server \<Rightarrow> Server result" where
  "UpdateOpts [] s = Ok s"
| "UpdateOpts (f # fs) s = bind_result (f s) (UpdateOpts fs)"

definition New :: "string \<Rightarrow> string \<Rightarrow> Options \<Rightarrow> ServerModifier list \<Rightarrow> Server result" where
  "New name namespace options opts =
     (let s = \<lparr>webhookServer = \<lparr>Port = 8443, CertDir = ''/etc/webhook/certs/'', hooks = [], defaulted = False\<rparr>,
               webhookConfigs = [], server_name = name, server_namespace = namespace,
               server_options = options, certManager = None\<rparr>
      in bind_result (UpdateOpts opts s) (\<lambda>s1.
           bind_result (Register ''/readyz'' ''healthz.Ping'' (webhookServer s1)) (\<lambda>h.
             Ok (s1\<lparr>webhookServer := h\<rparr>))))"

definition newCertManager :: "Server \<Rightarrow> Manager result" where
  "newCertManager s = NewManager (server_name s) (server_namespace s) (server_options s) (webhookConfigs s)"

text \<open>On an error \<^verbatim>\<open>newCertManager\<close> returns nil, which is stored.\<close>

definition Server_Add :: "'r runtime \<Rightarrow> Server \<Rightarrow> 'r \<Rightarrow> unit result \<times> Server \<times> 'r" where
  "Server_Add rt s r =
     (case newCertManager s of
        Panic x \<Rightarrow> (Panic x, s, r)
      | Fail e \<Rightarrow> (Fail (Wrap e ''failed constructing certificate manager''), s\<lparr>certManager := None\<rparr>, r)
      | Ok m \<Rightarrow>
          (let s1 = s\<lparr>certManager := Some m\<rparr> in
           case Manager_Add m rt r of
             (Panic x, r1) \<Rightarrow> (Panic x, s1, r1)
           | (Fail e, r1) \<Rightarrow>
               (Fail (Wrap e ''failed adding certificate manager to controller-runtime manager''), s1, r1)
           | (Ok _, r1) \<Rightarrow>
               (case runtime_Add rt r1 of
                  (Some e, r2) \<Rightarrow>
                    (Fail (Wrap e ''failed adding webhook server to controller-runtime manager''), s1, r2)
                | (None, r2) \<Rightarrow> (Ok (), s1, r2))))"

definition checkTLS ::
  "go_lib \<Rightarrow> 's kube_client \<Rightarrow> map_order \<Rightarrow> Server \<Rightarrow> 's \<times> env \<Rightarrow> unit result \<times> 's \<times> env" where
  "checkTLS lib cl ord s st =
     (case certManager s of
        None \<Rightarrow> (Fail (Errorf ''No manager has been added yet''), st)
      | Some m \<Rightarrow> Manager_VerifyTLS lib cl ord m (fst st) (snd st))"

definition tls_ready ::
  "go_lib \<Rightarrow> 's kube_client \<Rightarrow> map_order \<Rightarrow> Server \<Rightarrow> 's \<times> env \<Rightarrow> bool result \<times> 's \<times> env" where
  "tls_ready lib cl ord s st =
     (case checkTLS lib cl ord s st of
        (Panic x, st1) \<Rightarrow> (Panic x, st1)
      | (Fail e, st1) \<Rightarrow> (Ok False, st1)
      | (Ok _, st1) \<Rightarrow> (Ok True, st1))"

text \<open>\<open>n\<close> is the number of ticks the poller delivers: at most one every five seconds for five
  minutes.\<close>

definition waitForTLSReadiness ::
  "nat \<Rightarrow> go_lib \<Rightarrow> 's kube_client \<Rightarrow> map_order \<Rightarrow> Server \<Rightarrow> 's \<times> env \<Rightarrow> unit result \<times> 's \<times> env" where
  "waitForTLSReadiness n lib cl ord s st = PollImmediate n (tls_ready lib cl ord s) st"

text \<open>\<open>serve\<close> is \<^verbatim>\<open>webhookServer.Start\<close>.\<close>

definition Start ::
  "nat \<Rightarrow> (http_server \<Rightarrow> 's \<times> env \<Rightarrow> error option \<times> 's \<times> env) \<Rightarrow> go_lib \<Rightarrow> 's kube_client \<Rightarrow> map_order
   \<Rightarrow> Server \<Rightarrow> 's \<times> env \<Rightarrow> unit result \<times> 's \<times> env" where
  "Start n serve lib cl ord s st =
     (case waitForTLSReadiness n lib cl ord s st of
        (Panic x, st1) \<Rightarrow> (Panic x, st1)
      | (Fail e, st1) \<Rightarrow> (Fail (Wrap e ''failed watting for ready TLS key/cert''), st1)
      | (Ok _, st1) \<Rightarrow>
          (case serve (webhookServer s) st1 of
             (Some e, st2) \<Rightarrow> (Fail (Wrap e ''failed starting webhook server''), st2)
           | (None, st2) \<Rightarrow> (Ok (), st2)))"

text \<open>Dependency injection is handed to \<open>inject\<close>, which is \<^verbatim>\<open>webhookServer.InjectFunc\<close>.\<close>

definition InjectFunc ::
  "('f \<Rightarrow> http_server \<Rightarrow> error option \<times> http_server) \<Rightarrow> 'f \<Rightarrow> Server \<Rightarrow> unit result \<times> Server" where
  "InjectFunc inject f s =
     (case inject f (webhookServer s) of
        (Some e, h) \<Rightarrow> (Fail e, s\<lparr>webhookServer := h\<rparr>)
      | (None, h) \<Rightarrow> (Ok (), s\<lparr>webhookServer := h\<rparr>))"

definition NeedLeaderElection :: "Server \<Rightarrow> bool" where
  "NeedLeaderElection s = False"

end
