(* ===== verification/Manager_Safety.thy ===== *)
theory Manager_Safety
  imports Config_Writing Chain_Total Webhook_Server
begin

text \<open>
  Lemmas on the manager: reading does not depend on the operations of the client that write, and
  every object of the object map has the kind of its key, so that nothing panics.
\<close>

section \<open>Reading does not write\<close>

definition with_writes ::
  "(Object \<Rightarrow> 's \<Rightarrow> error option \<times> 's) \<Rightarrow> (Object \<Rightarrow> 's \<Rightarrow> error option \<times> 's) \<Rightarrow> 's kube_client \<Rightarrow> 's kube_client" where
  "with_writes c u cl = cl\<lparr>client_Create := c, client_Update := u\<rparr>"

lemma get_attempt_with_writes [simp]: "get_attempt (with_writes c u cl) = get_attempt cl"
  by (simp add: fun_eq_iff get_attempt_def with_writes_def)

lemma get_with_writes [simp]: "get (with_writes c u cl) = get cl"
  by (intro ext) (simp add: get_def, simp add: with_writes_def)

lemma readObjectToChain_with_writes [simp]: "readObjectToChain m (with_writes c u cl) = readObjectToChain m cl"
  by (intro ext) (simp only: readObjectToChain_def get_with_writes)

lemma readObjectsToChain_with_writes [simp]:
  "readObjectsToChain m (with_writes c u cl) pick st = readObjectsToChain m cl pick st"
proof (induction m cl pick st rule: readObjectsToChain.induct)
  case (1 m cl pick st)
  show ?case
  proof (cases "unread (rs_objects st) = []")
    case True
    then show ?thesis by (simp add: readObjectsToChain.simps)
  next
    case False
    show ?thesis
      using "1.IH" [OF False]
      by (subst (1 2) readObjectsToChain.simps) (auto split: prod.split result.split)
  qed
qed

lemma readCertificateChain_with_writes [simp]:
  "readCertificateChain m (with_writes c u cl) = readCertificateChain m cl"
  by (simp add: fun_eq_iff readCertificateChain_def Let_def)

section \<open>Kinds of objects\<close>

definition typed_entry :: "keyedObject \<Rightarrow> bool" where
  "typed_entry ko \<longleftrightarrow> known_kind (Kind (obj_key ko)) \<and> (\<forall>ob. kobject ko = Some ob \<longrightarrow> object_kind ob = Kind (obj_key ko))"

definition typed_objects :: "objectMap \<Rightarrow> bool" where
  "typed_objects os \<longleftrightarrow> (\<forall>p ko. map_of (entries os) p = Some ko \<longrightarrow> typed_entry ko)"

lemma typed_add: "typed_objects os \<Longrightarrow> known_kind (Kind k) \<Longrightarrow> typed_objects (add_object k os)"
  by (auto simp: typed_objects_def typed_entry_def map_of_add_object split: if_splits)

lemma typed_delete: "typed_objects os \<Longrightarrow> typed_objects (delete_object p os)"
  by (auto simp: typed_objects_def map_of_delete_object split: if_splits)

lemma typed_set_kobject:
  assumes "typed_objects os" "map_of (entries os) p = Some ko" "object_kind ob = Kind (obj_key ko)"
  shows "typed_objects (set_kobject p ob os)"
  using assms by (auto simp: typed_objects_def typed_entry_def map_of_set_kobject split: if_splits)

lemma typed_webhook_loop: "typed_objects os \<Longrightarrow> typed_objects (fst (webhook_to_chain_loop key ws m os d))"
proof (induction m arbitrary: os d)
  case (Cons kv m)
  obtain name i where kv: "kv = (name, i)" by fastforce
  have "known_kind (Kind (newObjectKey ''Secret'' ns sn))" for ns sn
    by (simp add: known_kind_def newObjectKey_def secretType_def)
  with Cons show ?case by (auto simp: kv Let_def typed_add split: option.split)
qed simp

lemma typed_mapWebhookToChain: "typed_objects os \<Longrightarrow> typed_objects (fst (mapWebhookToChain p key ob os d))"
  by (simp add: mapWebhookToChain_def Let_def typed_delete typed_webhook_loop)

lemma typed_init_webhooks:
  "\<forall>w \<in> set ws. Ref_Type w \<in> {MutatingWebhook, ValidatingWebhook} \<Longrightarrow> typed_objects os \<Longrightarrow>
   typed_objects (init_webhooks ws os)"
proof (induction ws arbitrary: os)
  case (Cons w ws)
  have "known_kind (Kind (newObjectKey (Ref_Type w) [] (Ref_Name w)))"
    using Cons.prems(1) by (auto simp: known_kind_def newObjectKey_def mutatingWebhookType_def validatingWebhookType_def)
  with Cons.prems(2) have "typed_objects (add_object (newObjectKey (Ref_Type w) [] (Ref_Name w)) os)" by (rule typed_add)
  with Cons show ?case by simp
qed simp

lemma typed_start: "typed_references m \<Longrightarrow> typed_objects (rs_objects (start_state m s))"
proof -
  assume t: "typed_references m"
  have "typed_objects empty_objectMap" by (simp add: typed_objects_def empty_objectMap_def)
  with t typed_init_webhooks [of "webhooks m" empty_objectMap] have "typed_objects (init_webhooks (webhooks m) empty_objectMap)"
    by (simp add: typed_references_def)
  then show ?thesis
    by (simp add: start_state_def initObjects_def Let_def newObjectKey_def known_kind_def typed_add)
qed

text \<open>Objects that are all read, each of the kind of its key.\<close>

definition writable :: "objectMap \<Rightarrow> bool" where
  "writable os \<longleftrightarrow> (\<forall>p ko. map_of (entries os) p = Some ko \<longrightarrow> known_kind (Kind (obj_key ko))
     \<and> (\<exists>ob. kobject ko = Some ob \<and> object_kind ob = Kind (obj_key ko)))"

lemma typed_all_read: "typed_objects os \<Longrightarrow> unread os = [] \<Longrightarrow> writable os"
proof -
  assume t: "typed_objects os" and u: "unread os = []"
  have "kobject ko \<noteq> None" if "map_of (entries os) p = Some ko" for p ko
    using that u mem_unread [of p os] by auto
  with t show ?thesis by (force simp: typed_objects_def typed_entry_def writable_def)
qed

lemma writable_set_kobject:
  "writable os \<Longrightarrow> map_of (entries os) p = Some ko \<Longrightarrow> object_kind ob = Kind (obj_key ko) \<Longrightarrow> writable (set_kobject p ob os)"
  by (auto simp: writable_def map_of_set_kobject split: if_splits)

lemma keys_set_kobject: "fst ` set (entries (set_kobject p ob os)) = fst ` set (entries os)"
proof (cases "map_of (entries os) p")
  case (Some ko)
  then have "p \<in> fst ` set (entries os)" using map_of_SomeD by force
  with Some show ?thesis by (auto simp: set_kobject_def dom_update)
qed (simp add: set_kobject_def)

lemma object_kind_FromChain:
  assumes "objectOperatorsMap k = Some ops" "fromChainMapper ops key d ob = Ok ob'"
  shows "object_kind ob' = object_kind ob"
proof -
  have "object_kind (set_CABundle i b ob) = object_kind ob" for i b ob by (cases ob) simp_all
  then have w: "object_kind (webhook_from_chain_loop key m d ob) = object_kind ob" for key m ob
    by (induction m arbitrary: ob) (auto split: option.split)
  show ?thesis
    using assms w
    by (auto simp: objectOperatorsMap_def webhook_operators_def mapWebhookFromChain_def mapSecretFromChain_def
        mapCASecretFromChain_def mapServiceSecretFromChain_def Let_def
        split: if_splits Object.splits option.splits)
qed

lemma fromChainMapper_no_panic:
  assumes "objectOperatorsMap k = Some ops" "object_kind ob = k"
  shows "\<exists>ob'. fromChainMapper ops key d ob = Ok ob'"
  using assms object_kind_secret [of ob]
  by (auto simp: objectOperatorsMap_def webhook_operators_def mapSecretFromChain_def mapCASecretFromChain_def
      mapServiceSecretFromChain_def Let_def split: if_splits option.splits)

context kube_api
begin

lemma readObjectToChain_typed:
  assumes "readObjectToChain m cl p st = (r, st')" "typed_objects (rs_objects st)"
  shows "typed_objects (rs_objects st')"
  using assms(1)
proof (cases rule: readObjectToChain_cases)
  case (not_read ko ops ob s1)
  with typed_set_kobject [OF assms(2) not_read(1)] get_kind_kept [OF not_read(4)] creator_kind [OF not_read(3)]
  show ?thesis by simp
next
  case (mapped ko ops g ob s1 v)
  have os: "typed_objects (set_kobject p ob (rs_objects st))"
    using typed_set_kobject [OF assms(2) mapped(1)] get_kind_kept [OF mapped(4)] creator_kind [OF mapped(3)] by simp
  show ?thesis
    using mapped(3)
  proof (cases rule: operators_kinds)
    case webhook
    obtain os' d' where w: "mapWebhookToChain p (obj_key ko) ob (set_kobject p ob (rs_objects st)) (rs_chain st) = (os', d')"
      by fastforce
    with mapped(6,7) webhook have "rs_objects st' = os'" by auto
    with typed_mapWebhookToChain [OF os] w show ?thesis by (metis fst_conv)
  next
    case secret
    with mapped(6,7) os show ?thesis
      by (cases "mapSecretToChain (obj_key ko) ob (rs_chain st)") auto
  qed
qed (use assms(2) in simp_all)

lemma read_run_typed:
  "read_run m cl st r st' \<Longrightarrow> typed_objects (rs_objects st) \<Longrightarrow>
   typed_objects (rs_objects st') \<and> (r = Ok () \<longrightarrow> unread (rs_objects st') = [])"
  by (induction rule: read_run.induct) (auto dest: readObjectToChain_typed)

text \<open>Writing.\<close>

lemma writeObjectFromChain_writable:
  assumes "writeObjectFromChain cl d p os s = (r, os', s')" "writable os" "p \<in> fst ` set (entries os)"
  shows "\<not> is_Panic r \<and> (is_Ok r \<longrightarrow> writable os' \<and> fst ` set (entries os') = fst ` set (entries os))"
proof -
  obtain ko where ko: "map_of (entries os) p = Some ko" using assms(3) by (metis map_of_eq_None_iff not_Some_eq)
  obtain old where old: "known_kind (Kind (obj_key ko))" "kobject ko = Some old" "object_kind old = Kind (obj_key ko)"
    using assms(2) ko by (auto simp: writable_def)
  obtain g c s1 where g: "get cl (key_Name (obj_key ko)) old s = (g, c, s1)" by (metis prod_cases3)
  note k = get_kind_kept [OF g]
  have put: "writable (set_kobject p ob os) \<and> fst ` set (entries (set_kobject p ob os)) = fst ` set (entries os)"
    if "objectOperatorsMap (Kind (obj_key ko)) = Some ops" "fromChainMapper ops (obj_key ko) d c = Ok ob" for ops ob
    using object_kind_FromChain [OF that] k old(3) writable_set_kobject [OF assms(2) ko] keys_set_kobject by simp
  from assms(1) ko old(2) g show ?thesis
  proof (cases rule: writeObjectFromChain_cases)
    case not_mapped
    have "object_kind c = Kind (obj_key ko)" using k old(3) by simp
    moreover obtain ops where o: "objectOperatorsMap (Kind (obj_key ko)) = Some ops"
      using known_kind_operators [OF old(1)] by blast
    ultimately obtain ob where "fromChainMapper ops (obj_key ko) d c = Ok ob"
      using fromChainMapper_no_panic [OF o] by blast
    with not_mapped(3) o show ?thesis by simp
  next
    case (written ops ob er)
    with put [OF written(2,3)] show ?thesis by (cases er) auto
  qed (use k put in \<open>auto simp: is_Ok_iff\<close>)
qed

lemma writeObjectsFromChain_no_panic:
  "writable os \<Longrightarrow> set ps \<subseteq> fst ` set (entries os) \<Longrightarrow> \<not> is_Panic (fst (writeObjectsFromChain cl d ps os s))"
proof (induction ps arbitrary: os s)
  case (Cons p ps)
  obtain r os1 s1 where w: "writeObjectFromChain cl d p os s = (r, os1, s1)" by (metis prod_cases3)
  from Cons.prems have "p \<in> fst ` set (entries os)" by simp
  from writeObjectFromChain_writable [OF w Cons.prems(1) this] Cons.IH [of os1 s1] Cons.prems(2) w
  show ?case by (cases r) auto
qed simp

end

end
