(* ===== verification/Config_Theorems.thy ===== *)
theory Config_Theorems
  imports Config_Writing Chain_Total
begin

text \<open>
  The properties of reading the certificate chain from Kubernetes objects and of writing it back.
\<close>

section \<open>Reading\<close>

text \<open>C14. Reading terminates in every order of the objects: there is no infinite sequence of
  successful reads, although reading a webhook adds objects to be read.\<close>

theorem reading_terminates:
  "wf {(st', st). \<exists>p \<in> set (unread (rs_objects st)). readObjectToChain m cl p st = (Ok (), st')}"
proof (rule wf_subset)
  show "wf (inv_image (less_than <*lex*> less_than)
      (\<lambda>st. (card (unread_of False (rs_objects st)), card (unread_of True (rs_objects st)))))"
    by (intro wf_inv_image wf_lex_prod wf_less_than)
qed (auto simp: in_inv_image dest!: readObjectToChain_decreases)

text \<open>A manager of one mutating webhook configuration, in a cluster whose cache needs two polls.\<close>

definition demo_manager :: Manager where
  "demo_manager = \<lparr>manager_name = ''hooks'', manager_namespace = ''ns'',
     webhooks = [\<lparr>Ref_Type = MutatingWebhook, Ref_Name = ''cfg''\<rparr>],
     manager_options = \<lparr>CARotateInterval = 0, CAOverlapInterval = 0, CertRotateInterval = 0, CertOverlapInterval = 0\<rparr>,
     verifying = False\<rparr>"

definition demo_webhook :: "string \<Rightarrow> Webhook" where
  "demo_webhook name = \<lparr>Webhook_Name = name, ClientConfig = \<lparr>Service = Some \<lparr>Service_Namespace = ''ns'',
     Service_Name = ''web'', service_rest = []\<rparr>, CABundle = None, config_rest = []\<rparr>, webhook_rest = []\<rparr>"

definition demo_config :: "Webhook list \<Rightarrow> Object" where
  "demo_config ws = MutatingConfiguration \<lparr>wc_Meta = \<lparr>Meta_Name = ''cfg'', Meta_Namespace = [], Annotations = [],
     meta_rest = []\<rparr>, Webhooks = ws\<rparr>"

definition demo_store :: "Webhook list \<Rightarrow> store" where
  "demo_store ws = \<lparr>objects = [((mutatingWebhookType, \<lparr>Namespace = [], Name = ''cfg''\<rparr>), demo_config ws)],
     delay = 2, version = 0\<rparr>"

definition demo_read :: "Webhook list \<Rightarrow> unit result \<times> store read_state" where
  "demo_read ws = readObjectsToChain demo_manager (store_client 6) hd (start_state demo_manager (demo_store ws))"

text \<open>C15. Reading does not panic, when the references of the manager are to mutating or validating
  webhooks and the client returns objects of the kind it is asked for: operators exist for every
  object, every secret is a secret, and a secret is only ever read for a service that has an entry.\<close>

theorem reading_never_panics:
  assumes "kube_api cl" "\<forall>w \<in> set (webhooks m). Ref_Type w \<in> {MutatingWebhook, ValidatingWebhook}"
  shows "\<not> is_Panic (fst (readCertificateChain m cl pick (initial_read s)))"
proof -
  obtain r st where r: "readObjectsToChain m cl pick (start_state m s) = (r, st)" by fastforce
  have "typed_references m" using assms(2) by (simp add: typed_references_def)
  from kube_api.read_run_no_panic [OF assms(1) readObjectsToChain_run [OF r] readable_start [OF this]] r
  show ?thesis by (simp add: readCertificateChain_start)
qed

theorem reading_never_panics_witness:
  "\<not> is_Panic (fst (readCertificateChain demo_manager (store_client 6) hd
     (initial_read (demo_store [demo_webhook ''a.b.c'']))))"
  by (rule reading_never_panics [OF store.kube_api_axioms]) (simp add: demo_manager_def)

section \<open>Names\<close>

text \<open>C30. Different services have different host names, since names of services contain no dot; so
  they do not share an entry of the chain.\<close>

theorem serviceHostname_inject:
  assumes "CHR ''.'' \<notin> set sn" "CHR ''.'' \<notin> set sn'" "serviceHostname sn ns = serviceHostname sn' ns'"
  shows "sn = sn' \<and> ns = ns'"
  using append_dot_inject [OF assms(1,2), of "ns @ serviceSubdomain" "ns' @ serviceSubdomain"] assms(3)
  by (simp add: serviceHostname_def)

theorem serviceHostname_inject_witness:
  "serviceHostname ''web'' ''a'' \<noteq> serviceHostname ''web'' ''b''"
  using serviceHostname_inject [of "''web''" "''web''" "''a''" "''b''"] by auto

section \<open>Webhooks\<close>

lemma client_config_loop_map:
  "map_of (client_config_loop i ws m) n =
     (case filter (\<lambda>j. Webhook_Name (ws ! j) = n \<and> Service (ClientConfig (ws ! j)) \<noteq> None) [0..<length ws] of
        [] \<Rightarrow> map_of m n
      | js \<Rightarrow> Some (i + last js))"
proof (induction i ws m rule: client_config_loop.induct)
  case (2 i w ws m)
  let ?P = "\<lambda>ws j. Webhook_Name (ws ! j) = n \<and> Service (ClientConfig (ws ! j)) \<noteq> None"
  have f: "filter (?P (w # ws)) [0..<length (w # ws)]
      = (if ?P (w # ws) 0 then [0] else []) @ map Suc (filter (?P ws) [0..<length ws])"
    by (simp add: upt_conv_Cons map_Suc_upt [symmetric] filter_map comp_def del: upt_Suc)
  have l: "last (map Suc js) = Suc (last js)" if "js \<noteq> []" for js :: "nat list"
    using that by (simp add: last_map)
  show ?case
    using "2.IH" unfolding f
    by (auto simp: update_conv' l split: list.splits if_splits)
qed simp

text \<open>C31. The client configuration found for a name is the one of the last webhook of that name among
  those backed by a service; a name without such a webhook has none.\<close>

theorem clientConfigMap_last:
  "map_of (clientConfigMap ob) n =
     (let js = filter (\<lambda>j. Webhook_Name (object_webhooks ob ! j) = n
                 \<and> Service (ClientConfig (object_webhooks ob ! j)) \<noteq> None) [0..<length (object_webhooks ob)]
      in if js = [] then None else Some (last js))"
  by (simp add: clientConfigMap_def client_config_loop_map split: list.split)

lemma mapWebhookFromChain_webhook:
  assumes "i < length (object_webhooks ob)"
  shows "object_webhooks (mapWebhookFromChain key d ob) ! i =
    (case map_of (clientConfigMap ob) (Webhook_Name (object_webhooks ob ! i)) of
       Some j \<Rightarrow> if j = i then apply_bundle (objectKey_String key) d (Webhook_Name (object_webhooks ob ! i)) (object_webhooks ob ! i)
         else object_webhooks ob ! i
     | None \<Rightarrow> object_webhooks ob ! i)"
proof -
  show ?thesis
  proof (cases "i \<in> snd ` set (clientConfigMap ob)")
    case True
    then obtain n where n: "(n, i) \<in> set (clientConfigMap ob)" by auto
    then have "Webhook_Name (object_webhooks ob ! i) = n" using clientConfigMap_entry by blast
    with mapWebhookFromChain_nth(2) [OF n, of key d] n clientConfigMap_distinct show ?thesis by simp
  next
    case False
    with mapWebhookFromChain_nth(3) [OF False, of key d] show ?thesis by (force split: option.split dest: map_of_SomeD)
  qed
qed

lemma clientConfigMap_FromChain [simp]: "clientConfigMap (mapWebhookFromChain key d ob) = clientConfigMap ob"
  unfolding clientConfigMap_def
proof (rule client_config_loop_cong, rule nth_equalityI)
  show "length (map (\<lambda>w. (Webhook_Name w, Service (ClientConfig w))) (object_webhooks (mapWebhookFromChain key d ob)))
      = length (map (\<lambda>w. (Webhook_Name w, Service (ClientConfig w))) (object_webhooks ob))"
    by (simp add: mapWebhookFromChain_nth(1))
  then show "map (\<lambda>w. (Webhook_Name w, Service (ClientConfig w))) (object_webhooks (mapWebhookFromChain key d ob)) ! i
      = map (\<lambda>w. (Webhook_Name w, Service (ClientConfig w))) (object_webhooks ob) ! i"
    if "i < length (map (\<lambda>w. (Webhook_Name w, Service (ClientConfig w))) (object_webhooks (mapWebhookFromChain key d ob)))" for i
    using that by (simp add: mapWebhookFromChain_webhook split: option.split)
qed

text \<open>C16. A CA bundle that the chain holds for a client configuration is written to that
  configuration, and reading the configuration gives the bundle back to the chain, under the same
  service and name.\<close>

theorem webhook_bundle_roundtrip:
  assumes "map_of (clientConfigMap ob) name = Some i" "Service (ClientConfig (object_webhooks ob ! i)) = Some svc"
    and "map_of (CertificatesIssued d) (serviceHostname (Service_Name svc) (Service_Namespace svc)) = Some ci"
    and "map_of (CACertPEM ci) (caBundleName (objectKey_String key) name) = Some (Some b)"
  shows "CABundle (ClientConfig (object_webhooks (mapWebhookFromChain key d ob) ! i)) = Some b
    \<and> bundle_at (snd (mapWebhookToChain p key (mapWebhookFromChain key d ob) os d0))
        (serviceHostname (Service_Name svc) (Service_Namespace svc)) (caBundleName (objectKey_String key) name)
      = Some (Some b)"
proof -
  note entry = map_of_SomeD [OF assms(1)]
  from clientConfigMap_entry [OF entry] have i: "i < length (object_webhooks ob)" "Webhook_Name (object_webhooks ob ! i) = name"
    by simp_all
  have w: "object_webhooks (mapWebhookFromChain key d ob) ! i
      = apply_bundle (objectKey_String key) d name (object_webhooks ob ! i)"
    using mapWebhookFromChain_webhook [OF i(1), of key d] assms(1) i(2) by simp
  then have "CABundle (ClientConfig (object_webhooks (mapWebhookFromChain key d ob) ! i)) = Some b"
    using assms(2-4) by (simp add: apply_bundle_def lookup_slice_def)
  moreover have "Service (ClientConfig (object_webhooks (mapWebhookFromChain key d ob) ! i)) = Some svc"
    using w assms(2) by simp
  ultimately show ?thesis using mapWebhookToChain_bundle [of name i "mapWebhookFromChain key d ob" svc] entry by simp
qed

definition demo_issued :: CertificateChainData where
  "demo_issued = \<lparr>CertificatesIssued = [(''web.ns.svc'', (newCertificateIssue ''web'' ''ns'')\<lparr>KeyPEM := Some ''k'',
       CertPEM := Some ''c'', CACertPEM := [(''Mutating//cfg-a.b.c'', Some ''ca'')]\<rparr>)],
     Chain_CA = \<lparr>CA_Name = ''ns/hooks-ca'', CA_KeyPEM = Some ''ck'', CA_CertPEM = Some ''cc'',
       CA_keyPair = \<lparr>Key = None, Cert = None\<rparr>\<rparr>\<rparr>"

theorem webhook_bundle_roundtrip_witness:
  "bundle_at (snd (mapWebhookToChain 0 (newObjectKey MutatingWebhook [] ''cfg'')
      (mapWebhookFromChain (newObjectKey MutatingWebhook [] ''cfg'') demo_issued (demo_config [demo_webhook ''a.b.c'']))
      empty_objectMap empty_chain)) ''web.ns.svc'' ''Mutating//cfg-a.b.c'' = Some (Some ''ca'')"
proof -
  let ?key = "newObjectKey MutatingWebhook [] ''cfg''" and ?ob = "demo_config [demo_webhook ''a.b.c'']"
  have names: "serviceHostname ''web'' ''ns'' = ''web.ns.svc''"
    "caBundleName (objectKey_String ?key) ''a.b.c'' = ''Mutating//cfg-a.b.c''"
    by (simp_all add: serviceHostname_def serviceSubdomain_def caBundleName_def objectKey_String_def newObjectKey_def
        NamespacedName_String_def MutatingWebhook_def)
  have "map_of (clientConfigMap ?ob) ''a.b.c'' = Some 0"
    by (simp add: clientConfigMap_def demo_config_def demo_webhook_def)
  from webhook_bundle_roundtrip [OF this, where key = ?key and d = demo_issued and b = "''ca''"
      and svc = "\<lparr>Service_Namespace = ''ns'', Service_Name = ''web'', service_rest = []\<rparr>"
      and p = 0 and os = empty_objectMap and ?d0.0 = empty_chain] names show ?thesis
    by (simp add: demo_config_def demo_webhook_def demo_issued_def)
qed

section \<open>Secrets\<close>

text \<open>C17. What is written to the secret of a service or of the CA is read back from it: the private
  key and the certificates, whatever else the secret holds, and nothing else of the chain changes.\<close>

theorem secret_roundtrip:
  assumes "mapSecretFromChain key d ob = Ok ob'" "CA_Name (Chain_CA d0) = CA_Name (Chain_CA d)"
  shows "(NamespacedName_String (key_Name key) = CA_Name (Chain_CA d) \<longrightarrow>
      CA_KeyPEM (Chain_CA d) \<noteq> None \<longrightarrow> CA_CertPEM (Chain_CA d) \<noteq> None \<longrightarrow>
      mapSecretToChain key ob' d0 = Ok (d0\<lparr>Chain_CA := (Chain_CA d0)\<lparr>CA_KeyPEM := CA_KeyPEM (Chain_CA d),
        CA_CertPEM := CA_CertPEM (Chain_CA d)\<rparr>\<rparr>))
    \<and> (NamespacedName_String (key_Name key) \<noteq> CA_Name (Chain_CA d) \<longrightarrow>
      h = serviceHostname (Name (key_Name key)) (Namespace (key_Name key)) \<longrightarrow>
      map_of (CertificatesIssued d) h = Some ci \<longrightarrow> KeyPEM ci \<noteq> None \<longrightarrow> CertPEM ci \<noteq> None \<longrightarrow>
      map_of (CertificatesIssued d0) h = Some ci0 \<longrightarrow>
      mapSecretToChain key ob' d0 = Ok (d0\<lparr>CertificatesIssued :=
        AList.update h (ci0\<lparr>KeyPEM := KeyPEM ci, CertPEM := CertPEM ci\<rparr>) (CertificatesIssued d0)\<rparr>))"
  using assms
  by (auto simp: mapSecretFromChain_def mapSecretToChain_def mapCASecretFromChain_def mapCASecretToChain_def
      mapServiceSecretFromChain_def mapServiceSecretToChain_def Let_def secret_value_def
      split: Object.splits)

theorem secret_roundtrip_witness:
  "mapSecretToChain (newObjectKey secretType ''ns'' ''hooks-ca'')
     (SecretObject \<lparr>secret_Meta = \<lparr>Meta_Name = ''hooks-ca'', Meta_Namespace = ''ns'', Annotations = [], meta_rest = []\<rparr>,
        Data = Some [(CAPrivateKeyKey, Some ''ck''), (CACertKey, Some ''cc'')], secret_Type = SecretTypeOpaque\<rparr>)
     (empty_chain\<lparr>Chain_CA := (Chain_CA empty_chain)\<lparr>CA_Name := ''ns/hooks-ca''\<rparr>\<rparr>)
   = Ok (empty_chain\<lparr>Chain_CA := (Chain_CA empty_chain)\<lparr>CA_Name := ''ns/hooks-ca'', CA_KeyPEM := Some ''ck'',
       CA_CertPEM := Some ''cc''\<rparr>\<rparr>)"
proof -
  let ?key = "newObjectKey secretType ''ns'' ''hooks-ca''"
  let ?m = "\<lparr>Meta_Name = ''hooks-ca'', Meta_Namespace = ''ns'', Annotations = [], meta_rest = []\<rparr>"
  have "mapSecretFromChain ?key demo_issued (SecretObject \<lparr>secret_Meta = ?m, Data = None, secret_Type = []\<rparr>)
      = Ok (SecretObject \<lparr>secret_Meta = ?m, Data = Some [(CAPrivateKeyKey, Some ''ck''), (CACertKey, Some ''cc'')],
          secret_Type = SecretTypeOpaque\<rparr>)"
    by (simp add: mapSecretFromChain_def mapCASecretFromChain_def demo_issued_def newObjectKey_def
        NamespacedName_String_def secret_data_def)
  from secret_roundtrip [OF this, of "empty_chain\<lparr>Chain_CA := (Chain_CA empty_chain)\<lparr>CA_Name := ''ns/hooks-ca''\<rparr>\<rparr>"]
  show ?thesis by (simp add: demo_issued_def newObjectKey_def NamespacedName_String_def)
qed

section \<open>Writing\<close>

definition demo_secret_key :: objectKey where
  "demo_secret_key = newObjectKey secretType ''ns'' ''web''"

definition demo_objects :: objectMap where
  "demo_objects = (let ko = \<lparr>obj_key = demo_secret_key, kobject = Some (initSecret ''web'' ''ns'')\<rparr> in
     \<lparr>entries = [(1, ko), (2, ko)], next_ptr = 3\<rparr>)"

definition demo_write :: "unit result \<times> objectMap \<times> store" where
  "demo_write = writeObjectFromChain (store_client 6) demo_issued 1 demo_objects (demo_store [])"

lemma demo_write_ok: "fst demo_write = Ok ()"
  by code_simp

text \<open>A secret as it is created has no data; what the chain gives a service's secret has.\<close>

lemma secret_from_chain:
  assumes "mapSecretFromChain key d ob = Ok ob'" "NamespacedName_String (key_Name key) \<noteq> CA_Name (Chain_CA d)"
    and "map_of (CertificatesIssued d) (serviceHostname (Name (key_Name key)) (Namespace (key_Name key))) = Some ci"
  obtains s m where "ob = SecretObject s" "ob' = SecretObject (s\<lparr>secret_Type := SecretTypeTLS, Data := Some m\<rparr>)"
  using assms
  by (auto simp: mapSecretFromChain_def mapServiceSecretFromChain_def Let_def split: Object.splits)

lemma objectOperatorsMap_secret:
  "objectOperatorsMap secretType = Some ops \<Longrightarrow> fromChainMapper ops = mapSecretFromChain"
  by (auto simp: objectOperatorsMap_def secretType_def mutatingWebhookType_def validatingWebhookType_def
      MutatingWebhook_def ValidatingWebhook_def)

text \<open>C36. When two entries of the object map stand for the same secret of a service and the secret
  does not exist yet, writing the first one creates it and writing the second one fails: what was
  just created counts as a change since the object was read.\<close>

theorem duplicate_secret_write_fails:
  assumes "kube_store cl view" "p \<noteq> q" "Kind key = secretType" "view s secretType (key_Name key) = None"
    and "map_of (entries os) p = Some \<lparr>obj_key = key, kobject = Some old\<rparr>"
    and "map_of (entries os) q = Some \<lparr>obj_key = key, kobject = Some old\<rparr>"
    and "old = initSecret (Name (key_Name key)) (Namespace (key_Name key))"
    and "NamespacedName_String (key_Name key) \<noteq> CA_Name (Chain_CA d)"
    and "map_of (CertificatesIssued d) (serviceHostname (Name (key_Name key)) (Namespace (key_Name key))) = Some ci"
    and "writeObjectFromChain cl d p os s = (Ok (), os1, s1)"
  shows "\<not> is_Ok (fst (writeObjectFromChain cl d q os1 s1))"
proof
  note get_view = kube_store.get_view_kept [OF assms(1)]
  define ko where "ko = \<lparr>obj_key = key, kobject = Some old\<rparr>"
  have ko: "kobject ko = Some old" "obj_key ko = key" "Kind (obj_key ko) = secretType" by (simp_all add: ko_def assms(3))
  have kind: "object_kind old = secretType" and name: "object_name old = key_Name key"
    by (simp_all add: assms(7) initSecret_def object_name_def)
  have data: "\<not> DeepEqual old (with_rest r (SecretObject (x\<lparr>secret_Type := t, Data := Some m\<rparr>)))"
    "\<not> DeepEqual old (SecretObject (x\<lparr>secret_Type := t, Data := Some m\<rparr>))" for r x t m
    by (simp_all add: assms(7) initSecret_def data_equal_def)
  note from_chain = secret_from_chain [OF _ assms(8,9)]
  obtain g c s0 where g: "get cl (key_Name (obj_key ko)) old s = (g, c, s0)" by (metis prod_cases3)
  have not_ok: "g \<noteq> Ok ()" using get_view(2) [OF g] assms(4) kind ko(2) by auto
  then have c: "c = old" by (rule get_view(3) [OF g])
  have "\<exists>x t m r. view s1 secretType (key_Name key) = Some (with_rest r (SecretObject (x\<lparr>secret_Type := t, Data := Some m\<rparr>)))
      \<and> map_of (entries os1) q = Some ko"
    using assms(10) assms(5) [folded ko_def] ko(1) g
  proof (cases rule: writeObjectFromChain_cases)
    case (noop ops ob)
    with objectOperatorsMap_secret ko have "mapSecretFromChain key d old = Ok ob" by (simp add: c)
    from from_chain [OF this] noop data show ?thesis by metis
  next
    case (written ops ob er)
    with objectOperatorsMap_secret ko have "mapSecretFromChain key d old = Ok ob" by (simp add: c)
    from from_chain [OF this] obtain x m where x: "old = SecretObject x"
      "ob = SecretObject (x\<lparr>secret_Type := SecretTypeTLS, Data := Some m\<rparr>)" .
    from written not_ok have "client_Create cl ob s0 = (None, s1)" by (cases er) auto
    from kube_store.create_ok [OF assms(1) this] obtain r where "view s1 (object_kind ob) (object_name ob) = Some (with_rest r ob)"
      by auto
    moreover have "object_kind ob = secretType" "object_name ob = key_Name key"
      using x kind name by (simp_all add: object_name_def)
    moreover have "map_of (entries os1) q = Some ko" using written assms(2,6) by (simp add: map_of_set_kobject ko_def)
    ultimately show ?thesis using x by metis
  qed (use not_ok in auto)
  then obtain x t m r where v: "view s1 secretType (key_Name key) = Some (with_rest r (SecretObject (x\<lparr>secret_Type := t, Data := Some m\<rparr>)))"
    and q: "map_of (entries os1) q = Some ko" by blast
  obtain g' c' s' where g': "get cl (key_Name (obj_key ko)) old s1 = (g', c', s')" by (metis prod_cases3)
  have found: "\<not> IsNotFound g'" using get_view(4) [OF g'] v kind ko(2) by auto
  assume ok: "is_Ok (fst (writeObjectFromChain cl d q os1 s1))"
  then obtain os2 s2 where w: "writeObjectFromChain cl d q os1 s1 = (Ok (), os2, s2)"
    by (cases "writeObjectFromChain cl d q os1 s1") (auto simp: is_Ok_iff)
  from w q ko(1) g' show False
  proof (cases rule: writeObjectFromChain_cases)
    case (noop ops ob)
    with objectOperatorsMap_secret ko have "mapSecretFromChain key d c' = Ok ob" by simp
    from from_chain [OF this] noop data show ?thesis by metis
  next
    case (written ops ob er)
    with found have "view s1 (object_kind old) (key_Name (obj_key ko)) = Some c'" using get_view(2) [OF g'] by blast
    with v kind ko(2) written(5) data show ?thesis by auto
  qed auto
qed

theorem duplicate_secret_write_fails_witness:
  "fst demo_write = Ok () \<and>
   \<not> is_Ok (fst (writeObjectFromChain (store_client 6) demo_issued 2 (fst (snd demo_write)) (snd (snd demo_write))))"
proof -
  let ?key = demo_secret_key
  have w: "writeObjectFromChain (store_client 6) demo_issued 1 demo_objects (demo_store [])
      = (Ok (), fst (snd demo_write), snd (snd demo_write))"
    using demo_write_ok by (cases demo_write) (simp add: demo_write_def)
  have "\<not> is_Ok (fst (writeObjectFromChain (store_client 6) demo_issued 2 (fst (snd demo_write)) (snd (snd demo_write))))"
    by (rule duplicate_secret_write_fails [OF store.kube_store_axioms, where key = ?key and s = "demo_store []"
          and p = 1 and os = demo_objects and ci = "snd (hd (CertificatesIssued demo_issued))"])
      (use w in \<open>simp_all add: demo_objects_def Let_def demo_secret_key_def newObjectKey_def demo_issued_def
        NamespacedName_String_def serviceHostname_def serviceSubdomain_def store_view_def demo_store_def
        secretType_def mutatingWebhookType_def MutatingWebhook_def\<close>)
  with demo_write_ok show ?thesis by simp
qed

lemma add_object_fresh:
  assumes "\<forall>(p, ko) \<in> set (entries os). p < next_ptr os"
  shows "entries (add_object k os) = entries os @ [(next_ptr os, \<lparr>obj_key = k, kobject = None\<rparr>)]"
    "\<forall>(p, ko) \<in> set (entries (add_object k os)). p < next_ptr (add_object k os)"
proof -
  have new: "next_ptr os \<notin> fst ` set (entries os)" using assms by fastforce
  then have "map_of (entries os) (next_ptr os) = None" by (simp add: map_of_eq_None_iff)
  moreover have "AList.update p v m = m @ [(p, v)]" if "p \<notin> fst ` set m" for p :: nat and v :: keyedObject and m
    using that by (induction m) auto
  ultimately show "entries (add_object k os) = entries os @ [(next_ptr os, \<lparr>obj_key = k, kobject = None\<rparr>)]"
    using new by (simp add: add_object_def Let_def)
  with assms \<open>map_of _ _ = None\<close> show "\<forall>(p, ko) \<in> set (entries (add_object k os)). p < next_ptr (add_object k os)"
    by (auto simp: add_object_def Let_def)
qed

definition entries_of :: "objectKey \<Rightarrow> objectMap \<Rightarrow> nat" where
  "entries_of k os = length (filter (\<lambda>(p, ko). obj_key ko = k) (entries os))"

definition served_by :: "objectKey \<Rightarrow> Webhook list \<Rightarrow> string \<times> nat \<Rightarrow> bool" where
  "served_by k ws c = (case Service (ClientConfig (ws ! snd c)) of None \<Rightarrow> False
     | Some svc \<Rightarrow> newObjectKey secretType (Service_Namespace svc) (Service_Name svc) = k)"

lemma webhook_to_chain_loop_entries:
  "\<forall>(p, ko) \<in> set (entries os). p < next_ptr os \<Longrightarrow>
   entries_of k (fst (webhook_to_chain_loop key ws m os d)) = entries_of k os + length (filter (served_by k ws) m)"
proof (induction m arbitrary: os d)
  case (Cons kv m)
  obtain name i where kv: "kv = (name, i)" by fastforce
  show ?case
  proof (cases "Service (ClientConfig (ws ! i))")
    case None
    with Cons show ?thesis by (simp add: kv served_by_def)
  next
    case (Some svc)
    let ?k = "newObjectKey secretType (Service_Namespace svc) (Service_Name svc)"
    have "entries_of k (add_object ?k os) = entries_of k os + (if ?k = k then 1 else 0)"
      using add_object_fresh(1) [OF Cons.prems] by (simp add: entries_of_def)
    with Cons.IH [OF add_object_fresh(2) [OF Cons.prems]] Some show ?thesis
      by (simp add: kv webhook_to_chain_loop_step served_by_def secretType_def del: webhook_to_chain_loop.simps)
  qed
qed simp

text \<open>C37. Reading a webhook configuration adds one entry for the secret of a service for every client
  configuration that the service backs, also when the object map has entries for it already: the
  map is keyed by pointers to keys, and the key that is looked up has just been allocated.\<close>

theorem reading_adds_duplicates:
  assumes "\<forall>(p, ko) \<in> set (entries os). p < next_ptr os" "clientConfigMap ob \<noteq> []"
  shows "entries_of k (fst (mapWebhookToChain p key ob os d))
    = entries_of k os + length (filter (served_by k (object_webhooks ob)) (clientConfigMap ob))"
  using webhook_to_chain_loop_entries [OF assms(1)] assms(2) by (simp add: mapWebhookToChain_def Let_def)

theorem reading_adds_duplicates_witness:
  "entries_of demo_secret_key (fst (mapWebhookToChain 0 (newObjectKey MutatingWebhook [] ''cfg'')
     (demo_config [demo_webhook ''a.b.c'', demo_webhook ''d.e.f'']) empty_objectMap empty_chain)) = 2"
proof -
  let ?ob = "demo_config [demo_webhook ''a.b.c'', demo_webhook ''d.e.f'']"
  have "clientConfigMap ?ob = [(''a.b.c'', 0), (''d.e.f'', 1)]"
    by (simp add: clientConfigMap_def demo_config_def demo_webhook_def)
  with reading_adds_duplicates [of empty_objectMap ?ob] show ?thesis
    by (simp add: empty_objectMap_def entries_of_def served_by_def demo_secret_key_def demo_config_def demo_webhook_def)
qed

end
