(* ===== verification/X509_Ref.thy ===== *)
theory X509_Ref
  imports Triple
begin

text \<open>
  A library that satisfies the laws of \<open>x509_lib\<close>: certificates and keys are serialized field
  by field, a signature names the public key of the signer, and path validation looks for a
  certificate of the pool that was made for that key. It shows that the laws can hold together
  and carries the concrete instances of the theorems that assume them.
\<close>

section \<open>Serialization\<close>

text \<open>An encoder and a decoder that reads one encoded value from the front of its input.\<close>

locale codec =
  fixes enc :: "'a \<Rightarrow> bytes" and dec :: "bytes \<Rightarrow> ('a \<times> bytes) option"
  assumes dec_enc [simp]: "dec (enc x @ s) = Some (x, s)"
begin

lemma dec_enc_Nil: "dec (enc x) = Some (x, [])"
  using dec_enc [of x "[]"] by simp

end

fun enc_nat :: "nat \<Rightarrow> bytes" where
  "enc_nat n = (if n = 0 then ''.''
     else (if odd n then CHR ''1'' else CHR ''0'') # enc_nat (n div 2))"

declare enc_nat.simps [simp del]

fun dec_nat :: "bytes \<Rightarrow> (nat \<times> bytes) option" where
  "dec_nat [] = None"
| "dec_nat (c # s) =
     (if c = CHR ''.'' then Some (0, s)
      else map_option (\<lambda>(n, r). ((if c = CHR ''1'' then 1 else 0) + 2 * n, r)) (dec_nat s))"

interpretation nat: codec enc_nat dec_nat
proof
  fix n s
  show "dec_nat (enc_nat n @ s) = Some (n, s)"
  proof (induction n rule: enc_nat.induct)
    case (1 n)
    show ?case
    proof (cases "n = 0")
      case True
      then show ?thesis by (subst enc_nat.simps) simp
    next
      case False
      with 1 have "dec_nat (enc_nat (n div 2) @ s) = Some (n div 2, s)" by simp
      with False show ?thesis by (subst enc_nat.simps) auto
    qed
  qed
qed

definition enc_int :: "int \<Rightarrow> bytes" where
  "enc_int i = (if i < 0 then CHR ''-'' else CHR ''+'') # enc_nat (nat \<bar>i\<bar>)"

definition dec_int :: "bytes \<Rightarrow> (int \<times> bytes) option" where
  "dec_int s = (case s of [] \<Rightarrow> None
     | c # r \<Rightarrow> map_option (\<lambda>(n, r'). (if c = CHR ''-'' then - int n else int n, r')) (dec_nat r))"

interpretation int: codec enc_int dec_int
  by unfold_locales (auto simp: enc_int_def dec_int_def)

definition enc_list :: "('a \<Rightarrow> bytes) \<Rightarrow> 'a list \<Rightarrow> bytes" where
  "enc_list f xs = enc_nat (length xs) @ concat (map f xs)"

fun dec_times :: "(bytes \<Rightarrow> ('a \<times> bytes) option) \<Rightarrow> nat \<Rightarrow> bytes \<Rightarrow> ('a list \<times> bytes) option" where
  "dec_times g 0 s = Some ([], s)"
| "dec_times g (Suc n) s =
     (case g s of None \<Rightarrow> None
      | Some (x, r) \<Rightarrow> map_option (\<lambda>(xs, r'). (x # xs, r')) (dec_times g n r))"

definition dec_list :: "(bytes \<Rightarrow> ('a \<times> bytes) option) \<Rightarrow> bytes \<Rightarrow> ('a list \<times> bytes) option" where
  "dec_list g s = (case dec_nat s of None \<Rightarrow> None | Some (n, r) \<Rightarrow> dec_times g n r)"

lemma codec_list:
  assumes "codec f g"
  shows "codec (enc_list f) (dec_list g)"
proof
  fix xs s
  have "dec_times g (length xs) (concat (map f xs) @ s) = Some (xs, s)"
    by (induction xs) (simp_all add: codec.dec_enc [OF assms])
  then show "dec_list g (enc_list f xs @ s) = Some (xs, s)"
    by (simp add: dec_list_def enc_list_def)
qed

definition enc_char :: "char \<Rightarrow> bytes" where
  "enc_char c = [c]"

definition dec_char :: "bytes \<Rightarrow> (char \<times> bytes) option" where
  "dec_char s = (case s of [] \<Rightarrow> None | c # r \<Rightarrow> Some (c, r))"

interpretation char: codec enc_char dec_char
  by unfold_locales (simp add: enc_char_def dec_char_def)

definition enc_pair :: "('a \<Rightarrow> bytes) \<Rightarrow> ('b \<Rightarrow> bytes) \<Rightarrow> 'a \<times> 'b \<Rightarrow> bytes" where
  "enc_pair f g p = f (fst p) @ g (snd p)"

definition dec_pair ::
  "(bytes \<Rightarrow> ('a \<times> bytes) option) \<Rightarrow> (bytes \<Rightarrow> ('b \<times> bytes) option) \<Rightarrow> bytes \<Rightarrow> (('a \<times> 'b) \<times> bytes) option" where
  "dec_pair f g s = (case f s of None \<Rightarrow> None
     | Some (x, r) \<Rightarrow> map_option (\<lambda>(y, r'). ((x, y), r')) (g r))"

lemma codec_pair:
  assumes "codec f f'" "codec g g'"
  shows "codec (enc_pair f g) (dec_pair f' g')"
  by unfold_locales
    (simp add: enc_pair_def dec_pair_def codec.dec_enc [OF assms(1)] codec.dec_enc [OF assms(2)])

text \<open>A certificate or a key is serialized as its numbers and its strings.\<close>

type_synonym fields = "int list list \<times> string list list"

definition enc_fields :: "fields \<Rightarrow> bytes" where
  "enc_fields = enc_pair (enc_list (enc_list enc_int)) (enc_list (enc_list (enc_list enc_char)))"

definition dec_fields :: "bytes \<Rightarrow> (fields \<times> bytes) option" where
  "dec_fields = dec_pair (dec_list (dec_list dec_int)) (dec_list (dec_list (dec_list dec_char)))"

interpretation fields: codec enc_fields dec_fields
  unfolding enc_fields_def dec_fields_def
  by (intro codec_pair codec_list int.codec_axioms char.codec_axioms)

section \<open>Certificates and keys\<close>

definition usage_int :: "ext_key_usage \<Rightarrow> int" where
  "usage_int u = (case u of ExtKeyUsageServerAuth \<Rightarrow> 1 | ExtKeyUsageClientAuth \<Rightarrow> 2)"

definition int_usage :: "int \<Rightarrow> ext_key_usage" where
  "int_usage i = (if i = 1 then ExtKeyUsageServerAuth else ExtKeyUsageClientAuth)"

definition pub_fields :: "public_key \<Rightarrow> int list \<times> string" where
  "pub_fields p = (case p of
     RSA_pub k \<Rightarrow> ([0, rsa_N k, rsa_E k], [])
   | EC_pub k \<Rightarrow> ([1, ec_X k, ec_Y k], [])
   | Other_pub s \<Rightarrow> ([2], s))"

fun fields_pub :: "int list \<times> string \<Rightarrow> public_key" where
  "fields_pub ([tag, x, y], s) =
     (if tag = 0 then RSA_pub \<lparr>rsa_N = x, rsa_E = y\<rparr> else EC_pub \<lparr>ec_X = x, ec_Y = y\<rparr>)"
| "fields_pub (_, s) = Other_pub s"

lemma int_usage_int [simp]: "int_usage (usage_int u) = u"
  by (cases u) (simp_all add: usage_int_def int_usage_def)

lemma map_int_usage [simp]: "map (int_usage \<circ> usage_int) us = us"
  by (induction us) simp_all

lemma fields_pub_fields [simp]: "fields_pub (pub_fields p) = p"
  by (cases p) (simp_all add: pub_fields_def)

definition cert_fields :: "certificate \<Rightarrow> fields" where
  "cert_fields c =
     ([[SerialNumber c, NotBefore c, NotAfter c, KeyUsage c,
        of_bool (BasicConstraintsValid c), of_bool (IsCA c)],
       map usage_int (ExtKeyUsage c), fst (pub_fields (PublicKey c))],
      [[Signature c, SubjectCommonName c, snd (pub_fields (PublicKey c))],
       SubjectOrganization c, DNSNames c, IPAddresses c])"

definition marshal_cert :: "certificate \<Rightarrow> bytes" where
  "marshal_cert c = enc_fields (cert_fields c)"

definition parse_cert :: "bytes \<Rightarrow> string + certificate" where
  "parse_cert der =
     (case dec_fields der of
        Some (([[serial, nb, na, ku, bcv, isca], eku, pk], [[sg, cn, other], org, dns, ips]), []) \<Rightarrow>
          Inr \<lparr>Raw = der, Signature = sg, SerialNumber = serial, SubjectCommonName = cn,
            SubjectOrganization = org, NotBefore = nb, NotAfter = na, KeyUsage = ku,
            ExtKeyUsage = map int_usage eku, BasicConstraintsValid = (bcv = 1), IsCA = (isca = 1),
            DNSNames = dns, IPAddresses = ips, PublicKey = fields_pub (pk, other)\<rparr>
      | _ \<Rightarrow> Inl ''malformed certificate'')"

lemma parse_marshal_cert: "parse_cert (marshal_cert c) = Inr (c\<lparr>Raw := marshal_cert c\<rparr>)"
  by (cases c) (simp add: parse_cert_def marshal_cert_def cert_fields_def fields.dec_enc_Nil)

lemma parse_cert_raw: "parse_cert der = Inr c \<Longrightarrow> Raw c = der"
  by (auto simp: parse_cert_def split: option.splits prod.splits list.splits)

definition marshal_rsa :: "rsa_PrivateKey \<Rightarrow> bytes" where
  "marshal_rsa k = enc_fields ([[rsa_N (rsa_Public k), rsa_E (rsa_Public k), rsa_D k]], [])"

definition parse_rsa :: "bytes \<Rightarrow> string + rsa_PrivateKey" where
  "parse_rsa der = (case dec_fields der of
     Some (([[n, e, d]], []), []) \<Rightarrow> Inr \<lparr>rsa_Public = \<lparr>rsa_N = n, rsa_E = e\<rparr>, rsa_D = d\<rparr>
   | _ \<Rightarrow> Inl ''malformed key'')"

lemma parse_marshal_rsa [simp]: "parse_rsa (marshal_rsa k) = Inr k"
  by (cases k) (simp add: parse_rsa_def marshal_rsa_def fields.dec_enc_Nil)

section \<open>The library\<close>

definition sign :: "rsa_PrivateKey \<Rightarrow> bytes" where
  "sign k = enc_fields ([fst (pub_fields (RSA_pub (rsa_Public k)))], [])"

definition signature_ok :: "certificate \<Rightarrow> certificate \<Rightarrow> bool" where
  "signature_ok ca c = (Signature c = enc_fields ([fst (pub_fields (PublicKey ca))], []))"

text \<open>The certificate made from a template; times are cut to whole seconds.\<close>

definition make_cert :: "certificate \<Rightarrow> public_key \<Rightarrow> rsa_PrivateKey \<Rightarrow> certificate" where
  "make_cert tmpl pub k = tmpl\<lparr>Signature := sign k, NotBefore := trunc_second (NotBefore tmpl),
     NotAfter := trunc_second (NotAfter tmpl), PublicKey := pub\<rparr>"

definition verify_cert :: "certificate list \<Rightarrow> string \<Rightarrow> time \<Rightarrow> certificate \<Rightarrow> string option" where
  "verify_cert roots h t c =
     (if t < NotBefore c \<or> NotAfter c < t then Some ''certificate has expired or is not yet valid''
      else if h \<notin> set (DNSNames c) then Some ''certificate is not valid for this name''
      else if ExtKeyUsageServerAuth \<notin> set (ExtKeyUsage c) then Some ''incompatible key usage''
      else if \<not> list_ex (\<lambda>ca. valid_at t ca \<and> IsCA ca \<and> signature_ok ca c) roots
        then Some ''certificate signed by unknown authority''
      else None)"

definition ref_ParseIP :: "string \<Rightarrow> bytes option" where
  "ref_ParseIP s = (if s \<noteq> [] \<and> list_all (\<lambda>c. c \<in> set ''0123456789.'') s then Some s else None)"

definition ref_key :: "nat \<Rightarrow> rsa_PrivateKey" where
  "ref_key n = \<lparr>rsa_Public = \<lparr>rsa_N = 2 * int n + 3, rsa_E = 65537\<rparr>, rsa_D = int n\<rparr>"

definition ref_lib :: "(nat \<Rightarrow> time) \<Rightarrow> go_lib" where
  "ref_lib now = \<lparr>
     lib_now = now,
     lib_GenerateKey = (\<lambda>n. Inr (ref_key n)),
     lib_ecdsa_GenerateKey = (\<lambda>n. Inr \<lparr>ec_Public = \<lparr>ec_X = int n, ec_Y = 0\<rparr>, ec_D = int n\<rparr>),
     lib_rand_Int = (\<lambda>n. Inr (int n)),
     lib_CreateCertificate = (\<lambda>n tmpl parent pub k. Inr (marshal_cert (make_cert tmpl pub k))),
     lib_ParseCertificate = parse_cert,
     lib_Verify = verify_cert,
     lib_MarshalPKCS1PrivateKey = marshal_rsa,
     lib_ParsePKCS1PrivateKey = parse_rsa,
     lib_ParsePKCS8PrivateKey = (\<lambda>der. map_sum id RSA_key (parse_rsa der)),
     lib_MarshalECPrivateKey = (\<lambda>k. Inr (enc_fields ([[ec_X (ec_Public k), ec_Y (ec_Public k), ec_D k]], []))),
     lib_ParseECPrivateKey = (\<lambda>der. Inl ''not an EC key''),
     lib_MarshalPKIXPublicKey = (\<lambda>k. Inr (enc_fields ([[rsa_N k, rsa_E k]], []))),
     lib_ParsePKIXPublicKey = (\<lambda>der. Inl ''not a public key''),
     lib_ParseIP = ref_ParseIP,
     lib_IPString = id\<rparr>"

lemma ref_lib_sel [simp]:
  "lib_now (ref_lib now) = now" "lib_GenerateKey (ref_lib now) n = Inr (ref_key n)"
  "lib_rand_Int (ref_lib now) n = Inr (int n)"
  "lib_CreateCertificate (ref_lib now) n tmpl parent pub k = Inr (marshal_cert (make_cert tmpl pub k))"
  "lib_ParseCertificate (ref_lib now) = parse_cert" "lib_Verify (ref_lib now) = verify_cert"
  "lib_MarshalPKCS1PrivateKey (ref_lib now) = marshal_rsa" "lib_ParsePKCS1PrivateKey (ref_lib now) = parse_rsa"
  "lib_ParseIP (ref_lib now) = ref_ParseIP"
  by (simp_all add: ref_lib_def)

lemma issued_signature: "issued_by (ref_lib now) ca k c \<Longrightarrow> Signature c = sign k"
  by (auto simp: issued_by_def parse_marshal_cert make_cert_def)

interpretation ref: x509_lib "ref_lib now" for now
proof
  fix roots h t c ca k
  assume "signing_ca ca k" "issued_by (ref_lib now) ca k c" "ca \<in> set roots"
    "valid_at t ca" "valid_at t c" "h \<in> set (DNSNames c)" "ExtKeyUsageServerAuth \<in> set (ExtKeyUsage c)"
  then show "lib_Verify (ref_lib now) roots h t c = None"
    using issued_signature [of now ca k c]
    by (auto simp: verify_cert_def valid_at_def signing_ca_def signature_ok_def sign_def list_ex_iff)
qed (auto simp: parse_cert_raw parse_marshal_cert issued_as_def make_cert_def verify_cert_def valid_at_def
    split: if_splits)

end
