(* ===== verification/Chain_Theorems.thy ===== *)
theory Chain_Theorems
  imports Chain_Total X509_Ref
begin

text \<open>
  The properties of the certificate chain as its users see it, through \<^verbatim>\<open>Update\<close> and
  \<^verbatim>\<open>Verify\<close>, with instances on the reference library.
\<close>

section \<open>A concrete chain\<close>

text \<open>One service with one CA bundle and nothing issued yet, and a clock that stands still.\<close>

definition demo_issue :: CertificateIssue where
  "demo_issue = \<lparr>Issue_Name = ''web'', IPs = [], Hostnames = [''web'', ''web.ns'', ''web.ns.svc''],
     KeyPEM = None, CertPEM = None, CACertPEM = [(''hook'', None)],
     issue_key = None, issue_certs = [], issue_caCerts = []\<rparr>"

definition demo_data :: CertificateChainData where
  "demo_data = \<lparr>CertificatesIssued = [(''web'', demo_issue)],
     Chain_CA = \<lparr>CA_Name = ''ca'', CA_KeyPEM = None, CA_CertPEM = None,
       CA_keyPair = \<lparr>Key = None, Cert = None\<rparr>\<rparr>\<rparr>"

definition demo_lib :: go_lib where
  "demo_lib = ref_lib (\<lambda>_. 1000 * OneYearDuration)"

definition demo_env :: env where
  "demo_env = \<lparr>ticks = 0, draws = 0\<rparr>"

definition demo_options :: Options where
  "demo_options = \<lparr>CARotateInterval = 0, CAOverlapInterval = 0, CertRotateInterval = 0, CertOverlapInterval = 0\<rparr>"

lemma demo_defaults: "withDefaults demo_options =
   \<lparr>CARotateInterval = 31536000000000000, CAOverlapInterval = 10512000000000000,
    CertRotateInterval = 31536000000000000, CertOverlapInterval = 10512000000000000\<rparr>"
  by (simp add: withDefaults_def demo_options_def Let_def OneYearDuration_value)

lemma demo_lib_laws: "x509_lib demo_lib"
  unfolding demo_lib_def by (rule ref.x509_lib_axioms)

lemma demo_clock [simp]: "clock_at demo_lib e = 31536000000000000000"
  by (simp add: demo_lib_def clock_at_def OneYearDuration_value)

lemma demo_clock_ok: "clock_ok demo_lib"
  by (simp add: clock_ok_def demo_lib_def OneYearDuration_value zero_time_def mono_def)

lemma demo_crypto: "crypto_ok demo_lib"
  by (auto simp: crypto_ok_def crypto_fails_def demo_lib_def parse_marshal_cert)

lemma demo_paced: "paced Second (withDefaults demo_options)" "spaced (withDefaults demo_options)"
  by (simp_all add: demo_defaults paced_def spaced_def options_ok_def Second_def)

lemma demo_hostnames: "hostnames_ok demo_lib demo_data"
  by (simp add: hostnames_ok_def demo_data_def demo_issue_def hostname_ok_def demo_lib_def ref_ParseIP_def)

lemma demo_distinct_keys: "distinct_keys demo_data"
  by (simp add: distinct_keys_def demo_data_def)

lemma demo_distinct: "distinct_bundles demo_data"
  by (simp add: distinct_bundles_def demo_data_def demo_issue_def)

lemma demo_decoded: "CertificatesIssued (decode_data demo_lib demo_data) =
   [(''web'', demo_issue\<lparr>issue_caCerts := [(''hook'', [])]\<rparr>)]"
  by (simp add: decode_data_def decode_issue_def demo_data_def demo_issue_def keyPairPemToKeypair_def)

definition demo_chain :: certificateChain where
  "demo_chain = \<lparr>chain_Options = withDefaults demo_options, chain_data = decode_data demo_lib demo_data\<rparr>"

lemma demo_newChain: "newChain demo_lib demo_options demo_data = Ok demo_chain"
  using demo_paced by (simp add: newChain_Ok demo_chain_def paced_def)

lemma demo_due: "full_rotation_due demo_lib demo_chain demo_env"
  by (simp add: full_rotation_due_def findRotationDeadlineForCA_def demo_chain_def demo_decoded
      all_caCerts_def Before_def zero_time_def)

lemma demo_has_bundle: "has_bundle demo_chain"
  by (simp add: has_bundle_def demo_chain_def demo_decoded)

lemma demo_named: "issues_named demo_data" "all_named_certs demo_lib demo_data"
  by (simp_all add: issues_named_def all_named_certs_def demo_data_def demo_issue_def named_certs_def)

section \<open>Totality\<close>

text \<open>C10. \<^verbatim>\<open>Update\<close> returns a time for the next update, or it fails with an error of key generation,
  of the random serial number, or of signing or parsing one of the certificates that \<^verbatim>\<open>cert.go\<close>
  asks for: there is no other error and no panic. The options are valid, the services have names,
  no stored list of certificates starts with one that lacks a DNS name (verifying it would panic),
  and the clock shows a time after the zero time.\<close>

theorem Update_fails_only_in_crypto:
  assumes "options_ok (withDefaults options)" "issues_named d" "all_named_certs lib d"
    and "distinct_bundles d" "zero_time \<le> clock_at lib e"
  shows "(\<exists>t d' e'. Update lib options d e = (Ok t, d', e'))
    \<or> (\<exists>er d' e'. Update lib options d e = (Fail er, d', e') \<and> crypto_error lib er)"
proof -
  obtain r d' e' where "Update lib options d e = (r, d', e')" by (metis prod_cases3)
  with Update_errors [OF assms] show ?thesis by (cases r) auto
qed

theorem Update_fails_only_in_crypto_witness:
  "\<exists>t d' e'. Update demo_lib demo_options demo_data demo_env = (Ok t, d', e')"
proof -
  have "options_ok (withDefaults demo_options)" "zero_time \<le> clock_at demo_lib demo_env"
    using demo_paced by (simp_all add: paced_def zero_time_def)
  from Update_fails_only_in_crypto [OF this(1) demo_named demo_distinct this(2)] demo_crypto show ?thesis
    by (auto simp: crypto_ok_def crypto_error_def)
qed

text \<open>The first update of the concrete chain, as the theorems below use it.\<close>

lemma demo_update:
  obtains t d e where "Update demo_lib demo_options demo_data demo_env = (Ok t, d, e)"
    "update demo_lib demo_chain demo_env = (Ok t, \<lparr>chain_Options = withDefaults demo_options, chain_data = d\<rparr>, e)"
    "maintained demo_lib Second demo_options d t e"
proof -
  have "\<exists>t. fst (update demo_lib demo_chain demo_env) = Ok t"
    by (rule crypto_ok_result [OF demo_crypto update_errors]) (use demo_named demo_distinct coherent_decode in
      \<open>auto simp: demo_chain_def issues_named_def zero_time_def demo_decoded demo_issue_def\<close>)
  then obtain t ch e where up: "update demo_lib demo_chain demo_env = (Ok t, ch, e)"
    by (cases "update demo_lib demo_chain demo_env") auto
  moreover have "chain_Options ch = withDefaults demo_options"
    using update_same [OF decode_same_names [of "withDefaults demo_options" demo_lib demo_data], of demo_lib demo_env] up
    by (simp add: same_services_def demo_chain_def)
  moreover from up have u: "Update demo_lib demo_options demo_data demo_env = (Ok t, chain_data ch, e)"
    by (simp add: Update_def demo_newChain)
  moreover have "maintained demo_lib Second demo_options (chain_data ch) t e"
    by (rule rotated_all [OF demo_distinct_keys demo_distinct demo_hostnames demo_newChain demo_due u]) (simp add: Second_def)
  ultimately show ?thesis by (intro that [of t "chain_data ch" e]) (auto simp: certificateChain.equality)
qed

section \<open>Successive updates\<close>

text \<open>C2. Data maintained by successive updates verifies, in the form it is stored and in whatever order
  its maps are read, at every moment before the time the last update returned. It starts from arbitrary data at an update that has to
  rotate everything, and assumes that the clock does not go back, that an update takes no longer
  than \<open>w\<close> and that the intervals leave room for that.\<close>

theorem maintained_verifies:
  assumes "x509_lib lib" "clock_ok lib" "paced w (withDefaults options)"
    and "maintained lib w options d t e" "same_data d1 d" "ticks e \<le> ticks e1"
    and "Verify lib options d1 e1 = (r, d2, e2)" "clock_at lib e2 < t"
  shows "r = Ok ()"
  using x509_lib.maintained_Verify [OF assms(1,4,2,3,5-8)] .

text \<open>C9. The time an update returns lies after the moment the update started, so that waiting for it
  does not become a busy loop. This holds for a chain with a CA bundle (without services the update
  returns the zero time), when everything has to be rotated or the data was maintained by earlier
  updates, when the clock does not go back, when the update takes no longer than \<open>w\<close>, and when the
  intervals leave room for that and are longer than their overlaps by more than a second.\<close>

theorem Update_returns_future:
  assumes "x509_lib lib" "clock_ok lib" "paced w (withDefaults options)" "spaced (withDefaults options)"
    and "newChain lib options d1 = Ok ch" "has_bundle ch"
    and "distinct_bundles d1 \<and> full_rotation_due lib ch e1
      \<or> maintained lib w options d t e \<and> same_data d1 d \<and> ticks e \<le> ticks e1"
    and "Update lib options d1 e1 = (Ok t', d', e')" "clock_at lib e' \<le> clock_at lib e1 + w"
  shows "clock_at lib e1 < t'"
  using x509_lib.Update_future [OF assms(1-6) _ assms(8,9)] assms(7) by blast

theorem Update_returns_future_witness:
  "\<exists>t d e. Update demo_lib demo_options demo_data demo_env = (Ok t, d, e) \<and> clock_at demo_lib demo_env < t"
proof -
  obtain t d e where u: "Update demo_lib demo_options demo_data demo_env = (Ok t, d, e)"
    by (rule demo_update)
  have "clock_at demo_lib demo_env < t"
    by (rule Update_returns_future [OF demo_lib_laws demo_clock_ok demo_paced demo_newChain demo_has_bundle _ u])
      (simp_all add: demo_distinct demo_due Second_def)
  with u show ?thesis by blast
qed

theorem maintained_verifies_witness:
  "\<exists>t d e. maintained demo_lib Second demo_options d t e
     \<and> fst (Verify demo_lib demo_options (stored d) e) = Ok ()"
proof -
  obtain t d e where u: "Update demo_lib demo_options demo_data demo_env = (Ok t, d, e)"
    and m: "maintained demo_lib Second demo_options d t e" by (rule demo_update)
  have "clock_at demo_lib demo_env < t"
    by (rule x509_lib.Update_future [OF demo_lib_laws demo_clock_ok demo_paced demo_newChain demo_has_bundle _ u])
      (simp_all add: demo_distinct demo_due Second_def)
  then have t: "clock_at demo_lib e2 < t" for e2 by simp
  obtain r d2 e2 where v: "Verify demo_lib demo_options (stored d) e = (r, d2, e2)"
    by (cases "Verify demo_lib demo_options (stored d) e")
  from maintained_verifies [OF demo_lib_laws demo_clock_ok demo_paced(1) m
    x509_lib.maintained_stored [OF demo_lib_laws m demo_clock_ok demo_paced(1)] order_refl v t]
  have "fst (Verify demo_lib demo_options (stored d) e) = Ok ()" using v by simp
  with m show ?thesis by blast
qed

end
