(* ===== verification/Manager_Theorems.thy ===== *)
theory Manager_Theorems
  imports Manager_Safety Config_Theorems Chain_Theorems
begin

text \<open>
  The properties of the certificate manager, its controller and the webhook server.
\<close>

section \<open>The manager\<close>

text \<open>C29. The options of a manager that was constructed are never rejected later: every chain is made
  with just those options.\<close>

theorem NewManager_options:
  assumes "NewManager name namespace options whs = Ok m"
  shows "newChain lib (manager_options m) d = Ok \<lparr>chain_Options = manager_options m, chain_data = decode_data lib d\<rparr>
    \<and> manager_options m = withDefaults options \<and> webhooks m = whs \<and> \<not> verifying m"
proof (cases options rule: SetDefaultsAndValidate_cases)
  case valid
  with assms have m: "m = \<lparr>manager_name = name, manager_namespace = namespace, webhooks = whs,
      manager_options = withDefaults options, verifying = False\<rparr>" by (simp add: NewManager_def)
  with valid(2) show ?thesis by (simp add: newChain_Ok withDefaults_idem)
qed (use assms in \<open>simp add: NewManager_def\<close>)

theorem NewManager_options_witness:
  "\<exists>m. NewManager ''hooks'' ''ns'' demo_options [] = Ok m
     \<and> is_Ok (newChain demo_lib (manager_options m) demo_data)"
proof -
  have "SetDefaultsAndValidate demo_options = (None, withDefaults demo_options)"
    using demo_paced by (cases demo_options rule: SetDefaultsAndValidate_cases) (simp_all add: paced_def)
  then obtain m where m: "NewManager ''hooks'' ''ns'' demo_options [] = Ok m" by (simp add: NewManager_def)
  from NewManager_options [OF m, of demo_lib demo_data] m show ?thesis by (metis is_Ok.simps(1))
qed

text \<open>C19. \<^verbatim>\<open>VerifyTLS\<close> only reads: its outcome and its effect on the cluster are the same whatever the
  client's \<^verbatim>\<open>Create\<close> and \<^verbatim>\<open>Update\<close> would do.\<close>

theorem VerifyTLS_only_reads:
  "Manager_VerifyTLS lib (cl\<lparr>client_Create := c, client_Update := u\<rparr>) ord m s e = Manager_VerifyTLS lib cl ord m s e"
  unfolding with_writes_def [symmetric] by (simp only: Manager_VerifyTLS_def readCertificateChain_with_writes)

text \<open>C18. Nothing is written unless the whole chain was read and updated: otherwise reconciling fails
  and leaves the cluster as reading left it.\<close>

theorem nothing_written_unless_updated:
  assumes "readCertificateChain m cl (next_read ord) (initial_read s) = (r, st)"
    and "\<not> is_Ok r \<or> \<not> is_Ok (fst (Update lib (manager_options m) (rs_chain st) e))"
  shows "\<not> is_Ok (fst (reconcileCertificates lib cl ord m s e))
    \<and> fst (snd (reconcileCertificates lib cl ord m s e)) = rs_cluster st"
proof (cases r)
  case (Ok u)
  with assms(2) have "\<not> is_Ok (fst (Update lib (manager_options m) (rs_chain st) e))" by simp
  with Ok assms(1) show ?thesis by (auto simp: reconcileCertificates_def split: prod.split result.split)
qed (use assms(1) in \<open>simp_all add: reconcileCertificates_def\<close>)

theorem nothing_written_unless_updated_witness:
  "\<not> is_Ok (fst (reconcileCertificates demo_lib (store_client 0) \<lparr>next_read = hd, write_order = id\<rparr> demo_manager
     (demo_store []) demo_env))"
proof -
  obtain r st where r: "readCertificateChain demo_manager (store_client 0) hd (initial_read (demo_store [])) = (r, st)"
    by fastforce
  have "fst (readCertificateChain demo_manager (store_client 0) hd (initial_read (demo_store []))) = Fail ErrWaitTimeout"
    by code_simp
  with r have "\<not> is_Ok r" by simp
  then have "\<not> is_Ok (fst (reconcileCertificates demo_lib (store_client 0) \<lparr>next_read = hd, write_order = id\<rparr> demo_manager
      (demo_store []) demo_env)) \<and> fst (snd (reconcileCertificates demo_lib (store_client 0)
        \<lparr>next_read = hd, write_order = id\<rparr> demo_manager (demo_store []) demo_env)) = rs_cluster st"
    by (intro nothing_written_unless_updated [where r = r]) (simp_all add: r)
  then show ?thesis by (rule conjunct1)
qed

text \<open>C7. Reconciling does not panic: reading, updating and writing are composed so that every object
  that is written was read, is of the kind of its key and has operators. This holds when the webhook
  references are to mutating and validating webhooks, when no stored certificate list starts with a
  certificate that has no DNS name (verifying such a list panics), and when the loop over the object
  map visits nothing but its entries.\<close>

theorem reconcile_never_panics:
  assumes "kube_api cl" "\<forall>w \<in> set (webhooks m). Ref_Type w \<in> {MutatingWebhook, ValidatingWebhook}"
    and "\<And>ps. set (write_order ord ps) \<subseteq> set ps" "zero_time \<le> clock_at lib e"
    and "all_named_certs lib (rs_chain (snd (readCertificateChain m cl (next_read ord) (initial_read s))))"
  shows "\<not> is_Panic (fst (reconcileCertificates lib cl ord m s e))"
proof -
  obtain r st where r: "readObjectsToChain m cl (next_read ord) (start_state m s) = (r, st)" by fastforce
  have typed: "typed_references m" using assms(2) by (simp add: typed_references_def)
  note run = readObjectsToChain_run [OF r]
  have np: "\<not> is_Panic r"
    by (rule kube_api.read_run_no_panic [OF assms(1) run readable_start [OF typed]])
  note t = kube_api.read_run_typed [OF assms(1) run typed_start [OF typed]]
  have "well_read (rs_chain st)" by (rule read_run_well_read [OF run well_read_start])
  then have "distinct_bundles (rs_chain st)" by (fastforce simp: distinct_bundles_def well_read_def issue_for_def)
  then have up: "\<not> is_Panic (fst (Update lib (manager_options m) (rs_chain st) e))"
    using Update_no_panic [of lib "rs_chain st" e] assms(4,5) r by (simp add: readCertificateChain_start)
  show ?thesis
  proof (cases r)
    case (Ok u)
    with t have "writable (rs_objects st)" by (simp add: typed_all_read)
    moreover have "set (write_order ord (map fst (entries (rs_objects st)))) \<subseteq> fst ` set (entries (rs_objects st))"
      using assms(3) [of "map fst (entries (rs_objects st))"] by simp
    ultimately have "\<not> is_Panic (fst (writeCertificateChain cl (write_order ord) (rs_objects st) d (rs_cluster st)))" for d
      unfolding writeCertificateChain_def by (rule kube_api.writeObjectsFromChain_no_panic [OF assms(1)])
    with Ok r up show ?thesis
      by (auto simp: reconcileCertificates_def readCertificateChain_start split: prod.split result.split)
         (metis fst_conv is_Panic.simps(3))+
  qed (use r np in \<open>simp_all add: reconcileCertificates_def readCertificateChain_start\<close>)
qed

lemma demo_read_certs:
  "list_all (\<lambda>(n, ci). CertPEM ci = None) (CertificatesIssued (rs_chain (snd (demo_read [demo_webhook ''a.b.c'']))))"
  by code_simp

theorem reconcile_never_panics_witness:
  "\<not> is_Panic (fst (reconcileCertificates demo_lib (store_client 6) \<lparr>next_read = hd, write_order = id\<rparr> demo_manager
     (demo_store [demo_webhook ''a.b.c'']) demo_env))"
proof (rule reconcile_never_panics [OF store.kube_api_axioms])
  show "all_named_certs demo_lib (rs_chain (snd (readCertificateChain demo_manager (store_client 6)
      (next_read \<lparr>next_read = hd, write_order = id\<rparr>) (initial_read (demo_store [demo_webhook ''a.b.c''])))))"
    using demo_read_certs
    by (auto simp: readCertificateChain_start all_named_certs_def named_certs_def list_all_iff demo_read_def)
qed (simp_all add: demo_manager_def zero_time_def)

section \<open>The controller\<close>

text \<open>C32. Which secrets are watched. Every secret the manager creates is: once it has been filled from
  the chain, its creation, its changes and its deletion make the controller reconcile. In general
  the events of a secret make the controller reconcile just when the secret (before the event, for a
  change) has the annotation. The annotation does not say by which manager it was made, so the
  secrets of another manager are watched too.\<close>

theorem managed_secrets_are_watched:
  assumes "mapSecretFromChain key d (initSecret name namespace) = Ok ob"
  shows "onEventForThisWebhook m (CreateEvent ob) \<and> onEventForThisWebhook m (UpdateEvent ob new)
    \<and> onEventForThisWebhook m (DeleteEvent ob) \<and> onEventForThisWebhook m (GenericEvent ob)
    \<and> (\<forall>ev \<in> {CreateEvent (SecretObject s), UpdateEvent (SecretObject s) new, DeleteEvent (SecretObject s), GenericEvent (SecretObject s)}.
         onEventForThisWebhook m ev \<longleftrightarrow> map_of (Annotations (secret_Meta s)) secretManagedAnnotationKey \<noteq> None)"
proof -
  have "Annotations (object_Meta ob) = [(secretManagedAnnotationKey, [])]"
    using assms by (auto simp: initSecret_def mapSecretFromChain_def mapCASecretFromChain_def
        mapServiceSecretFromChain_def Let_def split: if_splits option.splits)
  then have "isAnnotatedResource ob" by (simp add: isAnnotatedResource_def)
  moreover have "isAnnotatedResource (SecretObject s) \<longleftrightarrow> map_of (Annotations (secret_Meta s)) secretManagedAnnotationKey \<noteq> None"
    "\<not> isWebhookConfig m (SecretObject s)"
    by (simp_all add: isAnnotatedResource_def isWebhookConfig_def)
  ultimately show ?thesis by simp
qed

theorem managed_secrets_are_watched_witness:
  "\<exists>ob. mapSecretFromChain demo_secret_key demo_issued (initSecret ''web'' ''ns'') = Ok ob
     \<and> onEventForThisWebhook demo_manager (DeleteEvent ob)"
proof -
  obtain ob where ob: "mapSecretFromChain demo_secret_key demo_issued (initSecret ''web'' ''ns'') = Ok ob"
    by (simp add: mapSecretFromChain_def demo_secret_key_def newObjectKey_def demo_issued_def initSecret_def
        NamespacedName_String_def mapServiceSecretFromChain_def serviceHostname_def serviceSubdomain_def)
  from managed_secrets_are_watched [OF ob, of demo_manager] ob show ?thesis by simp
qed

section \<open>The server\<close>

lemma UpdateOpts_append: "UpdateOpts (fs @ gs) s = bind_result (UpdateOpts fs s) (UpdateOpts gs)"
proof (induction fs arbitrary: s)
  case (Cons f fs)
  then show ?case by (cases "f s") simp_all
qed simp

text \<open>Registering hooks on a server that has its defaults.\<close>

definition hook_opts :: "(string \<times> string) list \<Rightarrow> ServerModifier list" where
  "hook_opts hs = map (\<lambda>(path, hook). WithHook path hook) hs"

lemma AList_update_new: "k \<notin> fst ` set m \<Longrightarrow> AList.update k v m = m @ [(k, v)]"
  by (induction m) auto

lemma UpdateOpts_hooks:
  assumes "defaulted (webhookServer s)" "distinct (map fst (hooks (webhookServer s)))"
  shows "if distinct (map fst (hooks (webhookServer s) @ hs)) \<and> [] \<notin> fst ` set hs
    then UpdateOpts (hook_opts hs) s = Ok (s\<lparr>webhookServer := (webhookServer s)\<lparr>hooks := hooks (webhookServer s) @ hs\<rparr>\<rparr>)
    else is_Panic (UpdateOpts (hook_opts hs) s)"
  using assms
proof (induction hs arbitrary: s)
  case (Cons pk hs)
  obtain p k where pk: "pk = (p, k)" by fastforce
  let ?h = "webhookServer s"
  show ?case
  proof (cases "p \<in> fst ` set (hooks ?h) \<or> p = []")
    case True
    then have "is_Panic (Register p k ?h)"
      using Cons.prems(1) by (auto simp: Register_def Let_def map_of_eq_None_iff)
    then have "is_Panic (UpdateOpts (hook_opts (pk # hs)) s)"
      by (auto simp: pk hook_opts_def WithHook_def is_Panic_iff)
    moreover have no: "\<not> (distinct (map fst (hooks ?h @ pk # hs)) \<and> [] \<notin> fst ` set (pk # hs))"
      using True by (auto simp: pk)
    ultimately show ?thesis unfolding if_not_P [OF no] by simp
  next
    case False
    let ?s = "s\<lparr>webhookServer := ?h\<lparr>hooks := hooks ?h @ [(p, k)]\<rparr>\<rparr>"
    from False have none: "map_of (hooks ?h) p = None" by (simp add: map_of_eq_None_iff)
    have "Register p k ?h = Ok (?h\<lparr>hooks := hooks ?h @ [(p, k)]\<rparr>)"
      using False none Cons.prems(1) by (simp add: Register_def Let_def AList_update_new)
    then have u: "UpdateOpts (hook_opts (pk # hs)) s = UpdateOpts (hook_opts hs) ?s"
      by (simp add: pk hook_opts_def WithHook_def)
    have c: "(distinct (map fst (hooks (webhookServer ?s) @ hs)) \<and> [] \<notin> fst ` set hs)
        = (distinct (map fst (hooks ?h @ pk # hs)) \<and> [] \<notin> fst ` set (pk # hs))"
      using False Cons.prems(2) by (auto simp: pk)
    have "?s\<lparr>webhookServer := (webhookServer ?s)\<lparr>hooks := hooks (webhookServer ?s) @ hs\<rparr>\<rparr>
        = s\<lparr>webhookServer := ?h\<lparr>hooks := hooks ?h @ pk # hs\<rparr>\<rparr>" by (simp add: pk)
    moreover have "defaulted (webhookServer ?s)" "distinct (map fst (hooks (webhookServer ?s)))"
      using Cons.prems False by simp_all
    note Cons.IH [OF this, unfolded c]
    ultimately show ?thesis unfolding u by (simp only:)
  qed
qed (simp add: hook_opts_def)

text \<open>C33. A server is constructed with hooks at the given paths and its own readiness endpoint after
  them, unless two of the paths are equal, one of them is \<^verbatim>\<open>/readyz\<close> or one is empty: then the
  constructor panics.\<close>

theorem New_registers_hooks:
  "if distinct (map fst hs) \<and> ''/readyz'' \<notin> fst ` set hs \<and> [] \<notin> fst ` set hs
   then \<exists>s. New name namespace options (hook_opts hs) = Ok s \<and> Port (webhookServer s) = 8443
     \<and> hooks (webhookServer s) = hs @ [(''/readyz'', ''healthz.Ping'')] \<and> webhookConfigs s = []
   else is_Panic (New name namespace options (hook_opts hs))"
proof -
  let ?hs = "hs @ [(''/readyz'', ''healthz.Ping'')]"
  define s0 where "s0 = \<lparr>webhookServer = \<lparr>Port = 8443, CertDir = ''/etc/webhook/certs/'', hooks = [], defaulted = False\<rparr>,
     webhookConfigs = [], server_name = name, server_namespace = namespace, server_options = options, certManager = None\<rparr>"
  let ?s1 = "s0\<lparr>webhookServer := (webhookServer s0)\<lparr>defaulted := True\<rparr>\<rparr>"
  have one: "UpdateOpts [WithHook p k] s = bind_result (Register p k (webhookServer s)) (\<lambda>h. Ok (s\<lparr>webhookServer := h\<rparr>))"
    for p k s by (cases "Register p k (webhookServer s)") (simp_all add: WithHook_def)
  have all: "hook_opts ?hs = hook_opts hs @ [WithHook ''/readyz'' ''healthz.Ping'']" by (simp add: hook_opts_def)
  have new: "New name namespace options (hook_opts hs) = UpdateOpts (hook_opts ?hs) s0"
    unfolding New_def Let_def s0_def [symmetric] all UpdateOpts_append
    by (cases "UpdateOpts (hook_opts hs) s0") (simp_all add: one del: UpdateOpts.simps)
  have "Register p k (webhookServer s0) = Register p k (webhookServer ?s1)" for p k
    by (simp add: Register_def Let_def s0_def setDefaults_def DefaultPort_def)
  then have "WithHook p k s0 = WithHook p k ?s1" for p k by (simp add: WithHook_def fun_eq_iff)
  then have "UpdateOpts (hook_opts ?hs) s0 = UpdateOpts (hook_opts ?hs) ?s1"
    by (cases hs) (auto simp: hook_opts_def)
  with UpdateOpts_hooks [of ?s1 ?hs] new show ?thesis
    by (auto simp: s0_def split: if_splits)
qed

lemma UpdateOpts_configs: "UpdateOpts (map WithConfig ws) s = Ok (s\<lparr>webhookConfigs := webhookConfigs s @ ws\<rparr>)"
  by (induction ws arbitrary: s) (simp_all add: WithConfig_def)

text \<open>C34. The manager that a server adds is responsible for all webhooks configured on the server, also
  those configured after its construction, in their order, with the server's options.\<close>

theorem added_manager_webhooks:
  assumes "UpdateOpts (map WithConfig ws) s = Ok s1" "Server_Add rt s1 r = (Ok (), s2, r2)"
  shows "\<exists>m. certManager s2 = Some m \<and> webhooks m = webhookConfigs s @ ws
    \<and> manager_options m = withDefaults (server_options s) \<and> options_ok (manager_options m)"
proof -
  have s1: "s1 = s\<lparr>webhookConfigs := webhookConfigs s @ ws\<rparr>" using assms(1) by (simp add: UpdateOpts_configs)
  obtain m where m: "newCertManager s1 = Ok m" "certManager s2 = Some m"
    using assms(2) by (auto simp: Server_Add_def Let_def split: result.splits prod.splits option.splits)
  from m(1) s1 have n: "NewManager (server_name s) (server_namespace s) (server_options s) (webhookConfigs s @ ws) = Ok m"
    by (simp add: newCertManager_def)
  show ?thesis
  proof (cases "server_options s" rule: SetDefaultsAndValidate_cases)
    case valid
    with n m(2) show ?thesis by (auto simp: NewManager_def)
  qed (use n in \<open>simp add: NewManager_def\<close>)
qed

definition demo_server :: Server where
  "demo_server = \<lparr>webhookServer = \<lparr>Port = 8443, CertDir = ''/certs'', hooks = [], defaulted = True\<rparr>, webhookConfigs = [],
     server_name = ''hooks'', server_namespace = ''ns'', server_options = demo_options, certManager = None\<rparr>"

definition demo_runtime :: "nat runtime" where
  "demo_runtime = \<lparr>runtime_New = (\<lambda>n. (None, n)), runtime_Watch = (\<lambda>k f n. (None, Suc n)), runtime_Add = (\<lambda>n. (None, n))\<rparr>"

theorem added_manager_webhooks_witness:
  "\<exists>s m. Server_Add demo_runtime (demo_server\<lparr>webhookConfigs := [\<lparr>Ref_Type = MutatingWebhook, Ref_Name = ''cfg''\<rparr>]\<rparr>) 0 = (Ok (), s, 3)
     \<and> certManager s = Some m \<and> webhooks m = [\<lparr>Ref_Type = MutatingWebhook, Ref_Name = ''cfg''\<rparr>]"
proof -
  let ?ws = "[\<lparr>Ref_Type = MutatingWebhook, Ref_Name = ''cfg''\<rparr>]"
  let ?s = "demo_server\<lparr>webhookConfigs := ?ws\<rparr>"
  have "SetDefaultsAndValidate demo_options = (None, withDefaults demo_options)"
    using demo_paced by (cases demo_options rule: SetDefaultsAndValidate_cases) (simp_all add: paced_def)
  then obtain m where m: "newCertManager ?s = Ok m" by (simp add: newCertManager_def NewManager_def demo_server_def)
  then have a: "Server_Add demo_runtime ?s 0 = (Ok (), ?s\<lparr>certManager := Some m\<rparr>, 3)"
    by (simp add: Server_Add_def Let_def Manager_Add_def add_def demo_runtime_def)
  have u: "UpdateOpts (map WithConfig ?ws) demo_server = Ok ?s" by (simp add: WithConfig_def demo_server_def)
  from added_manager_webhooks [OF u a] a show ?thesis by (auto simp: demo_server_def)
qed

text \<open>C20. The server serves only after the certificates have verified: either some check succeeded,
  and the outcome is the one of serving from there, or no check did, and starting fails without
  the HTTP server being started.\<close>

theorem Start_serves_verified:
  assumes "Start n serve lib cl ord s st = (r, st')"
  shows "(\<exists>st0 st1. checkTLS lib cl ord s st0 = (Ok (), st1)
      \<and> (r, st') = (case serve (webhookServer s) st1 of
           (Some e, st2) \<Rightarrow> (Fail (Wrap e ''failed starting webhook server''), st2) | (None, st2) \<Rightarrow> (Ok (), st2)))
    \<or> (\<not> is_Ok r \<and> (\<forall>serve'. Start n serve' lib cl ord s st = (r, st')))"
proof -
  obtain w st1 where w: "waitForTLSReadiness n lib cl ord s st = (w, st1)"
    by (cases "waitForTLSReadiness n lib cl ord s st")
  have c: "w = Ok () \<longrightarrow> (\<exists>st0. checkTLS lib cl ord s st0 = (Ok (), st1))"
    by (rule PollImmediate_rule [OF w [unfolded waitForTLSReadiness_def], where I = "\<lambda>_. True"])
      (auto simp: tls_ready_def split: prod.splits result.splits)
  show ?thesis
  proof (cases w)
    case (Ok u)
    with c obtain st0 where "checkTLS lib cl ord s st0 = (Ok (), st1)" by auto
    moreover have "(r, st') = (case serve (webhookServer s) st1 of
        (Some e, st2) \<Rightarrow> (Fail (Wrap e ''failed starting webhook server''), st2) | (None, st2) \<Rightarrow> (Ok (), st2))"
      using assms w Ok by (simp add: Start_def)
    ultimately show ?thesis by blast
  qed (use w assms in \<open>auto simp: Start_def\<close>)
qed

theorem Start_serves_verified_witness:
  "\<not> is_Ok (fst (Start 3 (\<lambda>h st. (None, st)) demo_lib (store_client 6) \<lparr>next_read = hd, write_order = id\<rparr> demo_server
     (demo_store [], demo_env)))"
proof -
  let ?ord = "\<lparr>next_read = hd, write_order = id\<rparr>"
  obtain r st where s: "Start 3 (\<lambda>h st. (None, st)) demo_lib (store_client 6) ?ord demo_server (demo_store [], demo_env) = (r, st)"
    by (cases "Start 3 (\<lambda>h st. (None, st)) demo_lib (store_client 6) ?ord demo_server (demo_store [], demo_env)")
  have "checkTLS demo_lib (store_client 6) ?ord demo_server st0 \<noteq> (Ok (), st1)" for st0 st1
    by (simp add: checkTLS_def demo_server_def)
  with Start_serves_verified [OF s] s show ?thesis by auto
qed

end
