(* ===== verification/Update_Theorems.thy ===== *)
theory Update_Theorems
  imports Chain_Theorems
begin

text \<open>
  More properties of updates: they do not panic, keep the services and the trusted CA
  certificates, survive storage, and do nothing before they are due. The last section holds the
  behaviours of the code that are not what it means to do.
\<close>

section \<open>Every outcome\<close>

text \<open>C11. An update does not panic, even when key generation or signing fails, unless a stored
  certificate has no DNS name.\<close>

theorem Update_never_panics:
  assumes "all_named_certs lib d" "distinct_bundles d" "zero_time \<le> clock_at lib e"
  shows "\<not> is_Panic (fst (Update lib options d e))"
  using assms by (rule Update_no_panic)

theorem Update_never_panics_witness: "\<not> is_Panic (fst (Update demo_lib demo_options demo_data demo_env))"
  by (rule Update_never_panics) (simp_all add: demo_named demo_distinct zero_time_def)

text \<open>C12. Whatever its outcome, an update keeps the name of the CA, the set of services, and for
  each of them its name, its addresses, its host names and the names of its CA bundles.\<close>

theorem Update_keeps_services:
  "CA_Name (Chain_CA (fst (snd (Update lib options d e)))) = CA_Name (Chain_CA d)
   \<and> gomap_rel (\<lambda>ci ci'. Issue_Name ci' = Issue_Name ci \<and> IPs ci' = IPs ci \<and> Hostnames ci' = Hostnames ci
        \<and> map fst (CACertPEM ci') = map fst (CACertPEM ci))
       (CertificatesIssued d) (CertificatesIssued (fst (snd (Update lib options d e))))"
proof (cases "newChain lib options d")
  case (Ok ch)
  then have ch: "ch = \<lparr>chain_Options = withDefaults options, chain_data = decode_data lib d\<rparr>"
    by (simp add: newChain_Ok)
  have "same_services ch (fst (snd (update lib ch e)))"
    unfolding ch by (rule update_same [OF decode_same_names])
  moreover have "fst (snd (Update lib options d e)) = chain_data (fst (snd (update lib ch e)))"
    using Ok by (simp add: Update_def split: prod.split)
  moreover have "CA_Name (Chain_CA (chain_data ch)) = CA_Name (Chain_CA d)"
    "CertificatesIssued (chain_data ch) = map_values (decode_issue lib) (CertificatesIssued d)"
    by (simp_all add: ch decode_data_def decode_ca_def split: prod.split)
  ultimately show ?thesis
    by (auto simp: same_services_def same_service_def elim!: gomap_rel_trans [OF gomap_rel_map_values])
next
  case (Fail er)
  then show ?thesis by (auto simp: Update_def intro: gomap_rel_refl)
next
  case (Panic x)
  then show ?thesis by (auto simp: Update_def intro: gomap_rel_refl)
qed

section \<open>Trust\<close>

definition bundles_ok :: "go_lib \<Rightarrow> CertificateIssue \<Rightarrow> bool" where
  "bundles_ok lib ci = (issue_caCerts ci = map_values (\<lambda>v. fst (ParseCertsPEM lib (bytes_of v))) (CACertPEM ci))"

text \<open>A certificate that stays in every CA bundle that holds it.\<close>

definition trusts_still :: "certificate \<Rightarrow> CertificateIssue \<Rightarrow> CertificateIssue \<Rightarrow> bool" where
  "trusts_still c ci ci' \<longleftrightarrow> (\<forall>k cs. (k, cs) \<in> set (issue_caCerts ci) \<longrightarrow> c \<in> set cs \<longrightarrow>
     (\<exists>cs'. (k, cs') \<in> set (issue_caCerts ci') \<and> c \<in> set cs'))"

lemma trusts_still_refl [simp]: "trusts_still c ci ci"
  by (auto simp: trusts_still_def)

lemma trusts_still_trans: "trusts_still c ci ci1 \<Longrightarrow> trusts_still c ci1 ci2 \<Longrightarrow> trusts_still c ci ci2"
  unfolding trusts_still_def by blast

lemma tidied_trusts:
  assumes "tidied lib I ci ci'" "\<And>i. i \<in> I \<Longrightarrow> unexpired (lib_now lib i) c"
  shows "trusts_still c ci ci'"
proof -
  have b: "trusts_still c ci ci1" if "bundles_cleaned lib I ci ci1" for ci1
    unfolding trusts_still_def
  proof (intro allI impI)
    fix k cs assume cs: "(k, cs) \<in> set (issue_caCerts ci)" "c \<in> set cs"
    from that obtain news where n: "gomap_rel (cleaned lib I) (issue_caCerts ci) news" "ci1 = with_bundles news ci"
      by (auto simp: bundles_cleaned_def)
    from gomap_rel_in1 [OF n(1) cs(1)] obtain cs' where "(k, cs') \<in> set news" "cleaned lib I cs cs'" by blast
    with cleaned_keeps [OF _ cs(2) assms(2)] n(2) show "\<exists>cs'. (k, cs') \<in> set (issue_caCerts ci1) \<and> c \<in> set cs'"
      by auto
  qed
  from assms(1) obtain ci1 where
    c1: "ci1 = ci \<or> bundles_cleaned lib I ci ci1" and c2: "ci' = ci1 \<or> certs_cleaned lib I ci1 ci'"
    unfolding tidied_def by blast
  have "trusts_still c ci ci1" using c1 b by auto
  moreover have "issue_caCerts ci' = issue_caCerts ci1" using c2 certs_cleaned_caCerts by auto
  ultimately show ?thesis by (simp add: trusts_still_def)
qed

context x509_lib
begin

lemma with_bundles_ok:
  "\<forall>(k, cs) \<in> set m. \<forall>c \<in> set cs. parsed lib c \<Longrightarrow> bundles_ok lib (with_bundles m ci)"
  by (simp add: bundles_ok_def with_bundles_def map_values_def comp_def case_prod_unfold)
    (rule map_idI [symmetric], auto simp: Parse_EncodeCertsPEM_certs)

lemma bundles_ok_parsed: "bundles_ok lib ci \<Longrightarrow> (k, cs) \<in> set (issue_caCerts ci) \<Longrightarrow> c \<in> set cs \<Longrightarrow> parsed lib c"
  using ParseCertsPEM_parsed by (fastforce simp: bundles_ok_def set_map_values)

lemma tidied_bundles_ok:
  assumes "tidied lib I ci ci'" "bundles_ok lib ci"
  shows "bundles_ok lib ci'"
proof -
  from assms(1) obtain ci1 where
    c1: "ci1 = ci \<or> bundles_cleaned lib I ci ci1" and c2: "ci' = ci1 \<or> certs_cleaned lib I ci1 ci'"
    unfolding tidied_def by blast
  have "bundles_ok lib ci1" if "bundles_cleaned lib I ci ci1"
  proof -
    from that obtain news where n: "gomap_rel (cleaned lib I) (issue_caCerts ci) news" "ci1 = with_bundles news ci"
      by (auto simp: bundles_cleaned_def)
    have "parsed lib c" if "(k, cs) \<in> set news" "c \<in> set cs" for k cs c
      using gomap_rel_in2 [OF n(1) that(1)] that(2) bundles_ok_parsed [OF assms(2)] cleaned_subset by blast
    then show ?thesis unfolding n(2) by (intro with_bundles_ok) blast
  qed
  with c1 assms(2) have "bundles_ok lib ci1" by blast
  with c2 show ?thesis by (auto simp: bundles_ok_def certs_cleaned_def)
qed

text \<open>An update keeps an unexpired certificate in every bundle.\<close>

lemma update_trusts:
  assumes up: "update lib ch e = (Ok t, ch', e')" and coh: "coherent_data lib (chain_data ch)"
    and c: "\<And>i. ticks e \<le> i \<Longrightarrow> i < ticks e' \<Longrightarrow> unexpired (lib_now lib i) c"
  shows "gomap_rel (\<lambda>ci ci'. trusts_still c ci ci' \<and> bundles_ok lib ci')
    (CertificatesIssued (chain_data ch)) (CertificatesIssued (chain_data ch'))"
proof -
  have coherent: "coherent lib ci" if "(n, ci) \<in> set (CertificatesIssued (chain_data ch))" for n ci
    using coh that by (auto simp: coherent_data_def)
  have ok: "bundles_ok lib ci" "keyed ci" if "(n, ci) \<in> set (CertificatesIssued (chain_data ch))" for n ci
    using coherent [OF that] coherent_keyed by (auto simp: coherent_iff bundles_ok_def)
  let ?R = "\<lambda>ci ci'. trusts_still c ci ci' \<and> bundles_ok lib ci' \<and> keyed ci'"
  have clean: "gomap_rel (\<lambda>ci ci'. trusts_still c ci ci' \<and> bundles_ok lib ci') (CertificatesIssued (chain_data ch))
      (CertificatesIssued (chain_data ch'))"
    if rel: "gomap_rel ?R (CertificatesIssued (chain_data ch)) (CertificatesIssued (chain_data ch1))"
      and u: "update_cleanup lib dA dC ch1 e1 = (Ok t, ch', e')" and le: "ticks e \<le> ticks e1" for ch1 e1 dA dC
  proof -
    have "\<forall>(n, ci) \<in> set (CertificatesIssued (chain_data ch1)). keyed ci"
      using gomap_rel_in2 [OF rel] by blast
    note r = update_cleanup_tidied [OF u this]
    have td: "trusts_still c ci ci'" if "tidied lib {ticks e1..<ticks e'} ci ci'" for ci ci'
      using that by (rule tidied_trusts) (use c le in auto)
    show ?thesis
      by (rule gomap_rel_trans [OF rel r(3)]) (use td trusts_still_trans tidied_bundles_ok in blast)
  qed
  have id: "gomap_rel ?R (CertificatesIssued (chain_data ch)) (CertificatesIssued (chain_data ch))"
    using ok by (intro gomap_rel_refl) auto
  show ?thesis
    using up
  proof (cases rule: update_Ok_cases)
    case (full e2 ch1 e3)
    have keyed: "\<forall>(n, ci) \<in> set (CertificatesIssued (chain_data ch)). keyed ci" using ok by blast
    from rotateAll_spec [OF full(3) keyed] obtain ck ca where
      ca: "fresh_ca lib (clock_at lib e2) (CARotateInterval (chain_Options ch)) ck ca"
      and rel: "gomap_rel (fully_rotated lib {ticks e2..<ticks e3} (CertRotateInterval (chain_Options ch)) ck ca)
        (CertificatesIssued (chain_data ch)) (CertificatesIssued (chain_data ch1))" and t3: "ticks e2 < ticks e3"
      by blast
    have "gomap_rel ?R (CertificatesIssued (chain_data ch)) (CertificatesIssued (chain_data ch1))"
      using rel
    proof (rule gomap_rel_mono_in)
      fix n ci ci' assume ci: "(n, ci) \<in> set (CertificatesIssued (chain_data ch))"
        and fr: "fully_rotated lib {ticks e2..<ticks e3} (CertRotateInterval (chain_Options ch)) ck ca ci ci'"
      have b: "bundles_ok lib (with_bundles (map_values (\<lambda>cs. cs @ [ca]) (issue_caCerts ci)) ci)"
        using bundles_ok_parsed [OF ok(1) [OF ci]] ca
        by (intro with_bundles_ok) (auto simp: set_map_values fresh_ca_def)
      have "keyed (with_bundles (map_values (\<lambda>cs. cs @ [ca]) (issue_caCerts ci)) ci)"
        using ok(2) [OF ci] by (simp add: keyed_def with_bundles_def)
      with b fr show "?R ci ci'"
        by (fastforce simp: fully_rotated_def bundles_ok_def keyed_def trusts_still_def mem_map_values)
    qed
    from clean [OF this full(4)] full(2) t3 show ?thesis by simp
  next
    case (certs e2 ch1 e3)
    note rr = rotateCerts_rotated [OF certs(6) [unfolded rotateCertsWithOverlap_def]]
    have "gomap_rel ?R (CertificatesIssued (chain_data ch)) (CertificatesIssued (chain_data ch1))"
      using rr(3) by (rule gomap_rel_mono_in)
        (use ok in \<open>force simp: rotated_def bundles_ok_def keyed_def trusts_still_def\<close>)
    from clean [OF this certs(7)] certs(2) rr(4) show ?thesis by simp
  next
    case (none e2)
    from clean [OF id none(6,2)] show ?thesis .
  qed
qed

end

text \<open>C3. An update keeps every CA certificate that has not expired in every bundle that held it, in
  the form the bundle is stored, so that servers that still use a certificate of the previous CA
  remain trusted.\<close>

theorem Update_keeps_trust:
  assumes "x509_lib lib" "distinct_bundles d" "Update lib options d e = (Ok t, d', e')"
    and "(n, ci) \<in> set (CertificatesIssued d)" "(k, pem) \<in> set (CACertPEM ci)"
    and "c \<in> set (fst (ParseCertsPEM lib (bytes_of pem)))"
    and "\<forall>i \<in> {ticks e..<ticks e'}. lib_now lib i < NotAfter c"
  shows "\<exists>ci' pem'. (n, ci') \<in> set (CertificatesIssued d') \<and> (k, pem') \<in> set (CACertPEM ci')
    \<and> c \<in> set (fst (ParseCertsPEM lib (bytes_of pem')))"
proof -
  let ?ch = "\<lparr>chain_Options = withDefaults options, chain_data = decode_data lib d\<rparr>"
  let ?p = "\<lambda>v. fst (ParseCertsPEM lib (bytes_of v))"
  from assms(3) obtain ch' where up: "update lib ?ch e = (Ok t, ch', e')" "d' = chain_data ch'" by (auto simp: Update_Ok)
  have "gomap_rel (\<lambda>ci ci'. trusts_still c ci ci' \<and> bundles_ok lib ci')
      (CertificatesIssued (decode_data lib d)) (CertificatesIssued d')"
    using x509_lib.update_trusts [OF assms(1) up(1)] coherent_decode [OF assms(2)] assms(7) up(2)
    by (auto simp: unexpired_def After_def)
  moreover have "(n, decode_issue lib ci) \<in> set (CertificatesIssued (decode_data lib d))"
    using assms(4) by (auto simp: decode_data_def mem_map_values)
  ultimately obtain ci' where ci': "(n, ci') \<in> set (CertificatesIssued d')"
    "trusts_still c (decode_issue lib ci) ci'" "bundles_ok lib ci'" using gomap_rel_in1 by fastforce
  have "(k, ?p pem) \<in> set (issue_caCerts (decode_issue lib ci))"
    using assms(5) by (auto simp: decode_issue_def mem_map_values split: prod.split)
  with ci'(2) assms(6) obtain cs where "(k, cs) \<in> set (issue_caCerts ci')" "c \<in> set cs"
    unfolding trusts_still_def by blast
  with ci'(1,3) show ?thesis by (auto simp: bundles_ok_def mem_map_values)
qed

text \<open>A bundle with one certificate that is valid for another two thousand years.\<close>

definition trust_cert :: certificate where
  "trust_cert = (let c = \<lparr>Raw = [], Signature = [], SerialNumber = 1, SubjectCommonName = ''old-ca'',
     SubjectOrganization = [], NotBefore = 0, NotAfter = 3000 * OneYearDuration, KeyUsage = 0, ExtKeyUsage = [],
     BasicConstraintsValid = True, IsCA = True, DNSNames = [], IPAddresses = [],
     PublicKey = RSA_pub \<lparr>rsa_N = 3, rsa_E = 5\<rparr>\<rparr> in c\<lparr>Raw := marshal_cert c\<rparr>)"

definition trust_data :: CertificateChainData where
  "trust_data = demo_data\<lparr>CertificatesIssued := [(''web'', demo_issue\<lparr>CACertPEM :=
     [(''hook'', Some (EncodeCertsPEM [trust_cert]))]\<rparr>)]\<rparr>"

lemma trust_parsed: "ParseCertsPEM demo_lib (EncodeCertsPEM [trust_cert]) = ([trust_cert], None)"
  by (rule Parse_EncodeCertsPEM) (simp_all add: parsed_def trust_cert_def demo_lib_def Let_def parse_marshal_cert)

lemma trust_update: "\<exists>t d e. Update demo_lib demo_options trust_data demo_env = (Ok t, d, e)"
proof -
  have "distinct_bundles trust_data" by (simp add: distinct_bundles_def trust_data_def)
  moreover have "issues_named (decode_data demo_lib trust_data)" "all_named_certs demo_lib trust_data"
    by (simp_all add: issues_named_def all_named_certs_def decode_data_def trust_data_def demo_issue_def named_certs_def)
  ultimately have "\<exists>t. fst (update demo_lib \<lparr>chain_Options = withDefaults demo_options,
      chain_data = decode_data demo_lib trust_data\<rparr> demo_env) = Ok t"
    using coherent_decode by (intro crypto_ok_result [OF demo_crypto update_errors]) (simp_all add: zero_time_def)
  with demo_paced show ?thesis by (auto simp: Update_Ok paced_def) (metis prod.collapse)
qed

theorem Update_keeps_trust_witness:
  "\<exists>t d e ci pem. Update demo_lib demo_options trust_data demo_env = (Ok t, d, e)
     \<and> (''web'', ci) \<in> set (CertificatesIssued d) \<and> (''hook'', pem) \<in> set (CACertPEM ci)
     \<and> trust_cert \<in> set (fst (ParseCertsPEM demo_lib (bytes_of pem)))"
proof -
  obtain t d e where u: "Update demo_lib demo_options trust_data demo_env = (Ok t, d, e)" using trust_update by blast
  have "\<exists>ci pem. (''web'', ci) \<in> set (CertificatesIssued d) \<and> (''hook'', pem) \<in> set (CACertPEM ci)
     \<and> trust_cert \<in> set (fst (ParseCertsPEM demo_lib (bytes_of pem)))"
  proof (rule Update_keeps_trust [OF demo_lib_laws _ u, where pem = "Some (EncodeCertsPEM [trust_cert])"
      and ci = "demo_issue\<lparr>CACertPEM := [(''hook'', Some (EncodeCertsPEM [trust_cert]))]\<rparr>"])
    show "\<forall>i \<in> {ticks demo_env..<ticks e}. lib_now demo_lib i < NotAfter trust_cert"
      by (simp add: demo_lib_def trust_cert_def Let_def OneYearDuration_value)
  qed (use trust_parsed in \<open>simp_all add: trust_data_def distinct_bundles_def\<close>)
  with u show ?thesis by blast
qed

section \<open>Maintained data\<close>

text \<open>C13. Maintained data survives storage: decoding its PEM fields gives back the keys and
  certificates an update left in memory.\<close>

theorem maintained_roundtrip:
  assumes "x509_lib lib" "clock_ok lib" "paced w (withDefaults options)" "maintained lib w options d t e"
  shows "decode_data lib (stored d) = d"
proof -
  have "own_data lib (clock_at lib e) d"
    using x509_lib.maintained_kept [OF assms(1,4,2,3)] by (simp add: kept_def)
  then have "coherent_data lib d" by (rule own_data_coherent)
  then show ?thesis by (simp add: decode_stored coherent_data_decode)
qed

theorem maintained_roundtrip_witness:
  "\<exists>d t e. Update demo_lib demo_options demo_data demo_env = (Ok t, d, e) \<and> decode_data demo_lib (stored d) = d"
proof -
  obtain t d e where u: "Update demo_lib demo_options demo_data demo_env = (Ok t, d, e)"
    "maintained demo_lib Second demo_options d t e" by (rule demo_update)
  from maintained_roundtrip [OF demo_lib_laws demo_clock_ok demo_paced(1) u(2)] u(1) show ?thesis by blast
qed

text \<open>C4. An update of maintained data that ends before the time the previous update returned only
  decodes what is stored and returns that same time.\<close>

theorem Update_quiet:
  assumes "x509_lib lib" "clock_ok lib" "paced w (withDefaults options)" "maintained lib w options d t e"
    and "same_data d1 d" "ticks e \<le> ticks e1"
    and "Verify lib options d1 (tick (tick e1)) = (v, d2, e2)" "clock_at lib (tick e2) < t"
  shows "Update lib options d1 e1 = (Ok t, decode_data lib d1, tick (tick e2))"
proof -
  define ch where "ch = \<lparr>chain_Options = withDefaults options, chain_data = decode_data lib d1\<rparr>"
  have mono: "mono (lib_now lib)" using assms(2) by (simp add: clock_ok_def)
  have k: "kept lib options (decode_data lib d1) t e"
    by (rule kept_same_data [OF x509_lib.maintained_kept [OF assms(1,4,2,3)] assms(5)])
  have new: "newChain lib options d1 = Ok ch" using assms(3) by (simp add: newChain_Ok paced_def ch_def)
  with assms(7) have v: "verifyTLS lib ch (tick (tick e1)) = (v, e2)" by (auto simp: Verify_def split: prod.splits)
  have "ticks e1 \<le> ticks e2" using verifyTLS_ticks [OF v] by simp
  then have le: "clock_at lib e1 \<le> clock_at lib (tick e1)" "clock_at lib (tick e1) \<le> clock_at lib (tick e2)"
    "clock_at lib e2 \<le> clock_at lib (tick e2)"
    using mono by (simp_all add: clock_at_def monoD)
  have "v = Ok ()"
    using x509_lib.maintained_Verify [OF assms(1,4,2,3,5) _ assms(7)] assms(6,8) le(3) by simp
  moreover have "t = next_deadline ch" using k by (simp add: kept_def ch_def)
  moreover from this assms(8) le have "\<forall>x \<in> {clock_at lib e1, clock_at lib (tick e1), clock_at lib e2, clock_at lib (tick e2)}.
      Before x (findRotationDeadlineForCA ch) \<and> Before x (findRotationDeadlineForCerts ch)
      \<and> Before x (findCleanUpDeadlineForCACerts ch) \<and> Before x (findCleanUpDeadlineForCerts ch)"
    unfolding Before_def by (auto simp: less_next_deadline)
  ultimately have "update lib ch e1 = (Ok t, ch, tick (tick e2))"
    using v by (simp add: update_branches update_cleanup_def next_deadline_def)
  with new show ?thesis by (simp add: Update_def ch_def)
qed

theorem Update_quiet_witness:
  "\<exists>d t e e'. Update demo_lib demo_options demo_data demo_env = (Ok t, d, e)
     \<and> Update demo_lib demo_options (stored d) e = (Ok t, d, e')"
proof -
  obtain t d e where u: "Update demo_lib demo_options demo_data demo_env = (Ok t, d, e)"
    and m: "maintained demo_lib Second demo_options d t e" by (rule demo_update)
  have "clock_at demo_lib demo_env < t"
    by (rule x509_lib.Update_future [OF demo_lib_laws demo_clock_ok demo_paced demo_newChain demo_has_bundle _ u])
      (simp_all add: demo_distinct demo_due Second_def)
  then have t: "clock_at demo_lib e2 < t" for e2 by simp
  obtain v d2 e2 where v: "Verify demo_lib demo_options (stored d) (tick (tick e)) = (v, d2, e2)"
    by (cases "Verify demo_lib demo_options (stored d) (tick (tick e))")
  have "decode_data demo_lib (stored d) = d"
    using x509_lib.maintained_kept [OF demo_lib_laws m demo_clock_ok demo_paced(1)] own_data_coherent
    by (auto simp: kept_def decode_stored coherent_data_decode)
  with Update_quiet [OF demo_lib_laws demo_clock_ok demo_paced(1) m
      x509_lib.maintained_stored [OF demo_lib_laws m demo_clock_ok demo_paced(1)] order_refl v t] u
  show ?thesis by auto
qed

section \<open>Behaviour that is not intended\<close>

lemma no_issues:
  assumes "CertificatesIssued (chain_data ch) = []"
  shows "findRotationDeadlineForCA ch = zero_time" "findRotationDeadlineForCerts ch = zero_time"
    "findCleanUpDeadlineForCACerts ch = zero_time" "findCleanUpDeadlineForCerts ch = zero_time"
    "cleanUpCACerts lib ch e = (ch, e)" "cleanUpCerts lib ch e = (ch, e)"
    "rotateCertsWithoutOverlap lib ch e = (Ok (), ch, e)"
  using assms
  by (simp_all add: findRotationDeadlineForCA_def findRotationDeadlineForCerts_def findCleanUpDeadlineForCACerts_def
      findCleanUpDeadlineForCerts_def findCleanUpDeadlineForCertList_def all_caCerts_def all_certs_def
      cleanUpCACerts_def cleanUpCerts_def rotateCertsWithoutOverlap_def rotateCerts_def)

text \<open>C38. A chain that issues no certificate, as when none of the webhooks exists yet, gets a new CA
  at every update, and the time for the next update is the zero time, which has always passed.\<close>

theorem Update_without_services:
  assumes "CertificatesIssued d = []" "options_ok (withDefaults options)" "zero_time \<le> clock_at lib e"
    and "NewCA lib (CA_Name (Chain_CA d)) (CARotateInterval (withDefaults options)) (tick (tick e))
      = (Ok \<lparr>Key = Some k, Cert = Some c\<rparr>, e1)" "zero_time \<le> clock_at lib e1" "zero_time \<le> clock_at lib (tick e1)"
  shows "\<exists>e'. Update lib options d e = (Ok zero_time, d\<lparr>Chain_CA := (Chain_CA d)\<lparr>
     CA_keyPair := \<lparr>Key = Some k, Cert = Some c\<rparr>, CA_KeyPEM := Some (EncodePrivateKeyPEM lib k),
     CA_CertPEM := Some (EncodeCertPEM c)\<rparr>\<rparr>, e')"
proof -
  define ch where "ch = \<lparr>chain_Options = withDefaults options, chain_data = decode_data lib d\<rparr>"
  have ch: "CertificatesIssued (chain_data ch) = []" "CA_Name (Chain_CA (chain_data ch)) = CA_Name (Chain_CA d)"
    using assms(1) by (simp_all add: ch_def decode_data_def decode_ca_def split: prod.split)
  define ch1 where "ch1 = ch\<lparr>chain_data := (chain_data ch)\<lparr>
     Chain_CA := (Chain_CA (chain_data ch))\<lparr>CA_keyPair := \<lparr>Key = Some k, Cert = Some c\<rparr>,
       CA_KeyPEM := Some (EncodePrivateKeyPEM lib k), CA_CertPEM := Some (EncodeCertPEM c)\<rparr>,
     CertificatesIssued := []\<rparr>\<rparr>"
  have opts: "chain_Options ch = withDefaults options" by (simp add: ch_def)
  have none: "CertificatesIssued (chain_data ch1) = []" by (simp add: ch1_def)
  note n = no_issues [OF ch(1)] and n1 = no_issues [OF none]
  have "rotateAll lib ch (tick (tick e)) = (Ok (), ch1, e1)"
    using assms(4) n1(7) opts by (simp add: rotateAll_def ch flip: ch1_def)
  then have "full_branch lib ch (tick (tick e)) = (Ok zero_time, ch1, tick (tick e1))"
    using assms(5,6) n1 by (simp add: full_branch_def update_cleanup_def Before_def minTime_def Let_def clock_at_def)
  then have "update lib ch e = (Ok zero_time, ch1, tick (tick e1))"
    using assms(3) n by (simp add: update_branches Before_def)
  moreover have "newChain lib options d = Ok ch" using assms(2) by (simp add: newChain_Ok ch_def)
  ultimately show ?thesis
    using assms(1) by (intro exI) (simp add: Update_def ch1_def ch_def decode_data_def decode_ca_def split: prod.split)
qed

theorem Update_without_services_witness:
  "\<exists>d' e'. Update demo_lib demo_options (demo_data\<lparr>CertificatesIssued := []\<rparr>) demo_env = (Ok zero_time, d', e')
     \<and> CA_CertPEM (Chain_CA d') \<noteq> None"
proof -
  let ?d = "demo_data\<lparr>CertificatesIssued := []\<rparr>"
  obtain k c e1 where "NewCA demo_lib (CA_Name (Chain_CA ?d)) (CARotateInterval (withDefaults demo_options))
      (tick (tick demo_env)) = (Ok \<lparr>Key = Some k, Cert = Some c\<rparr>, e1)"
    using NewCA_succeeds [OF demo_crypto] by blast
  from Update_without_services [OF _ _ _ this] demo_paced show ?thesis by (auto simp: paced_def zero_time_def)
qed

text \<open>C39. After an overlapping rotation the stored list of certificates still begins with the old
  certificate while the stored key is the one of the new certificate, which is last. A TLS server
  presents the first certificate of the list with the stored key.\<close>

theorem overlap_keeps_old_leaf:
  assumes "x509_lib lib" "coherent_data lib (chain_data ch)" "rotateCertsWithOverlap lib ch e = (Ok (), ch', e')"
    and "(n, ci) \<in> set (CertificatesIssued (chain_data ch))" "issue_certs ci = c # cs"
  shows "\<exists>ci' c' k. (n, ci') \<in> set (CertificatesIssued (chain_data ch'))
    \<and> ParseCertsPEM lib (bytes_of (CertPEM ci')) = (c # cs @ [c'], None)
    \<and> ParsePrivateKeyPEM lib (bytes_of (KeyPEM ci')) = Ok (RSA_key k) \<and> PublicKey c' = RSA_pub (rsa_Public k)"
proof -
  note rr = x509_lib.rotateCerts_rotated [OF assms(1) assms(3) [unfolded rotateCertsWithOverlap_def]]
  from gomap_rel_in1 [OF rr(3) assms(4)] obtain ci' where ci': "(n, ci') \<in> set (CertificatesIssued (chain_data ch'))"
    and "rotated lib {ticks e..<ticks e'} (CertRotateInterval (chain_Options ch))
       (CA_keyPair (Chain_CA (chain_data ch))) (setKeyAppendCert lib) ci ci'" by blast
  then obtain k c' t d ca ck where fr: "fresh_server lib t d ca ck (Hostnames ci) k c'"
    and eq: "ci' = ci\<lparr>issue_key := Some k, issue_certs := issue_certs ci @ [c'],
      KeyPEM := Some (EncodePrivateKeyPEM lib k), CertPEM := Some (EncodeCertsPEM (issue_certs ci @ [c']))\<rparr>"
    by (auto simp: rotated_def)
  have "coherent lib ci" using assms(2,4) by (auto simp: coherent_data_def)
  then have "\<forall>x \<in> set (issue_certs ci @ [c']). parsed lib x"
    using x509_lib.coherent_parsed(1) [OF assms(1)] fr by (auto simp: fresh_server_def)
  then have "ParseCertsPEM lib (bytes_of (CertPEM ci')) = (c # cs @ [c'], None)"
    using Parse_EncodeCertsPEM [of "issue_certs ci @ [c']" lib] assms(5) by (simp add: eq)
  moreover have "ParsePrivateKeyPEM lib (bytes_of (KeyPEM ci')) = Ok (RSA_key k)"
    using ParsePrivateKeyPEM_first [of lib k "[]"] fr by (simp add: eq fresh_server_def)
  ultimately show ?thesis using ci' fr by (auto simp: fresh_server_def)
qed

text \<open>The concrete chain after its first update, ready for an overlapping rotation.\<close>

lemma demo_overlap:
  obtains d e ch' e' ci c cs where
    "coherent_data demo_lib d" "(''web'', ci) \<in> set (CertificatesIssued d)" "issue_certs ci = c # cs"
    "rotateCertsWithOverlap demo_lib \<lparr>chain_Options = withDefaults demo_options, chain_data = d\<rparr> e = (Ok (), ch', e')"
proof -
  obtain t d e where u: "update demo_lib demo_chain demo_env
      = (Ok t, \<lparr>chain_Options = withDefaults demo_options, chain_data = d\<rparr>, e)"
    and m: "maintained demo_lib Second demo_options d t e" by (rule demo_update)
  have own: "own_data demo_lib (clock_at demo_lib e) d"
    using x509_lib.maintained_kept [OF demo_lib_laws m demo_clock_ok demo_paced(1)] by (simp add: kept_def)
  have "same_services demo_chain \<lparr>chain_Options = withDefaults demo_options, chain_data = d\<rparr>"
    using update_same [OF decode_same_names [of "withDefaults demo_options" demo_lib demo_data], of demo_lib demo_env] u
    by (simp add: demo_chain_def)
  then have rel: "gomap_rel same_service [(''web'', demo_issue\<lparr>issue_caCerts := [(''hook'', [])]\<rparr>)] (CertificatesIssued d)"
    by (simp add: same_services_def demo_chain_def demo_decoded)
  then obtain ci where ci: "CertificatesIssued d = [(''web'', ci)]" "same_service (demo_issue\<lparr>issue_caCerts := [(''hook'', [])]\<rparr>) ci"
    by (cases "CertificatesIssued d") (auto simp: gomap_rel_def)
  with own obtain ck ca where o: "own_issue demo_lib ck ca ci" "CA_keyPair (Chain_CA d) = \<lparr>Key = Some ck, Cert = Some ca\<rparr>"
    by (auto simp: own_data_def)
  then obtain c cs where "issue_certs ci = c # cs" by (cases "issue_certs ci") (auto simp: own_issue_def)
  moreover have "ok_or_crypto demo_lib (fst (rotateCerts demo_lib (setKeyAppendCert demo_lib)
      \<lparr>chain_Options = withDefaults demo_options, chain_data = d\<rparr> e))"
    using o ci by (intro rotateCerts_errors) (auto simp: issues_named_def same_service_def demo_issue_def)
  then have "\<exists>ch' e'. rotateCerts demo_lib (setKeyAppendCert demo_lib)
      \<lparr>chain_Options = withDefaults demo_options, chain_data = d\<rparr> e = (Ok (), ch', e')"
    using crypto_ok_result [OF demo_crypto] by (metis (full_types) old.unit.exhaust prod.collapse)
  ultimately show ?thesis
    using ci own_data_coherent [OF own] by (auto simp: rotateCertsWithOverlap_def intro: that)
qed

theorem overlap_keeps_old_leaf_witness:
  "\<exists>ch ch' e e' ci' c cs c' k. rotateCertsWithOverlap demo_lib ch e = (Ok (), ch', e')
     \<and> (''web'', ci') \<in> set (CertificatesIssued (chain_data ch'))
     \<and> ParseCertsPEM demo_lib (bytes_of (CertPEM ci')) = (c # cs @ [c'], None)
     \<and> ParsePrivateKeyPEM demo_lib (bytes_of (KeyPEM ci')) = Ok (RSA_key k) \<and> PublicKey c' = RSA_pub (rsa_Public k)"
proof -
  obtain d e ch' e' ci c cs where d: "coherent_data demo_lib d" "(''web'', ci) \<in> set (CertificatesIssued d)"
    "issue_certs ci = c # cs"
    and r: "rotateCertsWithOverlap demo_lib \<lparr>chain_Options = withDefaults demo_options, chain_data = d\<rparr> e = (Ok (), ch', e')"
    by (rule demo_overlap)
  from overlap_keeps_old_leaf [OF demo_lib_laws _ r _ d(3)] d(1,2) r show ?thesis by fastforce
qed

end
