(* ===== verification/Certificate_Theorems.thy ===== *)
theory Certificate_Theorems
  imports Chain_Total X509_Ref
begin

text \<open>
  The properties of the building blocks: PEM data, key pairs and their verification, the options,
  the deadlines and the clean-up of certificate lists. Instances use the reference library with a
  clock that stands still at zero.
\<close>

section \<open>PEM data\<close>

text \<open>C24. An encoded certificate is decoded to the certificate's block, and an encoded private key
  is parsed to the key, whatever follows them in the input.\<close>

theorem PEM_roundtrip:
  assumes "lib_ParsePKCS1PrivateKey lib (lib_MarshalPKCS1PrivateKey lib k) = Inr k"
  shows "Decode (EncodeCertPEM c @ rest) = (Some \<lparr>Type = CertificateBlockType, Headers = [], Bytes = Raw c\<rparr>, rest)
    \<and> ParsePrivateKeyPEM lib (EncodePrivateKeyPEM lib k @ rest) = Ok (RSA_key k)"
  using ParsePrivateKeyPEM_first [OF assms] by (simp add: EncodeCertPEM_def Decode_EncodeToMemory)

definition plain_cert :: certificate where
  "plain_cert = \<lparr>Raw = [], Signature = [], SerialNumber = 1, SubjectCommonName = ''web'',
     SubjectOrganization = [], NotBefore = 0, NotAfter = Second, KeyUsage = 0, ExtKeyUsage = [],
     BasicConstraintsValid = True, IsCA = False, DNSNames = [''web''], IPAddresses = [],
     PublicKey = RSA_pub \<lparr>rsa_N = 3, rsa_E = 5\<rparr>\<rparr>"

theorem PEM_roundtrip_witness:
  "ParsePrivateKeyPEM (ref_lib (\<lambda>_. 0)) (EncodePrivateKeyPEM (ref_lib (\<lambda>_. 0)) (ref_key 5) @ ''tail'') = Ok (RSA_key (ref_key 5))"
  using PEM_roundtrip [of "ref_lib (\<lambda>_. 0)" "ref_key 5" plain_cert "''tail''"] by simp

text \<open>The DER contents of the certificate blocks of PEM data.\<close>

definition cert_ders :: "pem_block list \<Rightarrow> bytes list" where
  "cert_ders bs = map Bytes (filter cert_block bs)"

definition parses :: "go_lib \<Rightarrow> bytes \<Rightarrow> bool" where
  "parses lib der = (case lib_ParseCertificate lib der of Inl _ \<Rightarrow> False | Inr _ \<Rightarrow> True)"

lemma scan_certs_ders:
  "fst (scan_certs lib ok cs bs) = cs @ map (projr \<circ> lib_ParseCertificate lib) (takeWhile (parses lib) (cert_ders bs))
   \<and> (snd (scan_certs lib ok cs bs) = None \<longleftrightarrow> (ok \<or> cert_ders bs \<noteq> []) \<and> list_all (parses lib) (cert_ders bs))"
proof (induction bs arbitrary: ok cs)
  case (Cons b bs)
  show ?case
  proof (cases "cert_block b")
    case True
    show ?thesis
    proof (cases "lib_ParseCertificate lib (Bytes b)")
      case (Inl m)
      with True show ?thesis by (simp add: cert_ders_def parses_def)
    next
      case (Inr c)
      with True Cons.IH [of True "cs @ [c]"] show ?thesis by (simp add: cert_ders_def parses_def)
    qed
  next
    case False
    with Cons.IH [of ok cs] show ?thesis by (simp add: cert_ders_def)
  qed
qed (simp add: cert_ders_def)

text \<open>C23. \<^verbatim>\<open>ParseCertsPEM\<close> against a declarative reading of PEM data: it returns the certificates of
  the certificate blocks before the first one that does not parse, and no error just when there
  is a certificate block and all of them parse.\<close>

theorem ParseCertsPEM_blocks:
  assumes "pem_codec.blocks Decode s bs"
  shows "fst (ParseCertsPEM lib s)
      = map (projr \<circ> lib_ParseCertificate lib) (takeWhile (parses lib) (cert_ders bs))
    \<and> (snd (ParseCertsPEM lib s) = None \<longleftrightarrow> cert_ders bs \<noteq> [] \<and> list_all (parses lib) (cert_ders bs))"
  using scan_certs_ders [of lib False "[]" bs] parse_certs_loop_scan [OF assms]
  by (simp add: ParseCertsPEM_def)

theorem ParseCertsPEM_blocks_witness:
  "fst (ParseCertsPEM (ref_lib (\<lambda>_. 0)) (EncodeToMemory CertificateBlockType ''abc'')) = []"
proof -
  have "pem_codec.blocks Decode (EncodeToMemory CertificateBlockType ''abc'')
      [\<lparr>Type = CertificateBlockType, Headers = [], Bytes = ''abc''\<rparr>]"
    using pem.blocks_encoded [of CertificateBlockType "[''abc'']"] by simp
  from ParseCertsPEM_blocks [OF this, of "ref_lib (\<lambda>_. 0)"] show ?thesis
    by (simp add: cert_ders_def cert_block_def parses_def parse_cert_def dec_fields_def dec_pair_def dec_list_def)
qed

text \<open>C25. Encoding a list of certificates and parsing it gives back the list, and adding a
  certificate to an encoded list gives the encoding of the longer list.\<close>

theorem certs_PEM_roundtrip:
  assumes "\<forall>c \<in> set cs. lib_ParseCertificate lib (Raw c) = Inr c" "cs \<noteq> []"
  shows "ParseCertsPEM lib (EncodeCertsPEM cs) = (cs, None)
    \<and> AddCertToPEM lib c (EncodeCertsPEM cs) = Ok (EncodeCertsPEM (cs @ [c]))"
proof -
  have "ParseCertsPEM lib (EncodeCertsPEM cs) = (cs, None)"
    using assms by (intro Parse_EncodeCertsPEM) (simp_all add: parsed_def)
  with assms(2) show ?thesis by (simp add: AddCertToPEM_def)
qed

theorem certs_PEM_roundtrip_witness:
  "\<exists>c. ParseCertsPEM (ref_lib (\<lambda>_. 0)) (EncodeCertsPEM [c]) = ([c], None) \<and> DNSNames c = [''web'']"
proof -
  define c where "c = plain_cert\<lparr>Raw := marshal_cert plain_cert\<rparr>"
  have "\<forall>x \<in> set [c]. lib_ParseCertificate (ref_lib (\<lambda>_. 0)) (Raw x) = Inr x"
    by (simp add: c_def parse_marshal_cert)
  from certs_PEM_roundtrip [OF this, of c] show ?thesis
    by (intro exI [of _ c]) (simp add: c_def plain_cert_def)
qed

section \<open>Key pairs\<close>

text \<open>C21. A server key pair made with a new CA verifies against every bundle that holds the
  CA's certificate, from the moment the CA was made until either certificate expires.\<close>

theorem new_key_pair_verifies:
  assumes "x509_lib lib" "NewCA lib caName d0 e0 = (Ok ca, e1)" "Cert ca = Some cac"
    and "NewServerKeyPair lib ca name ips (h # hs) d e2 = (Ok kp, e3)" "Key kp = Some k" "Cert kp = Some c"
    and "hostname_ok lib h" "cac \<in> set cas" "\<forall>x \<in> set cas. lib_ParseCertificate lib (Raw x) = Inr x"
    and "clock_at lib e0 \<le> clock_at lib e" "clock_at lib e \<le> trunc_second (Add (clock_at lib e0) d0)"
    and "clock_at lib e \<le> trunc_second (Add (clock_at lib e2) d)"
  shows "VerifyTLS lib (EncodeCertPEM c) (EncodePrivateKeyPEM lib k) (EncodeCertsPEM cas) e = (Ok (), tick e)"
proof -
  obtain ck where ca: "ca = \<lparr>Key = Some ck, Cert = Some cac\<rparr>" "fresh_ca lib (clock_at lib e0) d0 ck cac"
    using x509_lib.NewCA_spec [OF assms(1,2)] assms(3) by auto
  have srv: "fresh_server lib (clock_at lib e2) d cac ck (h # hs) k c"
    using x509_lib.NewServerKeyPair_spec [OF assms(1,4)] assms(5,6) ca by auto
  have "valid_at (clock_at lib e) cac"
    using ca(2) assms(10,11) trunc_second_le [of "clock_at lib e0"] by (simp add: valid_at_def fresh_ca_def)
  moreover have "valid_at (clock_at lib e) c"
    using srv ca(2) assms(10,12) trunc_second_le [of "clock_at lib e0"] trunc_second_le [of "NotBefore cac"]
    by (simp add: valid_at_def fresh_server_def fresh_ca_def)
  ultimately have "VerifyTLS lib (EncodeCertsPEM [c]) (EncodePrivateKeyPEM lib k) (EncodeCertsPEM cas) e = (Ok (), tick e)"
    using x509_lib.VerifyTLS_fresh [OF assms(1) _ _ _ srv refl assms(7) _ assms(8), where cs = "[]"] ca(2) assms(9)
    by (simp add: fresh_ca_def parsed_def)
  then show ?thesis by (simp add: EncodeCertsPEM_single)
qed

lemma ref_crypto: "crypto_ok (ref_lib now)"
  by (auto simp: crypto_ok_def crypto_fails_def parse_marshal_cert)

theorem new_key_pair_verifies_witness:
  "\<exists>c k cas e. fst (VerifyTLS (ref_lib (\<lambda>_. 0)) (EncodeCertPEM c) (EncodePrivateKeyPEM (ref_lib (\<lambda>_. 0)) k)
     (EncodeCertsPEM cas) e) = Ok () \<and> DNSNames c = [''web'']"
proof -
  let ?lib = "ref_lib (\<lambda>_. 0)" and ?e = "\<lparr>ticks = 0, draws = 0\<rparr>"
  obtain ck cac e1 where ca: "NewCA ?lib ''ca'' Second ?e = (Ok \<lparr>Key = Some ck, Cert = Some cac\<rparr>, e1)"
    using NewCA_succeeds [OF ref_crypto] by blast
  obtain k c e3 where srv: "NewServerKeyPair ?lib \<lparr>Key = Some ck, Cert = Some cac\<rparr> ''web'' [] [''web''] Second e1
      = (Ok \<lparr>Key = Some k, Cert = Some c\<rparr>, e3)"
    using NewServerKeyPair_succeeds [OF ref_crypto, of "''web''"] by fast
  have cac: "parsed ?lib cac" using ref.NewCA_spec [OF ca] by (auto simp: fresh_ca_def)
  have names: "DNSNames c = [''web'']" using ref.NewServerKeyPair_spec [OF srv] by (auto simp: fresh_server_def)
  have "VerifyTLS ?lib (EncodeCertPEM c) (EncodePrivateKeyPEM ?lib k) (EncodeCertsPEM [cac]) e3 = (Ok (), tick e3)"
    by (rule new_key_pair_verifies [OF ref.x509_lib_axioms ca _ srv])
      (use cac in \<open>simp_all add: parsed_def hostname_ok_def ref_ParseIP_def clock_at_def Add_def trunc_second_def Second_def\<close>)
  with names show ?thesis by (intro exI [of _ c] exI [of _ k] exI [of _ "[cac]"] exI [of _ e3]) simp
qed

text \<open>C35. \<^verbatim>\<open>VerifyTLS\<close> panics just when the key and the certificates parse, the CA bundle is not
  empty, and the first certificate has no DNS name.\<close>

theorem VerifyTLS_panics_iff:
  "is_Panic (fst (VerifyTLS lib certsPEM keyPEM caBundle e)) \<longleftrightarrow>
     is_Ok (ParsePrivateKeyPEM lib keyPEM) \<and> snd (ParseCertsPEM lib certsPEM) = None
     \<and> AppendCertsFromPEM lib [] caBundle \<noteq> [] \<and> DNSNames (hd (fst (ParseCertsPEM lib certsPEM))) = []"
  using ParseCertsPEM_ok [of lib certsPEM]
  by (cases "ParseCertsPEM lib certsPEM"; cases "fst (ParseCertsPEM lib certsPEM)")
    (auto simp: VerifyTLS_panic_iff is_Ok_iff)

section \<open>Options\<close>

text \<open>C27. The defaults and the checks of \<^verbatim>\<open>SetDefaultsAndValidate\<close>, in terms of the given options.
  The CA is rotated every year (of 365 days) unless an interval is given, certificates as often as
  the CA. The options are accepted just when the certificates are rotated at least as often as the
  CA and each overlap is shorter than its interval; an overlap that is not given is a third of its
  interval, which is shorter just when the interval is positive. Accepted options have the defaults
  filled in, rejected ones are left as they were.\<close>

theorem SetDefaultsAndValidate_defaults:
  assumes "SetDefaultsAndValidate o' = (err, w)"
    and "A = (if CARotateInterval o' = 0 then 31536000000000000 else CARotateInterval o')"
    and "C = (if CertRotateInterval o' = 0 then A else CertRotateInterval o')"
  shows "(err = None \<longleftrightarrow> C \<le> A
        \<and> (if CAOverlapInterval o' = 0 then 0 < A else CAOverlapInterval o' < A)
        \<and> (if CertOverlapInterval o' = 0 then 0 < C else CertOverlapInterval o' < C))
    \<and> (if err = None
       then w = \<lparr>CARotateInterval = A, CAOverlapInterval = (if CAOverlapInterval o' = 0 then A div 3 else CAOverlapInterval o'),
         CertRotateInterval = C, CertOverlapInterval = (if CertOverlapInterval o' = 0 then C div 3 else CertOverlapInterval o')\<rparr>
       else w = o')"
proof -
  let ?w = "withDefaults o'"
  have w: "CARotateInterval ?w = A" "CertRotateInterval ?w = C"
    "CAOverlapInterval ?w = (if CAOverlapInterval o' = 0 then A sdiv 3 else CAOverlapInterval o')"
    "CertOverlapInterval ?w = (if CertOverlapInterval o' = 0 then C sdiv 3 else CertOverlapInterval o')"
    using assms(2,3) by (simp_all add: withDefaults_sel OneYearDuration_value)
  have "A \<noteq> 0" "C \<noteq> 0" using withDefaults_nonzero [of o'] by (simp_all add: w)
  then have third: "A sdiv 3 < A \<longleftrightarrow> 0 < A" "C sdiv 3 < C \<longleftrightarrow> 0 < C"
    using sdiv3_bounds [of A] sdiv3_bounds [of C] by linarith+
  have pos: "0 < x \<Longrightarrow> x sdiv 3 = x div 3" for x :: int by (simp add: signed_divide_int_def)
  have ok: "options_ok ?w \<longleftrightarrow> C \<le> A \<and> (if CAOverlapInterval o' = 0 then 0 < A else CAOverlapInterval o' < A)
      \<and> (if CertOverlapInterval o' = 0 then 0 < C else CertOverlapInterval o' < C)"
    using third by (auto simp: options_ok_def w)
  show ?thesis
  proof (cases o' rule: SetDefaultsAndValidate_cases)
    case valid
    with ok have "?w = \<lparr>CARotateInterval = A, CAOverlapInterval = (if CAOverlapInterval o' = 0 then A div 3 else CAOverlapInterval o'),
         CertRotateInterval = C, CertOverlapInterval = (if CertOverlapInterval o' = 0 then C div 3 else CertOverlapInterval o')\<rparr>"
      by (intro Options.equality) (auto simp: w pos split: if_splits)
    with valid ok assms(1) show ?thesis by simp
  next
    case (invalid e)
    with ok assms(1) show ?thesis by auto
  qed
qed

theorem SetDefaultsAndValidate_defaults_witness:
  "SetDefaultsAndValidate \<lparr>CARotateInterval = 0, CAOverlapInterval = 0, CertRotateInterval = 300, CertOverlapInterval = 0\<rparr>
   = (None, \<lparr>CARotateInterval = 31536000000000000, CAOverlapInterval = 10512000000000000,
       CertRotateInterval = 300, CertOverlapInterval = 100\<rparr>)"
proof -
  let ?o = "\<lparr>CARotateInterval = 0, CAOverlapInterval = 0, CertRotateInterval = 300, CertOverlapInterval = 0\<rparr> :: Options"
  obtain err w where s: "SetDefaultsAndValidate ?o = (err, w)" by fastforce
  from SetDefaultsAndValidate_defaults [OF this refl refl] have "err = None" by simp
  with SetDefaultsAndValidate_defaults [OF s refl refl] s show ?thesis by simp
qed

text \<open>C28. Setting the defaults twice is the same as setting them once, so the manager and the chain
  it drives agree on the options.\<close>

theorem SetDefaultsAndValidate_idem:
  assumes "SetDefaultsAndValidate o' = (None, o'')"
  shows "SetDefaultsAndValidate o'' = (None, o'')"
proof (cases o' rule: SetDefaultsAndValidate_cases)
  case valid
  with assms have o'': "o'' = withDefaults o'" by simp
  with valid show ?thesis
    by (cases o'' rule: SetDefaultsAndValidate_cases) (simp_all add: withDefaults_idem)
qed (use assms in simp)

theorem SetDefaultsAndValidate_idem_witness:
  "SetDefaultsAndValidate \<lparr>CARotateInterval = 100, CAOverlapInterval = 33, CertRotateInterval = 50,
       CertOverlapInterval = 5\<rparr>
     = (None, \<lparr>CARotateInterval = 100, CAOverlapInterval = 33, CertRotateInterval = 50, CertOverlapInterval = 5\<rparr>)"
proof (rule SetDefaultsAndValidate_idem)
  show "SetDefaultsAndValidate \<lparr>CARotateInterval = 100, CAOverlapInterval = 0, CertRotateInterval = 50,
       CertOverlapInterval = 5\<rparr>
     = (None, \<lparr>CARotateInterval = 100, CAOverlapInterval = 33, CertRotateInterval = 50, CertOverlapInterval = 5\<rparr>)"
    by (simp add: SetDefaultsAndValidate_def withDefaults_def validate_def signed_divide_int_def Let_def)
qed

section \<open>Deadlines\<close>

lemma min_duration_loop_Suc: "min_duration_loop (Suc i) m es = fold min es m"
  by (induction es arbitrary: i m) (auto simp: min_def)

text \<open>C40. \<^verbatim>\<open>minTime\<close> and \<^verbatim>\<open>minDuration\<close> return the least of their arguments, and the zero value when
  there are none.\<close>

theorem min_least:
  "minTime ts = (if ts = [] then zero_time else Min (set ts))
   \<and> minDuration ds = (if ds = [] then 0 else Min (set ds))"
proof -
  have "minDuration (x # xs) = Min (set (x # xs))" for x xs
    by (simp add: minDuration_def min_duration_loop_Suc Min.set_eq_fold [symmetric])
  then show ?thesis using minTime_Min [of ts] by (cases ds) (auto simp: minDuration_def)
qed

text \<open>C26. The rotation deadline of a certificate is its expiry less the overlap, up to 1024
  nanoseconds of floating point rounding, for lifetimes below 146 years; for longer lifetimes,
  where the difference of times saturates, the deadline is never later than 2048 nanoseconds after
  that.\<close>

theorem rotation_deadline_bounds:
  assumes "NotBefore c \<le> NotAfter c" "\<bar>overlap\<bar> < 2 ^ 61"
  shows "nextRotationDeadlineForCert c overlap \<le> NotAfter c - overlap + 2048
    \<and> (NotAfter c - NotBefore c < 2 ^ 62 \<longrightarrow>
        \<bar>nextRotationDeadlineForCert c overlap - (NotAfter c - overlap)\<bar> \<le> 1024)"
  using deadline_upper [OF assms] deadline_error [of c overlap] assms by auto

theorem rotation_deadline_bounds_witness:
  "nextRotationDeadlineForCert plain_cert 0 \<le> NotAfter plain_cert + 2048"
  using rotation_deadline_bounds [of plain_cert 0] by (simp add: plain_cert_def Second_def)

section \<open>Clean-up\<close>

text \<open>C22. The clean-up of a certificate list, which overwrites the array it iterates over, removes
  just the expired certificates and keeps the order of the others; a list of at most one
  certificate is left alone, and the clock is then not read.\<close>

theorem cleanUpCertificateList_filter:
  "cleanUpCertificateList lib cs e =
     (if length cs \<le> 1 then (cs, e) else (filter (\<lambda>c. clock_at lib e < NotAfter c) cs, tick e))"
  unfolding cleanUpCertificateList_eq by (simp add: unexpired_def After_def cong: filter_cong)

end
