(* ===== verification/Cluster_View.thy ===== *)
theory Cluster_View
  imports Manager_Safety
begin

text \<open>
  What a complete read of a cluster gives, whatever its order: chain data that represents the
  objects of the cluster. Every client configuration with a service contributes a CA bundle, the
  secret of the service its key and certificates, and the CA secret the CA.
\<close>

section \<open>References to services\<close>

type_synonym view = "objectKind \<Rightarrow> NamespacedName \<Rightarrow> Object option"

text \<open>A client configuration that refers to a service: the key of its webhook configuration, its
  name, the service and the CA bundle.\<close>

type_synonym hook_ref = "objectKey \<times> string \<times> ServiceReference \<times> slice"

definition host_of :: "ServiceReference \<Rightarrow> string" where
  "host_of svc = serviceHostname (Service_Name svc) (Service_Namespace svc)"

definition secret_key :: "ServiceReference \<Rightarrow> objectKey" where
  "secret_key svc = newObjectKey secretType (Service_Namespace svc) (Service_Name svc)"

definition ca_key :: "Manager \<Rightarrow> objectKey" where
  "ca_key m = newObjectKey secretType (Namespace (secretCAName m)) (Name (secretCAName m))"

lemma ca_key_sel [simp]: "Kind (ca_key m) = secretType" "key_Name (ca_key m) = secretCAName m"
  by (simp_all add: ca_key_def newObjectKey_def)

lemma typed_reference_kind: "typed_references m \<Longrightarrow> w \<in> set (webhooks m) \<Longrightarrow> Ref_Type w \<noteq> secretType"
  using secretType_no_webhook by (auto simp: typed_references_def)

lemma secret_key_sel [simp]: "Kind (secret_key svc) = secretType"
  by (simp add: secret_key_def newObjectKey_def)

definition config_key :: "WebhookReference \<Rightarrow> objectKey" where
  "config_key w = newObjectKey (Ref_Type w) [] (Ref_Name w)"

definition object_refs :: "objectKey \<Rightarrow> Object \<Rightarrow> hook_ref set" where
  "object_refs key ob = {(key, n, svc, CABundle (ClientConfig (object_webhooks ob ! i))) | n svc i.
     (n, i) \<in> set (clientConfigMap ob) \<and> Service (ClientConfig (object_webhooks ob ! i)) = Some svc}"

definition key_refs :: "view \<Rightarrow> objectKey \<Rightarrow> hook_ref set" where
  "key_refs V key = (case V (Kind key) (key_Name key) of None \<Rightarrow> {} | Some ob \<Rightarrow> object_refs key ob)"

definition hook_refs :: "Manager \<Rightarrow> view \<Rightarrow> hook_ref set" where
  "hook_refs m V = (\<Union>w \<in> set (webhooks m). key_refs V (config_key w))"

lemma object_refs_unique:
  assumes "(k, n, svc, b) \<in> object_refs key ob" "(k', n, svc', b') \<in> object_refs key ob"
  shows "svc = svc' \<and> b = b'"
proof -
  from assms obtain i i' where "(n, i) \<in> set (clientConfigMap ob)" "(n, i') \<in> set (clientConfigMap ob)"
    and w: "Service (ClientConfig (object_webhooks ob ! i)) = Some svc" "b = CABundle (ClientConfig (object_webhooks ob ! i))"
      "Service (ClientConfig (object_webhooks ob ! i')) = Some svc'" "b' = CABundle (ClientConfig (object_webhooks ob ! i'))"
    by (auto simp: object_refs_def)
  then have "i = i'" using eq_key_imp_eq_value [OF clientConfigMap_distinct] by metis
  with w show ?thesis by simp
qed

lemma key_refs_key: "(k, r) \<in> key_refs V key \<Longrightarrow> k = key"
  by (auto simp: key_refs_def object_refs_def split: option.splits)

lemma hook_refs_key: "(key, r) \<in> hook_refs m V \<Longrightarrow> (key, r) \<in> key_refs V key \<and> (\<exists>w \<in> set (webhooks m). key = config_key w)"
  unfolding hook_refs_def using key_refs_key by blast

lemma hook_refs_unique:
  "(key, n, svc, b) \<in> hook_refs m V \<Longrightarrow> (key, n, svc', b') \<in> hook_refs m V \<Longrightarrow> svc = svc' \<and> b = b'"
  by (auto dest!: hook_refs_key simp: key_refs_def split: option.splits dest: object_refs_unique)

text \<open>The names are such that nothing is mixed up: a service is determined by its host name, is not
  taken for the CA, and its bundles have different names. Kubernetes allows no dot in the name of
  a service.\<close>

definition named_apart :: "Manager \<Rightarrow> view \<Rightarrow> bool" where
  "named_apart m V \<longleftrightarrow>
     (\<forall>(key, n, svc, b) \<in> hook_refs m V. CHR ''.'' \<notin> set (Service_Name svc)
        \<and> NamespacedName_String (key_Name (secret_key svc)) \<noteq> NamespacedName_String (secretCAName m))
   \<and> (\<forall>(key, n, svc, b) \<in> hook_refs m V. \<forall>(key', n', svc', b') \<in> hook_refs m V.
        host_of svc = host_of svc' \<and> caBundleName (objectKey_String key) n = caBundleName (objectKey_String key') n'
        \<longrightarrow> key = key' \<and> n = n')"

lemma host_of_inject:
  assumes "named_apart m V" "(key, n, svc, b) \<in> hook_refs m V" "(key', n', svc', b') \<in> hook_refs m V" "host_of svc = host_of svc'"
  shows "Service_Name svc = Service_Name svc'" "Service_Namespace svc = Service_Namespace svc'" "secret_key svc = secret_key svc'"
proof -
  have "CHR ''.'' \<notin> set (Service_Name svc)" "CHR ''.'' \<notin> set (Service_Name svc')"
    using assms(1-3) unfolding named_apart_def by auto
  with assms(4) have "Service_Name svc = Service_Name svc' \<and> Service_Namespace svc = Service_Namespace svc'"
    by (auto simp: host_of_def serviceHostname_def dest: append_dot_inject)
  then show "Service_Name svc = Service_Name svc'" "Service_Namespace svc = Service_Namespace svc'" "secret_key svc = secret_key svc'"
    by (simp_all add: secret_key_def)
qed

section \<open>Secrets\<close>

definition pair_of :: "string \<Rightarrow> string \<Rightarrow> Secret \<Rightarrow> slice \<times> slice" where
  "pair_of k c s = (if secret_value k s = None \<or> secret_value c s = None then (None, None)
     else (secret_value k s, secret_value c s))"

definition secret_pair :: "string \<Rightarrow> string \<Rightarrow> view \<Rightarrow> NamespacedName \<Rightarrow> slice \<times> slice" where
  "secret_pair k c V n = (case V secretType n of Some (SecretObject s) \<Rightarrow> pair_of k c s | _ \<Rightarrow> (None, None))"

definition tls_pair :: "view \<Rightarrow> ServiceReference \<Rightarrow> slice \<times> slice" where
  "tls_pair V svc = secret_pair TLSPrivateKeyKey TLSCertKey V (key_Name (secret_key svc))"

definition ca_pair :: "view \<Rightarrow> Manager \<Rightarrow> slice \<times> slice" where
  "ca_pair V m = secret_pair CAPrivateKeyKey CACertKey V (secretCAName m)"

text \<open>An object as it was read: the one of the cluster, or a new secret when there is none.\<close>

definition found :: "view \<Rightarrow> objectKey \<Rightarrow> Object \<Rightarrow> bool" where
  "found V key ob \<longleftrightarrow> object_kind ob = Kind key \<and> object_name ob = key_Name key
     \<and> (V (Kind key) (key_Name key) = Some ob
      \<or> V (Kind key) (key_Name key) = None \<and> Kind key = secretType
        \<and> ob = initSecret (Name (key_Name key)) (Namespace (key_Name key)))"

lemma found_secret:
  assumes "found V key ob" "Kind key = secretType"
  obtains s where "ob = SecretObject s" "\<And>k c. secret_pair k c V (key_Name key) = pair_of k c s"
proof -
  obtain s where s: "ob = SecretObject s" using assms object_kind_secret [of ob] by (auto simp: found_def)
  have "secret_pair k c V (key_Name key) = pair_of k c s" for k c
    using assms s by (auto simp: found_def secret_pair_def pair_of_def initSecret_def secret_value_def)
  with s that show ?thesis by blast
qed

section \<open>Data that was read\<close>

definition pair_at :: "CertificateChainData \<Rightarrow> string \<Rightarrow> (slice \<times> slice) option" where
  "pair_at d h = map_option (\<lambda>ci. (KeyPEM ci, CertPEM ci)) (map_of (CertificatesIssued d) h)"

definition ca_at :: "CertificateChainData \<Rightarrow> slice \<times> slice" where
  "ca_at d = (CA_KeyPEM (Chain_CA d), CA_CertPEM (Chain_CA d))"

text \<open>Everything in the data comes from the cluster.\<close>

definition sound_issue :: "Manager \<Rightarrow> view \<Rightarrow> string \<Rightarrow> CertificateIssue \<Rightarrow> bool" where
  "sound_issue m V h ci \<longleftrightarrow> (\<exists>(key, n, svc, b) \<in> hook_refs m V. h = host_of svc
     \<and> issue_for (Service_Name svc) (Service_Namespace svc) ci
     \<and> (KeyPEM ci, CertPEM ci) \<in> {(None, None), tls_pair V svc})
   \<and> (\<forall>k b. map_of (CACertPEM ci) k = Some b \<longrightarrow>
        (\<exists>(key, n, svc, b') \<in> hook_refs m V. h = host_of svc \<and> k = caBundleName (objectKey_String key) n \<and> b = b'))"

definition sound :: "Manager \<Rightarrow> view \<Rightarrow> CertificateChainData \<Rightarrow> bool" where
  "sound m V d \<longleftrightarrow> CA_Name (Chain_CA d) = NamespacedName_String (secretCAName m)
     \<and> ca_at d \<in> {(None, None), ca_pair V m}
     \<and> (\<forall>h ci. map_of (CertificatesIssued d) h = Some ci \<longrightarrow> sound_issue m V h ci)"

definition ref_read :: "CertificateChainData \<Rightarrow> hook_ref \<Rightarrow> bool" where
  "ref_read d r \<longleftrightarrow> (case r of (key, n, svc, b) \<Rightarrow>
     bundle_at d (host_of svc) (caBundleName (objectKey_String key) n) = Some b)"

lemma sound_update:
  assumes "sound m V d" "sound_issue m V h ci"
  shows "sound m V (d\<lparr>CertificatesIssued := AList.update h ci (CertificatesIssued d)\<rparr>)"
  using assms by (auto simp: sound_def ca_at_def update_conv')

lemma chain_with_bundle_sound:
  assumes "sound m V d" and ref: "(key, n, svc, CABundle config) \<in> hook_refs m V"
  shows "sound m V (chain_with_bundle (objectKey_String key) n config svc d)"
proof -
  let ?h = "serviceHostname (Service_Name svc) (Service_Namespace svc)"
  define d1 where "d1 = (if map_of (CertificatesIssued d) ?h = None
     then d\<lparr>CertificatesIssued := AList.update ?h (newCertificateIssue (Service_Name svc) (Service_Namespace svc)) (CertificatesIssued d)\<rparr>
     else d)"
  have "sound_issue m V ?h (newCertificateIssue (Service_Name svc) (Service_Namespace svc))"
    using ref issue_for_new [of "Service_Name svc" "Service_Namespace svc"]
    unfolding sound_issue_def host_of_def by (auto simp: newCertificateIssue_def Let_def)
  then have d1: "sound m V d1" unfolding d1_def using assms(1) by (simp add: sound_update)
  obtain ci where ci: "map_of (CertificatesIssued d1) ?h = Some ci"
    unfolding d1_def by (cases "map_of (CertificatesIssued d) ?h") (auto simp: update_conv')
  then have old: "sound_issue m V ?h ci" using d1 by (simp add: sound_def)
  let ?ci = "ci\<lparr>CACertPEM := AList.update (caBundleName (objectKey_String key) n) (CABundle config) (CACertPEM ci)\<rparr>"
  have "issue_for sn ns ci \<Longrightarrow> issue_for sn ns ?ci" for sn ns by (simp add: issue_for_def distinct_update)
  then have first: "\<exists>(key, n, svc, b) \<in> hook_refs m V. ?h = host_of svc \<and> issue_for (Service_Name svc) (Service_Namespace svc) ?ci
      \<and> (KeyPEM ?ci, CertPEM ?ci) \<in> {(None, None), tls_pair V svc}"
    using old unfolding sound_issue_def by fastforce
  have "\<exists>(key, n, svc, b') \<in> hook_refs m V. ?h = host_of svc \<and> k = caBundleName (objectKey_String key) n \<and> b = b'"
    if "map_of (CACertPEM ?ci) k = Some b" for k b
  proof (cases "k = caBundleName (objectKey_String key) n")
    case True
    with that have "b = CABundle config" by (simp add: update_conv')
    with True ref show ?thesis unfolding host_of_def by blast
  next
    case False
    with that have "map_of (CACertPEM ci) k = Some b" by (simp add: update_conv')
    with old show ?thesis unfolding sound_issue_def by blast
  qed
  with first have "sound_issue m V ?h ?ci" unfolding sound_issue_def by blast
  from sound_update [OF d1 this] ci show ?thesis by (simp add: chain_with_bundle_def Let_def flip: d1_def)
qed

lemma ref_read_chain_with_bundle:
  assumes "named_apart m V" and ref: "(key, n, svc, CABundle config) \<in> hook_refs m V"
  shows "ref_read (chain_with_bundle (objectKey_String key) n config svc d) (key, n, svc, CABundle config)"
    and "r \<in> hook_refs m V \<Longrightarrow> ref_read d r \<Longrightarrow> ref_read (chain_with_bundle (objectKey_String key) n config svc d) r"
proof -
  show "ref_read (chain_with_bundle (objectKey_String key) n config svc d) (key, n, svc, CABundle config)"
    by (simp add: ref_read_def bundle_at_chain_with_bundle host_of_def)
  assume r: "r \<in> hook_refs m V" "ref_read d r"
  obtain key' n' svc' b' where r': "r = (key', n', svc', b')" by (metis prod_cases4)
  show "ref_read (chain_with_bundle (objectKey_String key) n config svc d) r"
  proof (cases "host_of svc' = host_of svc \<and> caBundleName (objectKey_String key') n' = caBundleName (objectKey_String key) n")
    case True
    with assms r(1) have "key' = key \<and> n' = n" unfolding named_apart_def r' by fast
    with hook_refs_unique r(1) ref have "b' = CABundle config" unfolding r' by blast
    with True show ?thesis by (simp add: r' ref_read_def bundle_at_chain_with_bundle host_of_def)
  next
    case False
    with r(2) show ?thesis by (auto simp: r' ref_read_def bundle_at_chain_with_bundle host_of_def)
  qed
qed

lemma pair_at_chain_with_bundle:
  "pair_at (chain_with_bundle key n config svc d) h =
     (if h = host_of svc \<and> pair_at d h = None then Some (None, None) else pair_at d h)"
  "ca_at (chain_with_bundle key n config svc d) = ca_at d"
  by (auto simp: chain_with_bundle_def Let_def pair_at_def ca_at_def update_conv' host_of_def newCertificateIssue_def)

section \<open>The object map while reading\<close>

definition fresh :: "objectMap \<Rightarrow> bool" where
  "fresh os = (\<forall>p. map_of (entries os) p \<noteq> None \<longrightarrow> p < next_ptr os)"

definition has_entry :: "objectMap \<Rightarrow> objectKey \<Rightarrow> bool" where
  "has_entry os key = (\<exists>p ko. map_of (entries os) p = Some ko \<and> obj_key ko = key)"

lemma fresh_simps [simp]:
  "fresh os \<Longrightarrow> fresh (add_object key os)" "fresh os \<Longrightarrow> fresh (set_kobject p ob os)" "fresh os \<Longrightarrow> fresh (delete_object p os)"
proof -
  show "fresh os \<Longrightarrow> fresh (add_object key os)"
    unfolding fresh_def map_of_add_object by (auto simp: add_object_def Let_def less_Suc_eq)
  have "next_ptr (set_kobject p ob os) = next_ptr os" by (simp add: set_kobject_def split: option.split)
  then show "fresh os \<Longrightarrow> fresh (set_kobject p ob os)"
    unfolding fresh_def map_of_set_kobject by auto
  show "fresh os \<Longrightarrow> fresh (delete_object p os)"
    unfolding fresh_def map_of_delete_object by (auto simp: delete_object_def)
qed

lemma map_of_add_fresh:
  "fresh os \<Longrightarrow> map_of (entries (add_object key os)) q =
     (if q = next_ptr os then Some \<lparr>obj_key = key, kobject = None\<rparr> else map_of (entries os) q)"
  by (auto simp: map_of_add_object fresh_def)

lemma has_entry_add: "fresh os \<Longrightarrow> has_entry (add_object key os) key"
  by (auto simp: has_entry_def map_of_add_fresh)

definition secret_read :: "Manager \<Rightarrow> view \<Rightarrow> CertificateChainData \<Rightarrow> objectKey \<Rightarrow> bool" where
  "secret_read m V d key \<longleftrightarrow> (key = ca_key m \<longrightarrow> ca_at d = ca_pair V m)
     \<and> (\<forall>(k, n, svc, b) \<in> hook_refs m V. key = secret_key svc \<longrightarrow> pair_at d (host_of svc) = Some (tls_pair V svc))"

definition entry_ok :: "Manager \<Rightarrow> view \<Rightarrow> CertificateChainData \<Rightarrow> keyedObject \<Rightarrow> bool" where
  "entry_ok m V d ko \<longleftrightarrow>
     (if Kind (obj_key ko) = secretType
      then obj_key ko = ca_key m
        \<or> (\<exists>(k, n, svc, b) \<in> hook_refs m V. obj_key ko = secret_key svc \<and> pair_at d (host_of svc) \<noteq> None)
      else \<exists>w \<in> set (webhooks m). obj_key ko = config_key w)
   \<and> (\<forall>ob. kobject ko = Some ob \<longrightarrow> found V (obj_key ko) ob \<and> secret_read m V d (obj_key ko))"

definition objects_ok :: "Manager \<Rightarrow> view \<Rightarrow> objectMap \<Rightarrow> CertificateChainData \<Rightarrow> bool" where
  "objects_ok m V os d \<longleftrightarrow> fresh os \<and> sound m V d \<and> (\<forall>p ko. map_of (entries os) p = Some ko \<longrightarrow> entry_ok m V d ko)"

text \<open>Data that has at least what was read before.\<close>

definition grows :: "Manager \<Rightarrow> view \<Rightarrow> CertificateChainData \<Rightarrow> CertificateChainData \<Rightarrow> bool" where
  "grows m V d d' \<longleftrightarrow> (\<forall>r \<in> hook_refs m V. ref_read d r \<longrightarrow> ref_read d' r)
     \<and> (\<forall>h. pair_at d h \<noteq> None \<longrightarrow> pair_at d' h \<noteq> None)
     \<and> (\<forall>key. secret_read m V d key \<longrightarrow> secret_read m V d' key)"

lemma grows_refl [simp, intro]: "grows m V d d"
  by (simp add: grows_def)

lemma grows_trans: "grows m V d d1 \<Longrightarrow> grows m V d1 d2 \<Longrightarrow> grows m V d d2"
  by (simp add: grows_def)

lemma entry_ok_grows:
  assumes "entry_ok m V d ko" "grows m V d d'"
  shows "entry_ok m V d' ko"
proof -
  have "pair_at d h \<noteq> None \<Longrightarrow> pair_at d' h \<noteq> None" "secret_read m V d key \<Longrightarrow> secret_read m V d' key" for h key
    using assms(2) unfolding grows_def by blast+
  with assms(1) show ?thesis unfolding entry_ok_def by (auto split: if_splits) blast
qed

lemma grows_chain_with_bundle:
  assumes "named_apart m V" "(key, n, svc, CABundle config) \<in> hook_refs m V"
  shows "grows m V d (chain_with_bundle (objectKey_String key) n config svc d)"
proof -
  let ?d = "chain_with_bundle (objectKey_String key) n config svc d"
  have "pair_at d h = Some x \<Longrightarrow> pair_at ?d h = Some x" for h x by (simp add: pair_at_chain_with_bundle)
  then have "secret_read m V d key' \<Longrightarrow> secret_read m V ?d key'" for key'
    unfolding secret_read_def pair_at_chain_with_bundle(2) by blast
  then show ?thesis
    using ref_read_chain_with_bundle(2) [OF assms] unfolding grows_def by (auto simp: pair_at_chain_with_bundle)
qed

text \<open>Entries are kept, as they are.\<close>

definition keeps_entries :: "objectMap \<Rightarrow> objectMap \<Rightarrow> bool" where
  "keeps_entries os os' = (\<forall>p ko. map_of (entries os) p = Some ko \<longrightarrow> map_of (entries os') p = Some ko)"

lemma keeps_has_entry: "keeps_entries os os' \<Longrightarrow> has_entry os key \<Longrightarrow> has_entry os' key"
  by (auto simp: keeps_entries_def has_entry_def)

lemma keeps_entries_trans: "keeps_entries os os1 \<Longrightarrow> keeps_entries os1 os2 \<Longrightarrow> keeps_entries os os2"
  by (simp add: keeps_entries_def)

lemma keeps_entries_add: "fresh os \<Longrightarrow> keeps_entries os (add_object key os)"
  by (auto simp: keeps_entries_def map_of_add_fresh fresh_def)

lemma objects_ok_add_secret:
  assumes "objects_ok m V os d" "named_apart m V" and ref: "(key, n, svc, CABundle config) \<in> hook_refs m V"
    and d': "d' = chain_with_bundle (objectKey_String key) n config svc d"
  shows "objects_ok m V (add_object (secret_key svc) os) d'"
proof -
  have g: "grows m V d d'" unfolding d' by (rule grows_chain_with_bundle [OF assms(2) ref])
  have "pair_at d' (host_of svc) \<noteq> None" by (simp add: d' pair_at_chain_with_bundle)
  then have "entry_ok m V d' \<lparr>obj_key = secret_key svc, kobject = None\<rparr>"
    using ref unfolding entry_ok_def by (fastforce simp: secret_key_def newObjectKey_def)
  moreover have "entry_ok m V d' ko" if "map_of (entries os) q = Some ko" for q ko
    using that assms(1) entry_ok_grows [OF _ g] by (auto simp: objects_ok_def)
  moreover have "sound m V d'" unfolding d' using assms(1) ref by (simp add: objects_ok_def chain_with_bundle_sound)
  ultimately show ?thesis using assms(1) by (auto simp: objects_ok_def map_of_add_fresh)
qed

lemma webhook_to_chain_loop_reads:
  assumes "named_apart m V" "V (Kind key) (key_Name key) = Some ob" "\<exists>w \<in> set (webhooks m). key = config_key w"
  shows "objects_ok m V os d \<Longrightarrow> set cm \<subseteq> set (clientConfigMap ob) \<Longrightarrow>
    webhook_to_chain_loop (objectKey_String key) (object_webhooks ob) cm os d = (os', d') \<Longrightarrow>
    objects_ok m V os' d' \<and> grows m V d d' \<and> keeps_entries os os'
    \<and> (\<forall>(n, i) \<in> set cm. \<forall>svc. Service (ClientConfig (object_webhooks ob ! i)) = Some svc \<longrightarrow>
         ref_read d' (key, n, svc, CABundle (ClientConfig (object_webhooks ob ! i))) \<and> has_entry os' (secret_key svc))"
proof (induction cm arbitrary: os d)
  case Nil
  then show ?case by (simp add: keeps_entries_def)
next
  case (Cons kv cm)
  obtain n i where kv: "kv = (n, i)" by fastforce
  let ?w = "object_webhooks ob ! i"
  obtain svc where svc: "Service (ClientConfig ?w) = Some svc"
    using Cons.prems(2) clientConfigMap_entry [of n i ob] by (auto simp: kv)
  have "(key, n, svc, CABundle (ClientConfig ?w)) \<in> object_refs key ob"
    using Cons.prems(2) svc by (auto simp: kv object_refs_def)
  then have ref: "(key, n, svc, CABundle (ClientConfig ?w)) \<in> hook_refs m V"
    using assms(2,3) unfolding hook_refs_def key_refs_def by force
  define d1 where "d1 = chain_with_bundle (objectKey_String key) n (ClientConfig ?w) svc d"
  define os1 where "os1 = add_object (secret_key svc) os"
  have fr: "fresh os" using Cons.prems(1) by (simp add: objects_ok_def)
  have ok1: "objects_ok m V os1 d1"
    using objects_ok_add_secret [OF Cons.prems(1) assms(1) ref d1_def] by (simp add: os1_def)
  have "webhook_to_chain_loop (objectKey_String key) (object_webhooks ob) cm os1 d1 = (os', d')"
    using Cons.prems(3) svc
    by (simp add: kv webhook_to_chain_loop_step d1_def os1_def secret_key_def secretType_def del: webhook_to_chain_loop.simps)
  from Cons.IH [OF ok1 _ this] Cons.prems(2) have IH: "objects_ok m V os' d'" "grows m V d1 d'" "keeps_entries os1 os'"
    "\<forall>(n, i) \<in> set cm. \<forall>svc. Service (ClientConfig (object_webhooks ob ! i)) = Some svc \<longrightarrow>
         ref_read d' (key, n, svc, CABundle (ClientConfig (object_webhooks ob ! i))) \<and> has_entry os' (secret_key svc)"
    by auto
  have "grows m V d d1" unfolding d1_def by (rule grows_chain_with_bundle [OF assms(1) ref])
  moreover have "ref_read d' (key, n, svc, CABundle (ClientConfig ?w))"
    using IH(2) ref ref_read_chain_with_bundle(1) [OF assms(1) ref, of d] by (auto simp: grows_def d1_def)
  moreover have "has_entry os' (secret_key svc)"
    using keeps_has_entry [OF IH(3)] has_entry_add [OF fr] by (simp add: os1_def)
  moreover have "keeps_entries os os'" using keeps_entries_trans [OF keeps_entries_add [OF fr] IH(3) [unfolded os1_def]] .
  ultimately show ?case using IH svc grows_trans [OF \<open>grows m V d d1\<close> IH(2)] by (auto simp: kv)
qed

section \<open>Reading a secret\<close>

lemma tls_pair_cong: "secret_key svc = secret_key svc' \<Longrightarrow> tls_pair V svc = tls_pair V svc'"
  by (simp add: tls_pair_def)

lemma host_of_cong: "secret_key svc = secret_key svc' \<Longrightarrow> host_of svc = host_of svc'"
  by (simp add: secret_key_def newObjectKey_def host_of_def)

lemma secret_key_not_ca:
  "named_apart m V \<Longrightarrow> (key, n, svc, b) \<in> hook_refs m V \<Longrightarrow> secret_key svc \<noteq> ca_key m"
proof
  assume "named_apart m V" "(key, n, svc, b) \<in> hook_refs m V"
  then have "NamespacedName_String (key_Name (secret_key svc)) \<noteq> NamespacedName_String (secretCAName m)"
    unfolding named_apart_def by blast
  moreover assume "secret_key svc = ca_key m"
  ultimately show False by simp
qed

lemma read_ca_secret:
  assumes "sound m V d" "named_apart m V" "found V (ca_key m) ob" "mapSecretToChain (ca_key m) ob d = Ok d'"
  shows "sound m V d' \<and> grows m V d d' \<and> secret_read m V d' (ca_key m)"
proof -
  obtain s where s: "ob = SecretObject s" and p: "\<And>k c. secret_pair k c V (key_Name (ca_key m)) = pair_of k c s"
    by (rule found_secret [OF assms(3)]) (simp, blast)
  have pair: "ca_pair V m = pair_of CAPrivateKeyKey CACertKey s"
    using p [of CAPrivateKeyKey CACertKey] by (simp add: ca_pair_def)
  have "NamespacedName_String (key_Name (ca_key m)) = CA_Name (Chain_CA d)"
    using assms(1) by (simp add: sound_def)
  with assms(4) s have d': "d' = (let k = secret_value CAPrivateKeyKey s; c = secret_value CACertKey s in
      if k = None \<or> c = None then d else d\<lparr>Chain_CA := (Chain_CA d)\<lparr>CA_KeyPEM := k, CA_CertPEM := c\<rparr>\<rparr>)"
    by (auto simp: mapSecretToChain_def mapCASecretToChain_def Let_def split: if_splits)
  then have same: "CertificatesIssued d' = CertificatesIssued d" "CA_Name (Chain_CA d') = CA_Name (Chain_CA d)"
    by (simp_all add: Let_def)
  have ca: "ca_at d' = ca_pair V m"
    using assms(1) d' unfolding sound_def pair by (auto simp: pair_of_def ca_at_def Let_def)
  have eq: "pair_at d' = pair_at d" "ref_read d' = ref_read d"
    using same(1) by (simp_all add: fun_eq_iff pair_at_def ref_read_def bundle_at_def)
  then have "secret_read m V d key \<Longrightarrow> secret_read m V d' key" for key unfolding secret_read_def using ca by simp
  moreover have "secret_read m V d' (ca_key m)"
    using ca secret_key_not_ca [OF assms(2)] unfolding secret_read_def by fastforce
  moreover have "sound m V d'" using assms(1) same ca by (simp add: sound_def)
  ultimately show ?thesis using eq by (simp add: grows_def)
qed

lemma mapSecretToChain_service:
  assumes "sound m V d" "named_apart m V" and ref: "(key, n, svc, b) \<in> hook_refs m V"
    and "found V (secret_key svc) ob" "pair_at d (host_of svc) \<noteq> None" "mapSecretToChain (secret_key svc) ob d = Ok d'"
  obtains ci k c where "map_of (CertificatesIssued d) (host_of svc) = Some ci"
    "map_of (CertificatesIssued d') (host_of svc) = Some (ci\<lparr>KeyPEM := k, CertPEM := c\<rparr>)" "(k, c) = tls_pair V svc"
    "sound_issue m V (host_of svc) (ci\<lparr>KeyPEM := k, CertPEM := c\<rparr>)"
    "\<And>h. h \<noteq> host_of svc \<Longrightarrow> map_of (CertificatesIssued d') h = map_of (CertificatesIssued d) h" "Chain_CA d' = Chain_CA d"
proof -
  let ?h = "host_of svc"
  obtain s where s: "ob = SecretObject s" and p: "\<And>k c. secret_pair k c V (key_Name (secret_key svc)) = pair_of k c s"
    by (rule found_secret [OF assms(4)]) (simp, blast)
  have pair: "tls_pair V svc = pair_of TLSPrivateKeyKey TLSCertKey s" using p by (simp add: tls_pair_def)
  obtain ci where ci: "map_of (CertificatesIssued d) ?h = Some ci" using assms(5) by (auto simp: pair_at_def)
  have "NamespacedName_String (key_Name (secret_key svc)) \<noteq> CA_Name (Chain_CA d)"
    using assms(1,2) ref unfolding sound_def named_apart_def by auto
  moreover have "serviceHostname (Name (key_Name (secret_key svc))) (Namespace (key_Name (secret_key svc))) = ?h"
    by (simp add: secret_key_def newObjectKey_def host_of_def)
  ultimately have d': "d' = (let k = secret_value TLSPrivateKeyKey s; c = secret_value TLSCertKey s in
      if k = None \<or> c = None then d
      else d\<lparr>CertificatesIssued := AList.update ?h (ci\<lparr>KeyPEM := k, CertPEM := c\<rparr>) (CertificatesIssued d)\<rparr>)"
    using assms(6) s ci by (auto simp: mapSecretToChain_def mapServiceSecretToChain_def Let_def split: if_splits)
  have "sound_issue m V ?h ci" using assms(1) ci by (simp add: sound_def)
  then obtain key0 n0 svc0 b0 where r0: "(key0, n0, svc0, b0) \<in> hook_refs m V" "?h = host_of svc0"
    "issue_for (Service_Name svc0) (Service_Namespace svc0) ci" "(KeyPEM ci, CertPEM ci) \<in> {(None, None), tls_pair V svc0}"
    and bundles: "\<forall>k b. map_of (CACertPEM ci) k = Some b \<longrightarrow>
        (\<exists>(key, n, svc, b') \<in> hook_refs m V. ?h = host_of svc \<and> k = caBundleName (objectKey_String key) n \<and> b = b')"
    unfolding sound_issue_def by auto
  have tls0: "tls_pair V svc0 = tls_pair V svc"
    using host_of_inject(3) [OF assms(2) ref r0(1,2)] tls_pair_cong by metis
  obtain k c where kc: "map_of (CertificatesIssued d') ?h = Some (ci\<lparr>KeyPEM := k, CertPEM := c\<rparr>)" "(k, c) = tls_pair V svc"
    using r0(4) ci unfolding d' tls0 pair by (auto simp: pair_of_def Let_def update_conv' split: if_splits)
  have other: "h \<noteq> ?h \<Longrightarrow> map_of (CertificatesIssued d') h = map_of (CertificatesIssued d) h" for h
    by (simp add: d' Let_def update_conv')
  have "sound_issue m V ?h (ci\<lparr>KeyPEM := k, CertPEM := c\<rparr>)"
    unfolding sound_issue_def
  proof (intro conjI bexI)
    show "case (key0, n0, svc0, b0) of (key, n, svc', b) \<Rightarrow> ?h = host_of svc'
        \<and> issue_for (Service_Name svc') (Service_Namespace svc') (ci\<lparr>KeyPEM := k, CertPEM := c\<rparr>)
        \<and> (KeyPEM (ci\<lparr>KeyPEM := k, CertPEM := c\<rparr>), CertPEM (ci\<lparr>KeyPEM := k, CertPEM := c\<rparr>)) \<in> {(None, None), tls_pair V svc'}"
      using r0(2,3) kc(2) tls0 by (simp add: issue_for_def)
  qed (use r0(1) bundles in auto)
  moreover have "Chain_CA d' = Chain_CA d" by (simp add: d' Let_def)
  ultimately show ?thesis using that ci kc other by blast
qed

lemma read_service_secret:
  assumes "sound m V d" "named_apart m V" and ref: "(key, n, svc, b) \<in> hook_refs m V"
    and "found V (secret_key svc) ob" "pair_at d (host_of svc) \<noteq> None" "mapSecretToChain (secret_key svc) ob d = Ok d'"
  shows "sound m V d' \<and> grows m V d d' \<and> secret_read m V d' (secret_key svc)"
proof -
  let ?h = "host_of svc"
  obtain ci k c where ci: "map_of (CertificatesIssued d) ?h = Some ci"
    and kc: "map_of (CertificatesIssued d') ?h = Some (ci\<lparr>KeyPEM := k, CertPEM := c\<rparr>)" "(k, c) = tls_pair V svc"
    and si: "sound_issue m V ?h (ci\<lparr>KeyPEM := k, CertPEM := c\<rparr>)"
    and other: "\<And>h. h \<noteq> ?h \<Longrightarrow> map_of (CertificatesIssued d') h = map_of (CertificatesIssued d) h" and ca: "Chain_CA d' = Chain_CA d"
    using mapSecretToChain_service [OF assms] by metis
  have "sound_issue m V h ci'" if "map_of (CertificatesIssued d') h = Some ci'" for h ci'
    using that kc(1) other assms(1) si by (cases "h = ?h") (auto simp: sound_def)
  then have "sound m V d'" using assms(1) ca by (simp add: sound_def ca_at_def)
  moreover have "bundle_at d' h = bundle_at d h" for h
    using kc(1) ci other [of h] by (cases "h = ?h") (simp_all add: fun_eq_iff bundle_at_def)
  then have "ref_read d' r = ref_read d r" for r by (simp add: ref_read_def)
  moreover have at: "pair_at d' h = (if h = ?h then Some (tls_pair V svc) else pair_at d h)" for h
    using kc other by (simp add: pair_at_def)
  moreover have read: "pair_at d' (host_of svc') = Some (tls_pair V svc')"
    if "(key', n', svc', b') \<in> hook_refs m V" "host_of svc' = ?h \<or> pair_at d (host_of svc') = Some (tls_pair V svc')" for key' n' svc' b'
    using at that host_of_inject(3) [OF assms(2) that(1) ref] tls_pair_cong by metis
  moreover have "secret_read m V d key' \<Longrightarrow> secret_read m V d' key'" for key'
    using read ca unfolding secret_read_def by (fastforce simp: ca_at_def)
  moreover have "secret_read m V d' (secret_key svc)"
    unfolding secret_read_def
  proof (intro conjI ballI, goal_cases)
    case 1
    show ?case using secret_key_not_ca [OF assms(2) ref] by simp
  next
    case (2 r)
    obtain key' n' svc' b' where r: "r = (key', n', svc', b')" by (metis prod_cases4)
    have "secret_key svc = secret_key svc' \<Longrightarrow> pair_at d' (host_of svc') = Some (tls_pair V svc')"
      using read [of key' n' svc' b'] 2 r host_of_cong [of svc' svc] by metis
    then show ?case by (simp add: r)
  qed
  ultimately show ?thesis unfolding grows_def by auto
qed

section \<open>Reading everything\<close>

definition pending :: "objectMap \<Rightarrow> objectKey \<Rightarrow> bool" where
  "pending os key = (\<exists>p ko. map_of (entries os) p = Some ko \<and> obj_key ko = key \<and> kobject ko = None)"

definition config_read :: "view \<Rightarrow> objectMap \<Rightarrow> CertificateChainData \<Rightarrow> objectKey \<Rightarrow> bool" where
  "config_read V os d key \<longleftrightarrow> (\<forall>(k, n, svc, b) \<in> key_refs V key.
     ref_read d (k, n, svc, b) \<and> has_entry os (secret_key svc) \<and> has_entry os key)"

definition reading :: "Manager \<Rightarrow> view \<Rightarrow> objectMap \<Rightarrow> CertificateChainData \<Rightarrow> bool" where
  "reading m V os d \<longleftrightarrow> objects_ok m V os d \<and> has_entry os (ca_key m)
     \<and> (\<forall>w \<in> set (webhooks m). pending os (config_key w) \<or> config_read V os d (config_key w))"

lemma has_entry_set_kobject [simp]: "has_entry (set_kobject p ob os) key = has_entry os key"
proof
  assume "has_entry os key"
  then obtain q ko where q: "map_of (entries os) q = Some ko" "obj_key ko = key" by (auto simp: has_entry_def)
  have "\<exists>ko'. map_of (entries (set_kobject p ob os)) q = Some ko' \<and> obj_key ko' = key"
    using q by (cases "q = p") (simp_all add: map_of_set_kobject)
  then show "has_entry (set_kobject p ob os) key" unfolding has_entry_def by blast
next
  assume "has_entry (set_kobject p ob os) key"
  then show "has_entry os key" unfolding has_entry_def map_of_set_kobject by (fastforce split: if_splits)
qed

lemma config_read_mono:
  assumes "config_read V os d (config_key w)" "w \<in> set (webhooks m)" "grows m V d d'"
    and "\<And>key. has_entry os key \<Longrightarrow> has_entry os' key"
  shows "config_read V os' d' (config_key w)"
proof -
  have "key_refs V (config_key w) \<subseteq> hook_refs m V" using assms(2) by (auto simp: hook_refs_def)
  with assms(1,3,4) show ?thesis unfolding config_read_def grows_def by fast
qed

lemma objects_ok_set_kobject:
  assumes "objects_ok m V os d" "map_of (entries os) p = Some ko"
    and "found V (obj_key ko) ob" "sound m V d'" "grows m V d d'" "secret_read m V d' (obj_key ko)"
  shows "objects_ok m V (set_kobject p ob os) d'"
proof -
  have ok: "map_of (entries os) q = Some k \<Longrightarrow> entry_ok m V d' k" for q k
    using assms(1) entry_ok_grows [OF _ assms(5)] by (auto simp: objects_ok_def)
  have "entry_ok m V d' (ko\<lparr>kobject := Some ob\<rparr>)" using ok [OF assms(2)] assms(3,6) unfolding entry_ok_def by (simp del: not_None_eq)
  with ok assms(1,2,4) show ?thesis by (auto simp: objects_ok_def map_of_set_kobject split: if_splits)
qed

lemma secret_read_config: "Kind key \<noteq> secretType \<Longrightarrow> secret_read m V d key"
  unfolding secret_read_def by auto

text \<open>The two ways to read a webhook configuration, and reading a secret.\<close>

lemma reading_delete:
  assumes "reading m V os d" "map_of (entries os) p = Some ko" "Kind (obj_key ko) \<noteq> secretType" "key_refs V (obj_key ko) = {}"
  shows "reading m V (delete_object p (set_kobject p ob os)) d"
proof -
  let ?os = "delete_object p (set_kobject p ob os)"
  have m: "map_of (entries ?os) q = (if q = p then None else map_of (entries os) q)" for q
    by (simp add: map_of_delete_object map_of_set_kobject)
  have entry: "has_entry os key \<Longrightarrow> key \<noteq> obj_key ko \<Longrightarrow> has_entry ?os key" for key
    using assms(2) unfolding has_entry_def m by (metis option.inject)
  have "objects_ok m V ?os d" using assms(1) unfolding reading_def objects_ok_def m by auto
  moreover have "has_entry ?os (ca_key m)" using assms(1,3) ca_key_sel(1) by (intro entry) (simp add: reading_def, metis)
  moreover have "pending ?os (config_key w) \<or> config_read V ?os d (config_key w)" if "w \<in> set (webhooks m)" for w
  proof (cases "config_key w = obj_key ko")
    case True
    then show ?thesis using assms(4) by (simp add: config_read_def)
  next
    case False
    have "secret_key svc \<noteq> obj_key ko" for svc using assms(3) by (metis secret_key_sel)
    then have "config_read V os d (config_key w) \<Longrightarrow> config_read V ?os d (config_key w)"
      using entry False unfolding config_read_def by blast
    moreover have "pending os (config_key w) \<Longrightarrow> pending ?os (config_key w)"
      using assms(2) False unfolding pending_def m by (metis option.inject)
    ultimately show ?thesis using assms(1) that by (auto simp: reading_def)
  qed
  ultimately show ?thesis by (simp add: reading_def)
qed

lemma pending_other:
  assumes "pending os key" "map_of (entries os) p = Some ko" "key \<noteq> obj_key ko" "keeps_entries (set_kobject p ob os) os'"
  shows "pending os' key"
proof -
  from assms(1) obtain q k where k: "map_of (entries os) q = Some k" "obj_key k = key" "kobject k = None" by (auto simp: pending_def)
  with assms(2,3) have "q \<noteq> p" by auto
  with k assms(4) show ?thesis unfolding pending_def keeps_entries_def by (metis map_of_set_kobject)
qed

lemma reading_config:
  assumes "reading m V os d" "named_apart m V" "map_of (entries os) p = Some ko" "Kind (obj_key ko) \<noteq> secretType"
    and V: "V (Kind (obj_key ko)) (key_Name (obj_key ko)) = Some ob" "found V (obj_key ko) ob"
    and l: "webhook_to_chain_loop (objectKey_String (obj_key ko)) (object_webhooks ob) (clientConfigMap ob) (set_kobject p ob os) d = (os', d')"
  shows "reading m V os' d'"
proof -
  let ?os = "set_kobject p ob os"
  have ok: "objects_ok m V os d" using assms(1) by (simp add: reading_def)
  then have "entry_ok m V d ko" "sound m V d" using assms(3) by (auto simp: objects_ok_def)
  then have w: "\<exists>w \<in> set (webhooks m). obj_key ko = config_key w" using assms(4) by (simp add: entry_ok_def)
  have "objects_ok m V ?os d"
    using ok assms(3) V(2) \<open>sound m V d\<close> by (rule objects_ok_set_kobject) (simp_all add: secret_read_config assms(4))
  from webhook_to_chain_loop_reads [OF assms(2) V(1) w this subset_refl l]
  have ok': "objects_ok m V os' d'" "grows m V d d'" "keeps_entries ?os os'"
    and refs: "\<forall>(n, i) \<in> set (clientConfigMap ob). \<forall>svc. Service (ClientConfig (object_webhooks ob ! i)) = Some svc \<longrightarrow>
       ref_read d' (obj_key ko, n, svc, CABundle (ClientConfig (object_webhooks ob ! i))) \<and> has_entry os' (secret_key svc)" by auto
  have entry: "has_entry os key \<Longrightarrow> has_entry os' key" for key using keeps_has_entry [OF ok'(3)] by simp
  have "pending os' (config_key w) \<or> config_read V os' d' (config_key w)" if w: "w \<in> set (webhooks m)" for w
  proof (cases "config_key w = obj_key ko")
    case True
    have "has_entry os (obj_key ko)" using assms(3) by (auto simp: has_entry_def)
    then have "config_read V os' d' (obj_key ko)"
      using refs entry V(1) unfolding config_read_def key_refs_def object_refs_def by auto
    with True show ?thesis by simp
  next
    case False
    then show ?thesis
      using assms(1) w config_read_mono [OF _ w ok'(2) entry] pending_other [OF _ assms(3) False ok'(3)]
      by (auto simp: reading_def)
  qed
  with ok' entry assms(1) show ?thesis by (simp add: reading_def)
qed

lemma reading_secret:
  assumes "reading m V os d" "named_apart m V" "typed_references m" "map_of (entries os) p = Some ko" "Kind (obj_key ko) = secretType"
    and "found V (obj_key ko) ob" "mapSecretToChain (obj_key ko) ob d = Ok d'"
  shows "reading m V (set_kobject p ob os) d'"
proof -
  have ok: "objects_ok m V os d" using assms(1) by (simp add: reading_def)
  then have e: "entry_ok m V d ko" "sound m V d" using assms(4) by (auto simp: objects_ok_def)
  then have "sound m V d' \<and> grows m V d d' \<and> secret_read m V d' (obj_key ko)"
    using assms(2,5,6,7) read_ca_secret [OF e(2) assms(2)] read_service_secret [OF e(2) assms(2)]
    by (auto simp: entry_ok_def)
  note d' = this [THEN conjunct1] this [THEN conjunct2, THEN conjunct1] this [THEN conjunct2, THEN conjunct2]
  have "objects_ok m V (set_kobject p ob os) d'" by (rule objects_ok_set_kobject [OF ok assms(4,6) d'])
  moreover have "pending (set_kobject p ob os) (config_key w) \<or> config_read V (set_kobject p ob os) d' (config_key w)"
    if w: "w \<in> set (webhooks m)" for w
  proof -
    have "Kind (config_key w) \<noteq> secretType"
      using typed_reference_kind [OF assms(3) w] by (simp add: config_key_def newObjectKey_def)
    then have "config_key w \<noteq> obj_key ko" using assms(5) by metis
    from pending_other [OF _ assms(4) this, of ob "set_kobject p ob os"] config_read_mono [OF _ w d'(2), of os "set_kobject p ob os"]
    show ?thesis using assms(1) w by (auto simp: reading_def keeps_entries_def)
  qed
  ultimately show ?thesis using assms(1) by (simp add: reading_def)
qed

context kube_cluster
begin

lemma get_found:
  assumes "objectOperatorsMap (Kind key) = Some ops" "g = Ok () \<or> IsNotFound g"
    and "get cl (key_Name key) (creator ops (Name (key_Name key)) (Namespace (key_Name key))) s = (g, ob, s')"
  shows "(view s (Kind key) (key_Name key) = Some ob \<and> found (view s) key ob)
    \<or> (view s (Kind key) (key_Name key) = None
       \<and> (if Kind key = secretType then found (view s) key ob else clientConfigMap ob = []))"
proof -
  have kind: "object_kind (creator ops (Name (key_Name key)) (Namespace (key_Name key))) = Kind key" by (rule creator_kind [OF assms(1)])
  note get = get_view_kept [OF assms(3), unfolded kind]
  show ?thesis
  proof (cases "g = Ok ()")
    case True
    with get(2) have v: "view s (Kind key) (key_Name key) = Some ob" by simp
    with view_key [OF v] show ?thesis by (simp add: found_def)
  next
    case False
    with get assms(2) have "ob = creator ops (Name (key_Name key)) (Namespace (key_Name key))"
      "view s (Kind key) (key_Name key) = None" by auto
    with assms(1) kind show ?thesis
      by (auto simp: found_def objectOperatorsMap_def webhook_operators_def initSecret_def initMutatingWebhook_def
          initValidatingWebhook_def object_name_def clientConfigMap_def mutatingWebhookType_def validatingWebhookType_def
          secretType_no_webhook split: if_splits)
  qed
qed

lemma readObjectToChain_reading:
  assumes "readObjectToChain m cl p st = (Ok (), st')" "reading m V (rs_objects st) (rs_chain st)" "view (rs_cluster st) = V"
    and "named_apart m V" "typed_references m"
  shows "reading m V (rs_objects st') (rs_chain st') \<and> view (rs_cluster st') = V"
  using assms(1)
proof (cases rule: readObjectToChain_cases)
  case skipped
  then show ?thesis using assms(2,3) by simp
next
  case (mapped ko ops g ob s1 v)
  have V: "view s1 = V" using get_view_kept(1) [OF mapped(4)] assms(3) by simp
  have f: "(V (Kind (obj_key ko)) (key_Name (obj_key ko)) = Some ob \<and> found V (obj_key ko) ob)
    \<or> (V (Kind (obj_key ko)) (key_Name (obj_key ko)) = None
       \<and> (if Kind (obj_key ko) = secretType then found V (obj_key ko) ob else clientConfigMap ob = []))"
    using get_found [OF mapped(3) _ mapped(4)] mapped(5) assms(3) by blast
  show ?thesis
    using mapped(3)
  proof (cases rule: operators_kinds)
    case webhook
    let ?os = "set_kobject p ob (rs_objects st)"
    obtain os' d' where w: "mapWebhookToChain p (obj_key ko) ob ?os (rs_chain st) = (os', d')" by fastforce
    with mapped(6,7) webhook have st': "rs_objects st' = os'" "rs_chain st' = d'" "rs_cluster st' = s1" by auto
    have "reading m V os' d'"
    proof (cases "clientConfigMap ob = []")
      case True
      then have "key_refs V (obj_key ko) = {}" using f by (auto simp: key_refs_def object_refs_def)
      from reading_delete [OF assms(2) mapped(1) webhook(1) this] True w show ?thesis by (auto simp: mapWebhookToChain_def)
    next
      case False
      with f webhook(1) have "V (Kind (obj_key ko)) (key_Name (obj_key ko)) = Some ob" "found V (obj_key ko) ob" by auto
      from reading_config [OF assms(2,4) mapped(1) webhook(1) this] False w show ?thesis
        by (simp add: mapWebhookToChain_def Let_def)
    qed
    with st' V show ?thesis by simp
  next
    case secret
    with f have fo: "found V (obj_key ko) ob" by auto
    obtain d' where "mapSecretToChain (obj_key ko) ob (rs_chain st) = Ok d'" "rs_chain st' = d'"
      "rs_objects st' = set_kobject p ob (rs_objects st)" "rs_cluster st' = s1"
      using mapped(6,7) secret by (cases "mapSecretToChain (obj_key ko) ob (rs_chain st)") auto
    with reading_secret [OF assms(2,4,5) mapped(1) secret(1) fo] V show ?thesis by simp
  qed
qed auto

lemma read_run_reading:
  "read_run m cl st r st' \<Longrightarrow> reading m V (rs_objects st) (rs_chain st) \<Longrightarrow> view (rs_cluster st) = V \<Longrightarrow>
   named_apart m V \<Longrightarrow> typed_references m \<Longrightarrow> r = Ok () \<Longrightarrow>
   reading m V (rs_objects st') (rs_chain st') \<and> view (rs_cluster st') = V \<and> unread (rs_objects st') = []"
proof (induction rule: read_run.induct)
  case (read_one p st st1 r st2)
  then show ?case using readObjectToChain_reading [OF read_one.hyps(2)] by blast
qed auto

end

section \<open>What a complete read gives\<close>

definition snapshot :: "Manager \<Rightarrow> view \<Rightarrow> CertificateChainData \<Rightarrow> bool" where
  "snapshot m V d \<longleftrightarrow> sound m V d \<and> ca_at d = ca_pair V m
     \<and> (\<forall>(key, n, svc, b) \<in> hook_refs m V. ref_read d (key, n, svc, b) \<and> pair_at d (host_of svc) = Some (tls_pair V svc))"

definition objects_read :: "Manager \<Rightarrow> view \<Rightarrow> objectMap \<Rightarrow> bool" where
  "objects_read m V os \<longleftrightarrow> has_entry os (ca_key m)
     \<and> (\<forall>(key, n, svc, b) \<in> hook_refs m V. has_entry os key \<and> has_entry os (secret_key svc))
     \<and> (\<forall>p ko. map_of (entries os) p = Some ko \<longrightarrow> (\<exists>ob. kobject ko = Some ob \<and> found V (obj_key ko) ob)
         \<and> (Kind (obj_key ko) = secretType \<longrightarrow> obj_key ko = ca_key m \<or> (\<exists>(key, n, svc, b) \<in> hook_refs m V. obj_key ko = secret_key svc)))"

lemma reading_snapshot:
  assumes "reading m V os d" "unread os = []"
  shows "snapshot m V d" "objects_read m V os"
proof -
  have read: "\<exists>ob. kobject ko = Some ob" if "map_of (entries os) p = Some ko" for p ko
    using assms(2) that mem_unread [of p os] by (cases "kobject ko") auto
  have entry: "entry_ok m V d ko" if "map_of (entries os) p = Some ko" for p ko
    using that assms(1) by (auto simp: reading_def objects_ok_def)
  have sec: "secret_read m V d key" if "has_entry os key" for key
    using that read entry unfolding has_entry_def entry_ok_def by blast
  have refs: "ref_read d (key, n, svc, b) \<and> has_entry os (secret_key svc) \<and> has_entry os key"
    if r: "(key, n, svc, b) \<in> hook_refs m V" for key n svc b
  proof -
    from hook_refs_key [OF r] obtain w where w: "w \<in> set (webhooks m)" "key = config_key w" "(key, n, svc, b) \<in> key_refs V key" by blast
    have "\<not> pending os key" using read by (auto simp: pending_def)
    with assms(1) w have "config_read V os d key" by (auto simp: reading_def)
    with w(3) show ?thesis unfolding config_read_def by blast
  qed
  have "pair_at d (host_of svc) = Some (tls_pair V svc)" if "(key, n, svc, b) \<in> hook_refs m V" for key n svc b
    using sec [of "secret_key svc"] refs [OF that] that unfolding secret_read_def by blast
  moreover have ca: "has_entry os (ca_key m)" using assms(1) by (simp add: reading_def)
  moreover from sec [OF ca] have "ca_at d = ca_pair V m" by (simp add: secret_read_def)
  ultimately show "snapshot m V d" using assms(1) refs by (auto simp: snapshot_def reading_def objects_ok_def)
  show "objects_read m V os"
    unfolding objects_read_def using ca refs read entry unfolding entry_ok_def by fastforce
qed

lemma snapshot_issue:
  assumes "snapshot m V d" "named_apart m V" and r: "(key, n, svc, b) \<in> hook_refs m V"
  shows "\<exists>ci. map_of (CertificatesIssued d) (host_of svc) = Some ci \<and> issue_for (Service_Name svc) (Service_Namespace svc) ci
    \<and> map_of (CACertPEM ci) (caBundleName (objectKey_String key) n) = Some b \<and> (KeyPEM ci, CertPEM ci) = tls_pair V svc"
proof -
  have "ref_read d (key, n, svc, b)" "pair_at d (host_of svc) = Some (tls_pair V svc)"
    using assms(1) r unfolding snapshot_def by blast+
  then obtain ci where ci: "map_of (CertificatesIssued d) (host_of svc) = Some ci"
    "map_of (CACertPEM ci) (caBundleName (objectKey_String key) n) = Some b" "(KeyPEM ci, CertPEM ci) = tls_pair V svc"
    by (auto simp: ref_read_def bundle_at_def pair_at_def split: option.splits)
  have "sound_issue m V (host_of svc) ci" using assms(1) ci(1) by (simp add: snapshot_def sound_def)
  then obtain key' n' svc' b' where r': "(key', n', svc', b') \<in> hook_refs m V" "host_of svc = host_of svc'"
    "issue_for (Service_Name svc') (Service_Namespace svc') ci" unfolding sound_issue_def by blast
  from host_of_inject(1,2) [OF assms(2) r r'(1,2)] r'(3) ci show ?thesis by auto
qed

lemma init_webhooks_keeps: "fresh os \<Longrightarrow> keeps_entries os (init_webhooks ws os) \<and> fresh (init_webhooks ws os)"
proof (induction ws arbitrary: os)
  case (Cons w ws)
  let ?os = "add_object (newObjectKey (Ref_Type w) [] (Ref_Name w)) os"
  have "keeps_entries ?os (init_webhooks ws ?os) \<and> fresh (init_webhooks ws ?os)" using Cons by simp
  with keeps_entries_trans [OF keeps_entries_add [OF Cons.prems]] show ?case by auto
qed (simp add: keeps_entries_def)

lemma keeps_pending: "keeps_entries os os' \<Longrightarrow> pending os key \<Longrightarrow> pending os' key"
  unfolding keeps_entries_def pending_def by blast

lemma init_webhooks_pending:
  "fresh os \<Longrightarrow> w \<in> set ws \<Longrightarrow> pending (init_webhooks ws os) (config_key w)"
proof (induction ws arbitrary: os)
  case (Cons v ws)
  let ?os = "add_object (newObjectKey (Ref_Type v) [] (Ref_Name v)) os"
  show ?case
  proof (cases "w = v")
    case True
    have "pending ?os (config_key w)" using Cons.prems(1) True by (auto simp: pending_def map_of_add_fresh config_key_def)
    moreover have "keeps_entries ?os (init_webhooks ws ?os)" using init_webhooks_keeps [of ?os ws] Cons.prems(1) by simp
    ultimately show ?thesis by (simp add: keeps_pending)
  next
    case False
    with Cons show ?thesis by simp
  qed
qed simp

lemma init_webhooks_entries:
  "fresh os \<Longrightarrow> map_of (entries (init_webhooks ws os)) p = Some ko \<Longrightarrow>
   map_of (entries os) p = Some ko \<or> (\<exists>w \<in> set ws. ko = \<lparr>obj_key = config_key w, kobject = None\<rparr>)"
proof (induction ws arbitrary: os)
  case (Cons w ws)
  let ?os = "add_object (newObjectKey (Ref_Type w) [] (Ref_Name w)) os"
  have "map_of (entries ?os) p = Some ko \<or> (\<exists>w \<in> set ws. ko = \<lparr>obj_key = config_key w, kobject = None\<rparr>)"
    using Cons.IH [of ?os] Cons.prems by simp
  then show ?case using Cons.prems(1) by (auto simp: map_of_add_fresh config_key_def split: if_splits)
qed simp

lemma reading_start:
  assumes "typed_references m"
  shows "reading m V (rs_objects (start_state m s)) (rs_chain (start_state m s))"
proof -
  define os where "os = init_webhooks (webhooks m) empty_objectMap"
  have fr: "fresh empty_objectMap" by (simp add: fresh_def empty_objectMap_def)
  then have os: "fresh os" unfolding os_def using init_webhooks_keeps by blast
  have st: "rs_objects (start_state m s) = add_object (ca_key m) os" "rs_chain (start_state m s) = named_chain m"
    by (simp_all add: start_state_def initObjects_def os_def ca_key_def Let_def)
  have "sound m V (named_chain m)" by (simp add: sound_def named_chain_def empty_chain_def ca_at_def)
  moreover have "entry_ok m V (named_chain m) ko" if "map_of (entries (add_object (ca_key m) os)) p = Some ko" for p ko
  proof -
    have "ko = \<lparr>obj_key = ca_key m, kobject = None\<rparr> \<or> map_of (entries os) p = Some ko"
      using that by (auto simp: map_of_add_fresh [OF os] split: if_splits)
    moreover have "map_of (entries empty_objectMap) p = None" by (simp add: empty_objectMap_def)
    ultimately consider "ko = \<lparr>obj_key = ca_key m, kobject = None\<rparr>"
      | w where "w \<in> set (webhooks m)" "ko = \<lparr>obj_key = config_key w, kobject = None\<rparr>"
      using init_webhooks_entries [OF fr, of "webhooks m" p ko, folded os_def] by auto
    then show ?thesis
    proof cases
      case (2 w)
      with typed_reference_kind [OF assms 2(1)] show ?thesis
        by (auto simp: entry_ok_def config_key_def newObjectKey_def)
    qed (simp add: entry_ok_def)
  qed
  moreover have "pending (add_object (ca_key m) os) (config_key w)" if "w \<in> set (webhooks m)" for w
    using init_webhooks_pending [OF fr that] keeps_pending [OF keeps_entries_add [OF os]] by (simp add: os_def)
  ultimately show ?thesis using os has_entry_add by (simp add: st reading_def objects_ok_def)
qed

text \<open>Every complete read of an unchanging cluster gives a snapshot of it.\<close>

context kube_cluster
begin

lemma read_snapshot:
  assumes "read_run m cl (start_state m s) (Ok ()) st" "named_apart m (view s)" "typed_references m"
  shows "snapshot m (view s) (rs_chain st)" "objects_read m (view s) (rs_objects st)" "view (rs_cluster st) = view s"
proof -
  have "reading m (view s) (rs_objects st) (rs_chain st) \<and> view (rs_cluster st) = view s \<and> unread (rs_objects st) = []"
    by (rule read_run_reading [OF assms(1) reading_start [OF assms(3)] _ assms(2,3) refl]) (simp add: start_state_def)
  then show "snapshot m (view s) (rs_chain st)" "objects_read m (view s) (rs_objects st)" "view (rs_cluster st) = view s"
    using reading_snapshot by auto
qed

end

end
