(* ===== verification/Cluster_Write.thy ===== *)
theory Cluster_Write
  imports Cluster_View
begin

text \<open>
  What a complete write leaves in a cluster that nobody else changes: every object that was read
  holds what the data says of it, and webhooks refer to the same services as before.
\<close>

section \<open>Objects that hold chain data\<close>

definition key_host :: "objectKey \<Rightarrow> string" where
  "key_host key = serviceHostname (Name (key_Name key)) (Namespace (key_Name key))"

definition holds_secret :: "CertificateChainData \<Rightarrow> objectKey \<Rightarrow> Secret \<Rightarrow> bool" where
  "holds_secret d key s \<longleftrightarrow> Data s \<noteq> None
     \<and> (if NamespacedName_String (key_Name key) = CA_Name (Chain_CA d)
        then ca_at d = (secret_value CAPrivateKeyKey s, secret_value CACertKey s)
        else pair_at d (key_host key) = Some (secret_value TLSPrivateKeyKey s, secret_value TLSCertKey s))"

definition holds :: "CertificateChainData \<Rightarrow> objectKey \<Rightarrow> Object \<Rightarrow> bool" where
  "holds d key ob \<longleftrightarrow>
     (if Kind key = secretType then \<exists>s. ob = SecretObject s \<and> holds_secret d key s
      else \<forall>(k, n, svc, b) \<in> object_refs key ob. \<forall>c.
        bundle_at d (host_of svc) (caBundleName (objectKey_String key) n) = Some (Some c) \<longrightarrow> b = Some c)"

text \<open>A key that the data has something to say about.\<close>

definition covered :: "CertificateChainData \<Rightarrow> objectKey \<Rightarrow> bool" where
  "covered d key \<longleftrightarrow> Kind key = secretType \<and> NamespacedName_String (key_Name key) \<noteq> CA_Name (Chain_CA d)
     \<longrightarrow> pair_at d (key_host key) \<noteq> None"

lemma secret_value_update:
  "secret_value k (s\<lparr>secret_Type := t, Data := Some (AList.update c v (AList.update c' v' m))\<rparr>) =
     (if k = c then v else if k = c' then v' else lookup_slice k m)"
  by (simp add: secret_value_def)

lemma mapSecretFromChain_holds:
  assumes "mapSecretFromChain key d (SecretObject s) = Ok ob" "covered d key" "Kind key = secretType"
  shows "\<exists>s'. ob = SecretObject s' \<and> holds_secret d key s' \<and> secret_Meta s' = secret_Meta s"
proof (cases "NamespacedName_String (key_Name key) = CA_Name (Chain_CA d)")
  case True
  with assms(1) show ?thesis
    by (auto simp: mapSecretFromChain_def mapCASecretFromChain_def holds_secret_def secret_value_update ca_at_def)
next
  case False
  then obtain ci where ci: "map_of (CertificatesIssued d) (key_host key) = Some ci"
    using assms(2,3) by (auto simp: covered_def pair_at_def)
  with assms(1) False show ?thesis
    by (auto simp: mapSecretFromChain_def mapServiceSecretFromChain_def Let_def holds_secret_def secret_value_update
        pair_at_def simp flip: key_host_def)
qed

lemma apply_bundle_holds:
  assumes "Service (ClientConfig w) = Some svc"
    and "bundle_at d (host_of svc) (caBundleName key n) = Some (Some c)"
  shows "CABundle (ClientConfig (apply_bundle key d n w)) = Some c"
  using assms by (auto simp: apply_bundle_def bundle_at_def lookup_slice_def host_of_def split: option.splits)

section \<open>The services webhooks refer to\<close>

definition hooks_of :: "Object \<Rightarrow> (string \<times> ServiceReference option) list" where
  "hooks_of ob = map (\<lambda>w. (Webhook_Name w, Service (ClientConfig w))) (object_webhooks ob)"

lemma hooks_of_configs: "hooks_of ob = hooks_of ob' \<Longrightarrow> clientConfigMap ob = clientConfigMap ob'"
  unfolding hooks_of_def clientConfigMap_def by (rule client_config_loop_cong)

lemma hooks_of_service:
  assumes "hooks_of ob = hooks_of ob'" "i < length (object_webhooks ob)"
  shows "Service (ClientConfig (object_webhooks ob ! i)) = Service (ClientConfig (object_webhooks ob' ! i))"
proof -
  have "length (object_webhooks ob') = length (object_webhooks ob)" using assms(1) map_eq_imp_length_eq unfolding hooks_of_def by metis
  moreover have "hooks_of ob ! i = hooks_of ob' ! i" using assms(1) by simp
  ultimately show ?thesis using assms(2) by (simp add: hooks_of_def)
qed

lemma hooks_of_refs:
  assumes "hooks_of ob = hooks_of ob'" "(k, n, svc, b) \<in> object_refs key ob"
  shows "\<exists>b'. (k, n, svc, b') \<in> object_refs key ob'"
proof -
  from assms(2) obtain i where i: "(n, i) \<in> set (clientConfigMap ob)" "k = key"
    "Service (ClientConfig (object_webhooks ob ! i)) = Some svc" by (auto simp: object_refs_def)
  moreover have "i < length (object_webhooks ob)" using clientConfigMap_entry [OF i(1)] by simp
  ultimately show ?thesis using hooks_of_configs [OF assms(1)] hooks_of_service [OF assms(1)] by (auto simp: object_refs_def)
qed

lemma mapWebhookFromChain_hooks: "hooks_of (mapWebhookFromChain key d ob) = hooks_of ob"
  unfolding hooks_of_def
proof (rule nth_equalityI; simp add: mapWebhookFromChain_nth(1))
  fix i assume "i < length (object_webhooks ob)"
  show "Webhook_Name (object_webhooks (mapWebhookFromChain key d ob) ! i) = Webhook_Name (object_webhooks ob ! i)
    \<and> Service (ClientConfig (object_webhooks (mapWebhookFromChain key d ob) ! i)) = Service (ClientConfig (object_webhooks ob ! i))"
  proof (cases "i \<in> snd ` set (clientConfigMap ob)")
    case True
    then obtain n where "(n, i) \<in> set (clientConfigMap ob)" by force
    then show ?thesis by (simp add: mapWebhookFromChain_nth(2))
  qed (simp add: mapWebhookFromChain_nth(3))
qed

lemma mapWebhookFromChain_holds:
  assumes "Kind key \<noteq> secretType"
  shows "holds d key (mapWebhookFromChain key d ob)"
proof -
  let ?ob = "mapWebhookFromChain key d ob"
  have "b = Some c" if r: "(k, n, svc, b) \<in> object_refs key ?ob"
    and c: "bundle_at d (host_of svc) (caBundleName (objectKey_String key) n) = Some (Some c)" for k n svc b c
  proof -
    from r obtain i where i: "(n, i) \<in> set (clientConfigMap ?ob)" "Service (ClientConfig (object_webhooks ?ob ! i)) = Some svc"
      "b = CABundle (ClientConfig (object_webhooks ?ob ! i))" by (auto simp: object_refs_def)
    have i': "(n, i) \<in> set (clientConfigMap ob)" using i(1) hooks_of_configs [OF mapWebhookFromChain_hooks] by simp
    note nth = mapWebhookFromChain_nth(2) [OF i', of key d]
    have "Service (ClientConfig (object_webhooks ob ! i)) = Some svc" using i(2) by (simp add: nth)
    from apply_bundle_holds [OF this c] i(3) show ?thesis by (simp add: nth)
  qed
  with assms show ?thesis unfolding holds_def by auto
qed

section \<open>What mapping from the chain gives\<close>

lemma fromChainMapper_holds:
  assumes "objectOperatorsMap (Kind key) = Some ops" "fromChainMapper ops key d current = Ok ob"
    and "object_kind current = Kind key" "covered d key"
  shows "holds d key ob" "object_kind ob = Kind key" "object_name ob = object_name current"
    "Kind key \<noteq> secretType \<Longrightarrow> hooks_of ob = hooks_of current"
proof -
  have *: "holds d key ob \<and> object_kind ob = Kind key \<and> object_name ob = object_name current
    \<and> (Kind key \<noteq> secretType \<longrightarrow> hooks_of ob = hooks_of current)"
  proof (cases "Kind key = secretType")
    case True
    then have m: "mapSecretFromChain key d current = Ok ob" using assms(1,2)
      by (auto simp: objectOperatorsMap_def mutatingWebhookType_def validatingWebhookType_def secretType_no_webhook [symmetric] split: if_splits)
    obtain s where s: "current = SecretObject s" using assms(3) True object_kind_secret by metis
    from mapSecretFromChain_holds [OF m [unfolded s] assms(4) True] obtain s' where
      "ob = SecretObject s'" "holds_secret d key s'" "secret_Meta s' = secret_Meta s" by blast
    with True s show ?thesis by (simp add: holds_def object_name_def)
  next
    case False
    then have ob: "ob = mapWebhookFromChain key d current" using assms(1,2)
      by (auto simp: objectOperatorsMap_def webhook_operators_def split: if_splits)
    moreover have "object_kind ob = object_kind current" by (rule object_kind_FromChain [OF assms(1,2)])
    ultimately show ?thesis
      using False assms(3) mapWebhookFromChain_holds [OF False] mapWebhookFromChain_hooks mapWebhookFromChain_nth(4) [of key d current]
      by (simp add: object_name_def)
  qed
  then show "holds d key ob" "object_kind ob = Kind key" "object_name ob = object_name current"
    "Kind key \<noteq> secretType \<Longrightarrow> hooks_of ob = hooks_of current" by blast+
qed

lemma DeepEqual_holds:
  assumes "DeepEqual a b" "holds d key b"
  shows "holds d key a"
proof (cases "Kind key = secretType")
  case True
  with assms obtain s s' where s: "b = SecretObject s" "holds_secret d key s" "a = SecretObject s'"
    by (cases a; cases b) (auto simp: holds_def)
  with assms(1) have de: "data_equal (Data s') (Data s)" by simp
  then have "secret_value k s' = secret_value k s" for k
    by (auto simp: data_equal_def secret_value_def lookup_slice_def gomap_equal_iff split: option.splits)
  moreover have "Data s' \<noteq> None" using de s(2) by (auto simp: data_equal_def holds_secret_def split: option.splits)
  ultimately have "holds_secret d key s'" using s(2) by (simp add: holds_secret_def)
  with True s show ?thesis by (simp add: holds_def)
next
  case False
  have "object_webhooks a = object_webhooks b" using assms(1) by (cases a; cases b) auto
  then have "object_refs key a = object_refs key b" by (simp add: object_refs_def clientConfigMap_def)
  with False assms(2) show ?thesis by (simp add: holds_def)
qed

lemma with_rest_holds [simp]: "holds d key (with_rest r ob) = holds d key ob"
proof -
  have "object_refs key (with_rest r ob) = object_refs key ob" by (simp add: object_refs_def clientConfigMap_def)
  moreover have "(\<exists>s. with_rest r ob = SecretObject s \<and> holds_secret d key s) = (\<exists>s. ob = SecretObject s \<and> holds_secret d key s)"
    by (cases ob) (auto simp: holds_secret_def secret_value_def)
  ultimately show ?thesis by (simp add: holds_def)
qed

lemma with_rest_hooks [simp]: "hooks_of (with_rest r ob) = hooks_of ob"
  by (simp add: hooks_of_def)

section \<open>The write loop\<close>

definition stored_in :: "view \<Rightarrow> CertificateChainData \<Rightarrow> objectKey \<Rightarrow> bool" where
  "stored_in V d key \<longleftrightarrow> (\<exists>ob. V (Kind key) (key_Name key) = Some ob \<and> holds d key ob)"

text \<open>Objects are as they were read from \<open>V0\<close> or hold the data.\<close>

definition view_written :: "view \<Rightarrow> CertificateChainData \<Rightarrow> view \<Rightarrow> bool" where
  "view_written V0 d V \<longleftrightarrow>
     (\<forall>key. V (Kind key) (key_Name key) = V0 (Kind key) (key_Name key) \<or> stored_in V d key)
   \<and> (\<forall>k n. k \<noteq> secretType \<longrightarrow> rel_option (\<lambda>a b. hooks_of a = hooks_of b) (V0 k n) (V k n))"

definition entry_written :: "view \<Rightarrow> CertificateChainData \<Rightarrow> view \<Rightarrow> keyedObject \<Rightarrow> bool" where
  "entry_written V0 d V ko \<longleftrightarrow> covered d (obj_key ko) \<and> (\<exists>ob. kobject ko = Some ob
     \<and> object_kind ob = Kind (obj_key ko) \<and> object_name ob = key_Name (obj_key ko)
     \<and> (found V0 (obj_key ko) ob \<or> stored_in V d (obj_key ko)))"

definition writing :: "view \<Rightarrow> CertificateChainData \<Rightarrow> objectMap \<Rightarrow> view \<Rightarrow> bool" where
  "writing V0 d os V \<longleftrightarrow> view_written V0 d V \<and> (\<forall>p ko. map_of (entries os) p = Some ko \<longrightarrow> entry_written V0 d V ko)"

lemma writing_set_kobject:
  assumes "writing V0 d os V" "view_written V0 d V'" "\<And>key. stored_in V d key \<Longrightarrow> stored_in V' d key"
    and "map_of (entries os) p = Some ko" "stored_in V' d (obj_key ko)" "object_kind ob = Kind (obj_key ko)" "object_name ob = key_Name (obj_key ko)"
  shows "writing V0 d (set_kobject p ob os) V'"
proof -
  have "entry_written V0 d V' k" if "map_of (entries os) q = Some k" for q k
    using assms(1,3) that unfolding writing_def entry_written_def by blast
  moreover have "entry_written V0 d V' (ko\<lparr>kobject := Some ob\<rparr>)"
    using assms(1,4-7) by (auto simp: writing_def entry_written_def)
  ultimately show ?thesis using assms(2,4) by (auto simp: writing_def map_of_set_kobject split: if_splits)
qed

text \<open>Writing one object.\<close>

lemma view_written_put:
  assumes "view_written V0 d V" "holds d key ob"
    and V': "\<And>k n. V' k n = (if k = Kind key \<and> n = key_Name key then Some ob else V k n)"
    and hooks: "Kind key \<noteq> secretType \<Longrightarrow> \<exists>cur. V (Kind key) (key_Name key) = Some cur \<and> hooks_of cur = hooks_of ob"
  shows "view_written V0 d V'" "stored_in V' d key" "\<And>key'. stored_in V d key' \<Longrightarrow> stored_in V' d key'"
proof -
  have eq: "Kind key' = Kind key \<and> key_Name key' = key_Name key \<longleftrightarrow> key' = key" for key' :: objectKey by auto
  show st: "stored_in V' d key" using assms(2) by (simp add: stored_in_def V')
  show keep: "stored_in V' d key'" if "stored_in V d key'" for key'
    using that st by (cases "key' = key") (simp_all add: stored_in_def V' eq)
  have "V' (Kind key') (key_Name key') = V0 (Kind key') (key_Name key') \<or> stored_in V' d key'" for key'
    using assms(1) keep st by (cases "key' = key") (auto simp: view_written_def V' eq)
  moreover have "rel_option (\<lambda>a b. hooks_of a = hooks_of b) (V0 k n) (V' k n)" if "k \<noteq> secretType" for k n
  proof (cases "k = Kind key \<and> n = key_Name key")
    case True
    with hooks that obtain cur where cur: "V k n = Some cur" "hooks_of cur = hooks_of ob" by auto
    moreover have "rel_option (\<lambda>a b. hooks_of a = hooks_of b) (V0 k n) (V k n)" using assms(1) that by (simp add: view_written_def)
    ultimately show ?thesis using True by (auto simp: V' option_rel_Some2)
  next
    case False
    have "rel_option (\<lambda>a b. hooks_of a = hooks_of b) (V0 k n) (V k n)" using assms(1) that by (simp add: view_written_def)
    moreover have "V' k n = V k n" using False V' by auto
    ultimately show ?thesis by simp
  qed
  ultimately show "view_written V0 d V'" by (simp add: view_written_def)
qed

context kube_cluster
begin

lemma writeObjectFromChain_writing:
  assumes w: "writing V0 d os (view s)" and "writeObjectFromChain cl d p os s = (Ok (), os', s')"
    and ko: "map_of (entries os) p = Some ko"
  shows "writing V0 d os' (view s') \<and> stored_in (view s') d (obj_key ko)
    \<and> (\<forall>key. stored_in (view s) d key \<longrightarrow> stored_in (view s') d key) \<and> (\<exists>ob. os' = set_kobject p ob os)"
proof -
  let ?key = "obj_key ko"
  have e: "entry_written V0 d (view s) ko" and vw: "view_written V0 d (view s)" using w ko by (auto simp: writing_def)
  then obtain old where old: "kobject ko = Some old" "object_kind old = Kind ?key" "object_name old = key_Name ?key"
    "found V0 ?key old \<or> stored_in (view s) d ?key" and cov: "covered d ?key" by (auto simp: entry_written_def)
  obtain g current s1 where g: "get cl (key_Name ?key) old s = (g, current, s1)" by (metis prod_cases3)
  note get = get_view_kept [OF g, unfolded old(2)]
  have kind: "object_kind current = Kind ?key" using get_kind_kept [OF g] old(2) by simp
  have name: "object_name current = key_Name ?key"
    using get(2,3) view_key [of s "Kind ?key" "key_Name ?key" current] old(3) by (cases "g = Ok ()") auto
  have same: "stored_in (view s) d ?key \<or> view s (Kind ?key) (key_Name ?key) = V0 (Kind ?key) (key_Name ?key) \<and> found V0 ?key old"
    using vw old(4) by (auto simp: view_written_def)
  show ?thesis
    using assms(2) ko old(1) g
  proof (cases rule: writeObjectFromChain_cases)
    case not_read
    then show ?thesis by (auto simp: IsNotFound_def)
  next
    case (noop ops ob)
    note ob = fromChainMapper_holds [OF noop(2,3) kind cov]
    have st: "stored_in (view s) d ?key"
    proof (rule ccontr)
      assume n: "\<not> ?thesis"
      with same have V: "view s (Kind ?key) (key_Name ?key) = V0 (Kind ?key) (key_Name ?key)" and f: "found V0 ?key old" by auto
      have old_holds: "holds d ?key old" by (rule DeepEqual_holds [OF noop(4) ob(1)])
      show False
      proof (cases "V0 (Kind ?key) (key_Name ?key)")
        case None
        with f have "Kind ?key = secretType" "old = initSecret (Name (key_Name ?key)) (Namespace (key_Name ?key))"
          by (auto simp: found_def)
        with old_holds show False by (simp add: holds_def holds_secret_def initSecret_def)
      next
        case (Some x)
        with f have "x = old" by (auto simp: found_def)
        with Some V old_holds n show False by (simp add: stored_in_def)
      qed
    qed
    with writing_set_kobject [OF w vw _ ko st ob(2)] ob(3) name noop(6,7) get(1) show ?thesis by auto
  next
    case (written ops ob er)
    note ob = fromChainMapper_holds [OF written(2,3) kind cov]
    from written(7) have er: "er = None" by (cases er) auto
    obtain r where "\<forall>k n. view s' k n = (if k = object_kind ob \<and> n = object_name ob then Some (with_rest r ob) else view s1 k n)"
      using written(6) er create_ok [of ob s1 s'] update_ok [of ob s1 s'] by (cases "IsNotFound g") auto
    then have V': "view s' k n = (if k = Kind ?key \<and> n = key_Name ?key then Some (with_rest r ob) else view s k n)" for k n
      using ob(2,3) name get(1) by simp
    have hooks: "\<exists>cur. view s (Kind ?key) (key_Name ?key) = Some cur \<and> hooks_of cur = hooks_of (with_rest r ob)" if k: "Kind ?key \<noteq> secretType"
    proof (cases "g = Ok ()")
      case True
      with get(2) ob(4) k show ?thesis by auto
    next
      case False
      with written(1) get(4) have none: "view s (Kind ?key) (key_Name ?key) = None" by simp
      with same k have "V0 (Kind ?key) (key_Name ?key) = None \<and> found V0 ?key old" by (auto simp: stored_in_def)
      with k show ?thesis by (auto simp: found_def)
    qed
    have "holds d ?key (with_rest r ob)" using ob(1) by simp
    note put = view_written_put [OF vw this V' hooks]
    from writing_set_kobject [OF w put(1,3) ko put(2) ob(2)] ob(3) name written(8) put(2,3) show ?thesis by auto
  qed auto
qed

lemma writeObjectsFromChain_writing:
  "writeObjectsFromChain cl d ps os s = (Ok (), os', s') \<Longrightarrow> writing V0 d os (view s) \<Longrightarrow>
   view_written V0 d (view s') \<and> (\<forall>key. stored_in (view s) d key \<longrightarrow> stored_in (view s') d key)
   \<and> (\<forall>p \<in> set ps. \<forall>ko. map_of (entries os) p = Some ko \<longrightarrow> stored_in (view s') d (obj_key ko))"
proof (induction ps arbitrary: os s)
  case Nil
  then show ?case by (simp add: writing_def)
next
  case (Cons p ps)
  obtain r os1 s1 where one: "writeObjectFromChain cl d p os s = (r, os1, s1)" by (metis prod_cases3)
  with Cons.prems(1) have r: "r = Ok ()" and rest: "writeObjectsFromChain cl d ps os1 s1 = (Ok (), os', s')" by (cases r; simp)+
  from one r obtain ko where ko: "map_of (entries os) p = Some ko"
    by (cases "map_of (entries os) p") (auto simp: writeObjectFromChain_def)
  from writeObjectFromChain_writing [OF Cons.prems(2) one [unfolded r] ko] obtain ob where
    st: "writing V0 d os1 (view s1)" "stored_in (view s1) d (obj_key ko)" "\<And>key. stored_in (view s) d key \<Longrightarrow> stored_in (view s1) d key"
    and os1: "os1 = set_kobject p ob os" by blast
  note IH = Cons.IH [OF rest st(1)]
  have "stored_in (view s') d (obj_key k)" if "q \<in> set (p # ps)" "map_of (entries os) q = Some k" for q k
  proof (cases "q = p")
    case True
    with that ko st(2) IH show ?thesis by simp
  next
    case False
    with that os1 have "q \<in> set ps" "map_of (entries os1) q = Some k" by (simp_all add: map_of_set_kobject)
    with IH show ?thesis by blast
  qed
  with IH st(3) show ?case by blast
qed

end

end
