(* ===== verification/Cluster_Lifecycle.thy ===== *)
theory Cluster_Lifecycle
  imports Cluster_Write Chain_Lifecycle
begin

text \<open>
  Reconciling a cluster that nobody else changes: what is read back after a reconciliation is the
  data it wrote, so that the cluster goes through the life cycle of chain data.
\<close>

section \<open>Reading back\<close>

text \<open>Data with the same services and bundles as other data, as an update leaves it.\<close>

definition updated_from :: "CertificateChainData \<Rightarrow> CertificateChainData \<Rightarrow> bool" where
  "updated_from d1 d \<longleftrightarrow> CA_Name (Chain_CA d) = CA_Name (Chain_CA d1)
     \<and> (\<forall>n. rel_option (\<lambda>a b. Issue_Name b = Issue_Name a \<and> IPs b = IPs a \<and> Hostnames b = Hostnames a
          \<and> fst ` set (CACertPEM b) = fst ` set (CACertPEM a))
          (map_of (CertificatesIssued d1) n) (map_of (CertificatesIssued d) n))"

lemma gomap_rel_map_of: "gomap_rel R m m' \<Longrightarrow> rel_option R (map_of m k) (map_of m' k)"
  unfolding gomap_rel_def by (induction rule: list_all2_induct) auto

lemma Update_updated_from:
  assumes "Update lib options d1 e = (Ok t, d, e')"
  shows "updated_from d1 d"
proof -
  from assms obtain ch' where up: "update lib \<lparr>chain_Options = withDefaults options, chain_data = decode_data lib d1\<rparr> e = (Ok t, ch', e')"
    "d = chain_data ch'" by (auto simp: Update_Ok)
  have same: "same_services \<lparr>chain_Options = withDefaults options, chain_data = decode_data lib d1\<rparr> ch'"
    using update_same [OF decode_same_names [of "withDefaults options" lib d1], of lib e] up(1) by simp
  have rel: "rel_option same_service (map_of (map_values (decode_issue lib) (CertificatesIssued d1)) n) (map_of (CertificatesIssued d) n)" for n
    by (rule gomap_rel_map_of) (use same up(2) in \<open>simp add: same_services_def decode_data_def\<close>)
  have "rel_option (\<lambda>a b. Issue_Name b = Issue_Name a \<and> IPs b = IPs a \<and> Hostnames b = Hostnames a
      \<and> fst ` set (CACertPEM b) = fst ` set (CACertPEM a)) (map_of (CertificatesIssued d1) n) (map_of (CertificatesIssued d) n)" for n
  proof (cases "map_of (CertificatesIssued d1) n")
    case None
    with rel [of n] show ?thesis by simp
  next
    case (Some a)
    with rel [of n] obtain b where b: "map_of (CertificatesIssued d) n = Some b" "same_service (decode_issue lib a) b"
      by (auto simp: option_rel_Some1)
    from b(2) have "map fst (CACertPEM b) = map fst (CACertPEM a)" by (simp add: same_service_def)
    then have "fst ` set (CACertPEM b) = fst ` set (CACertPEM a)" by (metis set_map)
    with b Some show ?thesis by (simp add: same_service_def)
  qed
  moreover have "CA_Name (Chain_CA d) = CA_Name (Chain_CA d1)"
    using same up(2) by (simp add: same_services_def decode_data_def decode_ca_def split: prod.splits)
  ultimately show ?thesis by (simp add: updated_from_def)
qed

lemma hook_refs_transfer:
  assumes "\<And>w. w \<in> set (webhooks m) \<Longrightarrow> rel_option (\<lambda>a b. hooks_of a = hooks_of b)
      (V (Kind (config_key w)) (key_Name (config_key w))) (V' (Kind (config_key w)) (key_Name (config_key w)))"
    and r: "(key, n, svc, b) \<in> hook_refs m V"
  shows "\<exists>b'. (key, n, svc, b') \<in> hook_refs m V'"
proof -
  from hook_refs_key [OF r] obtain w where w: "w \<in> set (webhooks m)" "key = config_key w" "(key, n, svc, b) \<in> key_refs V key" by blast
  from w(3) obtain ob where ob: "V (Kind key) (key_Name key) = Some ob" "(key, n, svc, b) \<in> object_refs key ob"
    by (auto simp: key_refs_def split: option.splits)
  from assms(1) [OF w(1)] ob(1) obtain ob' where ob': "V' (Kind key) (key_Name key) = Some ob'" "hooks_of ob = hooks_of ob'"
    by (auto simp: option_rel_Some1 w(2))
  from hooks_of_refs [OF ob'(2) ob(2)] obtain b' where "(key, n, svc, b') \<in> key_refs V' key" using ob'(1) by (auto simp: key_refs_def)
  with w(1,2) show ?thesis unfolding hook_refs_def by blast
qed

lemma written_refs:
  assumes "view_written V d V'" "typed_references m"
  shows "(key, n, svc, b) \<in> hook_refs m V \<Longrightarrow> \<exists>b'. (key, n, svc, b') \<in> hook_refs m V'"
    and "(key, n, svc, b) \<in> hook_refs m V' \<Longrightarrow> \<exists>b'. (key, n, svc, b') \<in> hook_refs m V"
proof -
  have rel: "rel_option (\<lambda>a b. hooks_of a = hooks_of b) (V (Kind (config_key w)) (key_Name (config_key w)))
      (V' (Kind (config_key w)) (key_Name (config_key w)))" if "w \<in> set (webhooks m)" for w
    using assms(1) typed_reference_kind [OF assms(2) that] by (simp add: view_written_def config_key_def newObjectKey_def)
  then show "(key, n, svc, b) \<in> hook_refs m V \<Longrightarrow> \<exists>b'. (key, n, svc, b') \<in> hook_refs m V'" by (rule hook_refs_transfer)
  have "rel_option (\<lambda>a b. hooks_of a = hooks_of b) (V' (Kind (config_key w)) (key_Name (config_key w)))
      (V (Kind (config_key w)) (key_Name (config_key w)))" if "w \<in> set (webhooks m)" for w
    using rel [OF that] by (cases rule: option.rel_cases) auto
  then show "(key, n, svc, b) \<in> hook_refs m V' \<Longrightarrow> \<exists>b'. (key, n, svc, b') \<in> hook_refs m V" by (rule hook_refs_transfer)
qed

lemma written_named_apart:
  assumes "view_written V d V'" "typed_references m" "named_apart m V"
  shows "named_apart m V'"
proof -
  have r: "\<exists>b'. (key, n, svc, b') \<in> hook_refs m V" if "(key, n, svc, b) \<in> hook_refs m V'" for key n svc b
    using written_refs(2) [OF assms(1,2) that] .
  have one: "CHR ''.'' \<notin> set (Service_Name svc) \<and> NamespacedName_String (key_Name (secret_key svc)) \<noteq> NamespacedName_String (secretCAName m)"
    if "(key, n, svc, b) \<in> hook_refs m V'" for key n svc b
    using r [OF that] assms(3) unfolding named_apart_def by fast
  have two: "key = key' \<and> n = n'"
    if "(key, n, svc, b) \<in> hook_refs m V'" "(key', n', svc', b') \<in> hook_refs m V'" "host_of svc = host_of svc'"
      "caBundleName (objectKey_String key) n = caBundleName (objectKey_String key') n'" for key n svc b key' n' svc' b'
    using r [OF that(1)] r [OF that(2)] that(3,4) assms(3) unfolding named_apart_def by fast
  show ?thesis unfolding named_apart_def using one two by blast
qed

text \<open>One issued certificate that is read back.\<close>

definition written_back :: "Manager \<Rightarrow> view \<Rightarrow> objectMap \<Rightarrow> CertificateChainData \<Rightarrow> CertificateChainData \<Rightarrow> view \<Rightarrow> bool" where
  "written_back m V os d1 d V' \<longleftrightarrow> snapshot m V d1 \<and> objects_read m V os \<and> updated_from d1 d \<and> full_data d
     \<and> named_apart m V \<and> typed_references m \<and> view_written V d V'
     \<and> (\<forall>key. has_entry os key \<longrightarrow> stored_in V' d key)"

lemma secret_pair_holds:
  assumes "stored_in V d key" "Kind key = secretType"
  obtains s where "V secretType (key_Name key) = Some (SecretObject s)" "holds_secret d key s"
    "\<And>k c. secret_pair k c V (key_Name key) = pair_of k c s"
proof -
  from assms obtain s where s: "V secretType (key_Name key) = Some (SecretObject s)" "holds_secret d key s"
    by (auto simp: stored_in_def holds_def)
  then have "secret_pair k c V (key_Name key) = pair_of k c s" for k c by (simp add: secret_pair_def)
  with s that show ?thesis by blast
qed

lemma written_back_ca:
  assumes "written_back m V os d1 d V'"
  shows "ca_pair V' m = ca_at d" "CA_Name (Chain_CA d) = NamespacedName_String (secretCAName m)"
proof -
  show name: "CA_Name (Chain_CA d) = NamespacedName_String (secretCAName m)"
    using assms by (simp add: written_back_def updated_from_def snapshot_def sound_def)
  have "stored_in V' d (ca_key m)" using assms by (simp add: written_back_def objects_read_def)
  then obtain s where s: "holds_secret d (ca_key m) s"
    "\<And>k c. secret_pair k c V' (key_Name (ca_key m)) = pair_of k c s" by (rule secret_pair_holds) simp_all
  have "ca_at d = (secret_value CAPrivateKeyKey s, secret_value CACertKey s)" using s(1) name by (simp add: holds_secret_def)
  moreover have "CA_KeyPEM (Chain_CA d) \<noteq> None" "CA_CertPEM (Chain_CA d) \<noteq> None" using assms by (simp_all add: written_back_def full_data_def)
  ultimately show "ca_pair V' m = ca_at d" using s(2) [of CAPrivateKeyKey CACertKey] by (auto simp: ca_pair_def pair_of_def ca_at_def)
qed

lemma written_back_pair:
  assumes "written_back m V os d1 d V'" and r: "(key, n, svc, b) \<in> hook_refs m V"
  shows "pair_at d (host_of svc) = Some (tls_pair V' svc)"
proof -
  have "stored_in V' d (secret_key svc)" using assms unfolding written_back_def objects_read_def by blast
  then obtain s where s: "holds_secret d (secret_key svc) s"
    "\<And>k c. secret_pair k c V' (key_Name (secret_key svc)) = pair_of k c s" by (rule secret_pair_holds) simp_all
  have "NamespacedName_String (key_Name (secret_key svc)) \<noteq> CA_Name (Chain_CA d)"
    unfolding written_back_ca(2) [OF assms(1)] using assms unfolding written_back_def named_apart_def by blast
  moreover have "key_host (secret_key svc) = host_of svc" by (simp add: key_host_def secret_key_def newObjectKey_def host_of_def)
  ultimately have at: "pair_at d (host_of svc) = Some (secret_value TLSPrivateKeyKey s, secret_value TLSCertKey s)"
    using s(1) by (simp add: holds_secret_def)
  then obtain ci where ci: "(host_of svc, ci) \<in> set (CertificatesIssued d)"
    "KeyPEM ci = secret_value TLSPrivateKeyKey s" "CertPEM ci = secret_value TLSCertKey s"
    by (auto simp: pair_at_def dest: map_of_SomeD)
  have "full_data d" using assms(1) by (simp add: written_back_def)
  with ci(1) have "KeyPEM ci \<noteq> None" "CertPEM ci \<noteq> None" unfolding full_data_def by blast+
  then show ?thesis using at ci(2,3) s(2) [of TLSPrivateKeyKey TLSCertKey] by (auto simp: tls_pair_def pair_of_def)
qed

text \<open>A CA bundle that is read back is the one that was written.\<close>

lemma written_back_bundle:
  assumes "written_back m V os d1 d V'" and r: "(key, n, svc, b) \<in> hook_refs m V'"
  shows "bundle_at d (host_of svc) (caBundleName (objectKey_String key) n) = Some b"
proof -
  let ?h = "host_of svc" and ?k = "caBundleName (objectKey_String key) n"
  have wb: "snapshot m V d1" "objects_read m V os" "updated_from d1 d" "full_data d" "typed_references m" "view_written V d V'"
    using assms(1) by (simp_all add: written_back_def)
  obtain b1 where b1: "(key, n, svc, b1) \<in> hook_refs m V" using written_refs(2) [OF wb(6,5) r] by blast
  then have "ref_read d1 (key, n, svc, b1)" using wb(1) unfolding snapshot_def by blast
  then obtain ci1 where ci1: "map_of (CertificatesIssued d1) ?h = Some ci1" "(?k, b1) \<in> set (CACertPEM ci1)"
    by (auto simp: ref_read_def bundle_at_def split: option.splits dest: map_of_SomeD)
  from wb(3) ci1(1) obtain ci where ci: "map_of (CertificatesIssued d) ?h = Some ci" "fst ` set (CACertPEM ci) = fst ` set (CACertPEM ci1)"
    by (auto simp: updated_from_def option_rel_Some1 dest!: spec [of _ ?h])
  have "?k \<in> fst ` set (CACertPEM ci)" unfolding ci(2) using ci1(2) by force
  then obtain x where x: "map_of (CACertPEM ci) ?k = Some x" by (metis map_of_eq_None_iff not_Some_eq)
  have "x \<noteq> None" using wb(4) ci(1) x by (fastforce simp: full_data_def dest!: map_of_SomeD)
  then obtain c where c: "bundle_at d ?h ?k = Some (Some c)" using ci(1) x by (auto simp: bundle_at_def)
  have "has_entry os key" using wb(2) b1 unfolding objects_read_def by blast
  then have st: "stored_in V' d key" using assms(1) by (simp add: written_back_def)
  from hook_refs_key [OF r] obtain w where w: "w \<in> set (webhooks m)" "key = config_key w" "(key, n, svc, b) \<in> key_refs V' key" by blast
  have "Kind key \<noteq> secretType" using typed_reference_kind [OF wb(5) w(1)] by (simp add: w(2) config_key_def newObjectKey_def)
  moreover obtain ob where "V' (Kind key) (key_Name key) = Some ob" "(key, n, svc, b) \<in> object_refs key ob" "holds d key ob"
    using st w(3) by (auto simp: stored_in_def key_refs_def)
  ultimately have "b = Some c" using c unfolding holds_def by auto
  with c show ?thesis by simp
qed

lemma written_back_issue:
  assumes "written_back m V os d1 d V'" "snapshot m V' d2"
    and ci: "map_of (CertificatesIssued d) h = Some ci"
  shows "\<exists>ci2. map_of (CertificatesIssued d2) h = Some ci2 \<and> same_issue ci2 ci"
proof -
  have wb: "snapshot m V d1" "updated_from d1 d" "named_apart m V" "typed_references m" "view_written V d V'"
    using assms(1) by (simp_all add: written_back_def)
  have apart: "named_apart m V'" by (rule written_named_apart [OF wb(5,4,3)])
  from wb(2) ci obtain ci1 where ci1: "map_of (CertificatesIssued d1) h = Some ci1" "Issue_Name ci = Issue_Name ci1" "IPs ci = IPs ci1"
    "Hostnames ci = Hostnames ci1" "fst ` set (CACertPEM ci) = fst ` set (CACertPEM ci1)"
    by (auto simp: updated_from_def option_rel_Some2 dest!: spec [of _ h])
  have "sound_issue m V h ci1" using wb(1) ci1(1) by (simp add: snapshot_def sound_def)
  then obtain key n svc b where r: "(key, n, svc, b) \<in> hook_refs m V" "h = host_of svc"
    "issue_for (Service_Name svc) (Service_Namespace svc) ci1"
    and bundles1: "\<And>k b. map_of (CACertPEM ci1) k = Some b \<Longrightarrow>
      \<exists>(key, n, svc, b') \<in> hook_refs m V. h = host_of svc \<and> k = caBundleName (objectKey_String key) n \<and> b = b'"
    unfolding sound_issue_def by blast
  obtain b' where r': "(key, n, svc, b') \<in> hook_refs m V'" using written_refs(1) [OF wb(5,4) r(1)] by blast
  then have "ref_read d2 (key, n, svc, b')" "pair_at d2 h = Some (tls_pair V' svc)" using assms(2) r(2) unfolding snapshot_def by blast+
  then obtain ci2 where ci2: "map_of (CertificatesIssued d2) h = Some ci2" "(KeyPEM ci2, CertPEM ci2) = tls_pair V' svc"
    by (auto simp: pair_at_def)
  have "sound_issue m V' h ci2" using assms(2) ci2(1) by (simp add: snapshot_def sound_def)
  then obtain key2 n2 svc2 b2 where r2: "(key2, n2, svc2, b2) \<in> hook_refs m V'" "h = host_of svc2"
    "issue_for (Service_Name svc2) (Service_Namespace svc2) ci2"
    and bundles2: "\<And>k b. map_of (CACertPEM ci2) k = Some b \<Longrightarrow>
      \<exists>(key, n, svc, b') \<in> hook_refs m V'. h = host_of svc \<and> k = caBundleName (objectKey_String key) n \<and> b = b'"
    unfolding sound_issue_def by blast
  have "Service_Name svc2 = Service_Name svc" "Service_Namespace svc2 = Service_Namespace svc"
    using host_of_inject(1,2) [OF apart r2(1) r'] r(2) r2(2) by simp_all
  with r(3) r2(3) ci1 have names: "Issue_Name ci2 = Issue_Name ci" "IPs ci2 = IPs ci" "Hostnames ci2 = Hostnames ci"
    by (simp_all add: issue_for_def)
  have pair: "(KeyPEM ci2, CertPEM ci2) = (KeyPEM ci, CertPEM ci)"
    using written_back_pair [OF assms(1) r(1)] ci ci2(2) r(2) by (simp add: pair_at_def)
  have fwd: "map_of (CACertPEM ci) k = Some b" if b: "map_of (CACertPEM ci2) k = Some b" for k b
  proof -
    from bundles2 [OF b] obtain key n svc where "(key, n, svc, b) \<in> hook_refs m V'" "h = host_of svc" "k = caBundleName (objectKey_String key) n"
      by blast
    with written_back_bundle [OF assms(1) this(1)] ci show ?thesis by (simp add: bundle_at_def)
  qed
  have "map_of (CACertPEM ci2) k \<noteq> None" if b: "map_of (CACertPEM ci) k \<noteq> None" for k
  proof -
    have "k \<in> fst ` set (CACertPEM ci1)" using b ci1(5) by (metis map_of_eq_None_iff)
    then obtain b1 where "map_of (CACertPEM ci1) k = Some b1" by (metis map_of_eq_None_iff not_Some_eq)
    from bundles1 [OF this] obtain key n svc b where q: "(key, n, svc, b) \<in> hook_refs m V" "h = host_of svc" "k = caBundleName (objectKey_String key) n"
      by blast
    obtain b' where "(key, n, svc, b') \<in> hook_refs m V'" using written_refs(1) [OF wb(5,4) q(1)] by blast
    then have "ref_read d2 (key, n, svc, b')" using assms(2) unfolding snapshot_def by blast
    with q ci2(1) show ?thesis by (simp add: ref_read_def bundle_at_def)
  qed
  with fwd have "map_of (CACertPEM ci2) = map_of (CACertPEM ci)" by (intro ext) (metis not_None_eq)
  with names pair ci2(1) show ?thesis by (auto simp: same_issue_def)
qed

lemma written_back_same:
  assumes wb: "written_back m V os d1 d V'" "snapshot m V' d2" and "well_read d2"
  shows "same_data d2 d"
proof -
  have "rel_option same_issue (map_of (CertificatesIssued d2) h) (map_of (CertificatesIssued d) h)" for h
  proof (cases "map_of (CertificatesIssued d) h")
    case None
    have "map_of (CertificatesIssued d2) h = None"
    proof (rule ccontr)
      assume "map_of (CertificatesIssued d2) h \<noteq> None"
      then obtain ci2 where "map_of (CertificatesIssued d2) h = Some ci2" by blast
      then have "sound_issue m V' h ci2" using wb(2) by (simp add: snapshot_def sound_def)
      then obtain key n svc b where r: "(key, n, svc, b) \<in> hook_refs m V'" "h = host_of svc" unfolding sound_issue_def by blast
      from written_back_bundle [OF wb(1) r(1)] r(2) None show False by (simp add: bundle_at_def)
    qed
    with None show ?thesis by simp
  next
    case (Some ci)
    from written_back_issue [OF wb Some] Some show ?thesis by auto
  qed
  moreover have "distinct_keys d2" "distinct_bundles d2"
    using assms(3) by (fastforce simp: well_read_def distinct_keys_def distinct_bundles_def issue_for_def)+
  moreover have "CA_Name (Chain_CA d2) = CA_Name (Chain_CA d)"
    using wb(2) written_back_ca(2) [OF wb(1)] by (simp add: snapshot_def sound_def)
  moreover have "ca_at d2 = ca_at d" using wb(2) written_back_ca(1) [OF wb(1)] by (simp add: snapshot_def)
  ultimately show ?thesis by (simp add: same_data_def ca_at_def)
qed

section \<open>Reconciling\<close>

lemma verifying_irrelevant [simp]:
  "secretCAName (m\<lparr>verifying := v\<rparr>) = secretCAName m" "hook_refs (m\<lparr>verifying := v\<rparr>) V = hook_refs m V"
  "named_apart (m\<lparr>verifying := v\<rparr>) V = named_apart m V" "typed_references (m\<lparr>verifying := v\<rparr>) = typed_references m"
proof -
  show ca: "secretCAName (m\<lparr>verifying := v\<rparr>) = secretCAName m" by (simp add: secretCAName_def)
  show h: "hook_refs (m\<lparr>verifying := v\<rparr>) V = hook_refs m V" by (simp add: hook_refs_def)
  show "named_apart (m\<lparr>verifying := v\<rparr>) V = named_apart m V" unfolding named_apart_def h ca ..
  show "typed_references (m\<lparr>verifying := v\<rparr>) = typed_references m" by (simp add: typed_references_def)
qed

lemma snapshot_verifying [simp]: "snapshot (m\<lparr>verifying := v\<rparr>) V d = snapshot m V d"
  unfolding snapshot_def sound_def sound_issue_def ca_pair_def verifying_irrelevant ..

lemma writing_start:
  assumes "snapshot m V d1" "objects_read m V os" "updated_from d1 d"
  shows "writing V d os V"
proof -
  have "covered d (obj_key ko)" if ko: "map_of (entries os) p = Some ko" for p ko
  proof (cases "Kind (obj_key ko) = secretType \<and> NamespacedName_String (key_Name (obj_key ko)) \<noteq> CA_Name (Chain_CA d)")
    case True
    moreover have "CA_Name (Chain_CA d) = NamespacedName_String (secretCAName m)"
      using assms(1,3) by (simp add: updated_from_def snapshot_def sound_def)
    ultimately have "obj_key ko \<noteq> ca_key m" by auto
    with assms(2) ko True obtain key n svc b where r: "(key, n, svc, b) \<in> hook_refs m V" "obj_key ko = secret_key svc"
      unfolding objects_read_def by blast
    then have "pair_at d1 (host_of svc) \<noteq> None" using assms(1) unfolding snapshot_def by fastforce
    moreover have "key_host (obj_key ko) = host_of svc" using r(2) by (simp add: key_host_def secret_key_def newObjectKey_def host_of_def)
    moreover have "rel_option (\<lambda>a b. True) (map_of (CertificatesIssued d1) h) (map_of (CertificatesIssued d) h)" for h
      using assms(3) by (auto simp: updated_from_def elim!: option.rel_mono_strong [OF spec [of _ h]])
    ultimately have "pair_at d (key_host (obj_key ko)) \<noteq> None" by (auto simp: pair_at_def option_rel_Some1 dest: meta_spec [of _ "host_of svc"])
    then show ?thesis by (simp add: covered_def)
  next
    case False
    then show ?thesis unfolding covered_def by blast
  qed
  then have "entry_written V d V ko" if "map_of (entries os) p = Some ko" for p ko
    using that assms(2) unfolding entry_written_def objects_read_def found_def by blast
  moreover have "view_written V d V" by (simp add: view_written_def option.rel_refl)
  ultimately show ?thesis by (simp add: writing_def)
qed

text \<open>The order of a loop over a map visits everything.\<close>

definition visits_all :: "map_order \<Rightarrow> bool" where
  "visits_all ord = (\<forall>ps. set ps \<subseteq> set (write_order ord ps))"

context kube_cluster
begin

lemma reconcile_written_back:
  assumes "reconcileCertificates lib cl ord m s e = (Ok dur, s', e')" "named_apart m (view s)" "typed_references m" "visits_all ord"
  obtains st t d e1 where "readCertificateChain m cl (next_read ord) (initial_read s) = (Ok (), st)"
    "snapshot m (view s) (rs_chain st)" "well_read (rs_chain st)"
    "Update lib (manager_options m) (rs_chain st) e = (Ok t, d, e1)" "dur = Sub t (clock_at lib e1)" "e' = tick e1"
    "full_data d \<Longrightarrow> written_back m (view s) (rs_objects st) (rs_chain st) d (view s')"
proof -
  from assms(1) obtain st t d e1 os where rd: "readCertificateChain m cl (next_read ord) (initial_read s) = (Ok (), st)"
    and up: "Update lib (manager_options m) (rs_chain st) e = (Ok t, d, e1)"
    and wr: "writeCertificateChain cl (write_order ord) (rs_objects st) d (rs_cluster st) = (Ok (), os, s')"
    and e': "dur = Sub t (clock_at lib e1)" "e' = tick e1"
    by (auto simp: reconcileCertificates_def split: prod.splits result.splits)
  have run: "read_run m cl (start_state m s) (Ok ()) st"
    using rd by (intro readObjectsToChain_run) (simp add: readCertificateChain_start)
  note snap = read_snapshot [OF run assms(2,3)]
  have well: "well_read (rs_chain st)" by (rule read_run_well_read [OF run well_read_start])
  have "writing (view s) d (rs_objects st) (view (rs_cluster st))"
    unfolding snap(3) by (rule writing_start [OF snap(1,2) Update_updated_from [OF up]])
  from writeObjectsFromChain_writing [OF wr [unfolded writeCertificateChain_def] this]
  have vw: "view_written (view s) d (view s')" and st: "\<And>p ko. p \<in> set (write_order ord (map fst (entries (rs_objects st)))) \<Longrightarrow>
      map_of (entries (rs_objects st)) p = Some ko \<Longrightarrow> stored_in (view s') d (obj_key ko)" by blast+
  have "stored_in (view s') d key" if "has_entry (rs_objects st) key" for key
  proof -
    from that obtain p ko where p: "map_of (entries (rs_objects st)) p = Some ko" "obj_key ko = key" by (auto simp: has_entry_def)
    then have "p \<in> set (map fst (entries (rs_objects st)))" by (force dest: map_of_SomeD)
    with assms(4) have "p \<in> set (write_order ord (map fst (entries (rs_objects st))))" unfolding visits_all_def by blast
    from st [OF this p(1)] p(2) show ?thesis by simp
  qed
  with vw snap(1,2) assms(2,3) Update_updated_from [OF up]
  have "full_data d \<Longrightarrow> written_back m (view s) (rs_objects st) (rs_chain st) d (view s')" by (simp add: written_back_def)
  with that rd snap(1) well up e' show ?thesis by blast
qed

end

section \<open>Clusters under management\<close>

text \<open>The last time that was read from the clock.\<close>

definition last_reading :: "go_lib \<Rightarrow> env \<Rightarrow> time" where
  "last_reading lib e = lib_now lib (ticks e - 1)"

lemma last_reading_tick [simp]: "last_reading lib (tick e) = clock_at lib e"
  by (simp add: last_reading_def clock_at_def)

definition hosts_ok :: "go_lib \<Rightarrow> Manager \<Rightarrow> view \<Rightarrow> bool" where
  "hosts_ok lib m V = (\<forall>(key, n, svc, b) \<in> hook_refs m V. hostname_ok lib (Service_Name svc))"

lemma snapshot_hostnames: "snapshot m V d \<Longrightarrow> hosts_ok lib m V \<Longrightarrow> distinct_keys d \<Longrightarrow> hostnames_ok lib d"
  unfolding hostnames_ok_def
proof clarify
  fix h ci assume "snapshot m V d" "hosts_ok lib m V" "distinct_keys d" "(h, ci) \<in> set (CertificatesIssued d)"
  then have "sound_issue m V h ci" by (simp add: snapshot_def sound_def distinct_keys_def)
  then obtain key n svc b where "(key, n, svc, b) \<in> hook_refs m V" "issue_for (Service_Name svc) (Service_Namespace svc) ci"
    unfolding sound_issue_def by blast
  with \<open>hosts_ok lib m V\<close> show "Hostnames ci \<noteq> [] \<and> hostname_ok lib (hd (Hostnames ci))"
    by (auto simp: issue_for_def hosts_ok_def)
qed

lemma well_read_distinct: "well_read d \<Longrightarrow> distinct_keys d" "well_read d \<Longrightarrow> distinct_bundles d"
  by (fastforce simp: well_read_def distinct_keys_def distinct_bundles_def issue_for_def)+

text \<open>The webhook configurations that reading asks for.\<close>

definition configs_exist :: "Manager \<Rightarrow> view \<Rightarrow> bool" where
  "configs_exist m V \<longleftrightarrow> (\<forall>w \<in> set (webhooks m). V (Kind (config_key w)) (key_Name (config_key w)) \<noteq> None)"

lemma written_configs:
  assumes "view_written V d V'" "typed_references m" "configs_exist m V"
  shows "configs_exist m V'"
  unfolding configs_exist_def
proof
  fix w assume w: "w \<in> set (webhooks m)"
  let ?k = "Kind (config_key w)" and ?n = "key_Name (config_key w)"
  have "?k \<noteq> secretType" using typed_reference_kind [OF assms(2) w] by (simp add: config_key_def newObjectKey_def)
  with assms(1) have "rel_option (\<lambda>a b. hooks_of a = hooks_of b) (V ?k ?n) (V' ?k ?n)" by (simp add: view_written_def)
  moreover have "V ?k ?n \<noteq> None" using assms(3) w by (simp add: configs_exist_def)
  ultimately show "V' ?k ?n \<noteq> None" by (cases rule: option.rel_cases) auto
qed

text \<open>The secrets that reading asks for.\<close>

definition secrets_exist :: "Manager \<Rightarrow> view \<Rightarrow> bool" where
  "secrets_exist m V \<longleftrightarrow> V secretType (secretCAName m) \<noteq> None
     \<and> (\<forall>(key, n, svc, b) \<in> hook_refs m V. V secretType (key_Name (secret_key svc)) \<noteq> None)"

lemma written_back_secrets:
  assumes "written_back m V os d1 d V'"
  shows "secrets_exist m V'"
proof -
  have wb: "objects_read m V os" "typed_references m" "view_written V d V'" "\<And>key. has_entry os key \<Longrightarrow> stored_in V' d key"
    using assms by (simp_all add: written_back_def)
  have "V' secretType (key_Name key) \<noteq> None" if "has_entry os key" "Kind key = secretType" for key
    using wb(4) [OF that(1)] that(2) by (auto simp: stored_in_def)
  note sec = this
  have "V' secretType (key_Name (secret_key svc)) \<noteq> None" if r: "(key, n, svc, b) \<in> hook_refs m V'" for key n svc b
  proof -
    from written_refs(2) [OF wb(3,2) r] obtain b' where "(key, n, svc, b') \<in> hook_refs m V" by blast
    then have "has_entry os (secret_key svc)" using wb(1) unfolding objects_read_def by blast
    from sec [OF this] show ?thesis by simp
  qed
  moreover have "has_entry os (ca_key m)" using wb(1) by (simp add: objects_read_def)
  from sec [OF this] have "V' secretType (secretCAName m) \<noteq> None" by simp
  ultimately show ?thesis unfolding secrets_exist_def by blast
qed

text \<open>A cluster after a reconciliation that rotated everything and any number of further ones, with
  no other changes. \<open>dur\<close> is the time the last reconciliation asked to wait and \<open>e\<close> the environment
  it left; a reconciliation takes at most \<open>w\<close>.\<close>

inductive managed ::
  "go_lib \<Rightarrow> duration \<Rightarrow> 's kube_client \<Rightarrow> ('s \<Rightarrow> view) \<Rightarrow> Manager \<Rightarrow> 's \<Rightarrow> duration \<Rightarrow> env \<Rightarrow> bool"
  for lib w cl view m where
  first_reconciled: "named_apart m (view s0) \<Longrightarrow> hosts_ok lib m (view s0) \<Longrightarrow> configs_exist m (view s0) \<Longrightarrow>
    readCertificateChain m cl (next_read ord) (initial_read s0) = (Ok (), st) \<Longrightarrow>
    newChain lib (manager_options m) (rs_chain st) = Ok ch \<Longrightarrow> full_rotation_due lib ch e0 \<Longrightarrow> visits_all ord \<Longrightarrow>
    reconcileCertificates lib cl ord m s0 e0 = (Ok dur, s, e) \<Longrightarrow> clock_at lib e \<le> clock_at lib e0 + w \<Longrightarrow>
    managed lib w cl view m s dur e"
| reconciled: "managed lib w cl view m s dur e \<Longrightarrow> view s1 = view s \<Longrightarrow> ticks e \<le> ticks e1 \<Longrightarrow> visits_all ord \<Longrightarrow>
    reconcileCertificates lib cl ord m s1 e1 = (Ok dur', s', e') \<Longrightarrow> clock_at lib e' \<le> clock_at lib e1 + w \<Longrightarrow>
    managed lib w cl view m s' dur' e'"

lemma Verify_ticks: "Verify lib options d e = (r, d', e') \<Longrightarrow> ticks e \<le> ticks e'"
  by (auto simp: Verify_def split: result.splits prod.splits dest: verifyTLS_ticks)

text \<open>The cluster represents maintained data.\<close>

definition represents :: "go_lib \<Rightarrow> duration \<Rightarrow> Manager \<Rightarrow> view \<Rightarrow> duration \<Rightarrow> env \<Rightarrow> bool" where
  "represents lib w m V dur e \<longleftrightarrow> named_apart m V \<and> configs_exist m V \<and> secrets_exist m V \<and> (\<exists>d t e0.
     maintained lib w (manager_options m) d t e0 \<and> dur = Sub t (clock_at lib e0) \<and> e = tick e0
   \<and> (\<forall>d2. snapshot m V d2 \<longrightarrow> well_read d2 \<longrightarrow> same_data d2 d))"

lemma represents_written:
  assumes m: "maintained lib w (manager_options m) d t e1" and full: "full_data d" and c: "configs_exist m V"
    and wb: "full_data d \<Longrightarrow> written_back m V os d1 d V'"
  shows "represents lib w m V' (Sub t (clock_at lib e1)) (tick e1)"
proof -
  note wb = wb [OF full]
  have "named_apart m V'" "configs_exist m V'"
    using wb c by (auto simp: written_back_def intro: written_named_apart written_configs)
  with m written_back_same [OF wb] written_back_secrets [OF wb] show ?thesis unfolding represents_def by blast
qed

lemma maintained_full:
  assumes "x509_lib lib" "clock_ok lib" "paced w (withDefaults options)" "maintained lib w options d t e"
  shows "full_data d"
proof -
  have "own_data lib (clock_at lib e) d" using x509_lib.maintained_kept [OF assms(1,4,2,3)] by (simp add: kept_def)
  then show ?thesis by (rule own_data_full)
qed

context kube_cluster
begin

lemma managed_represents:
  assumes "managed lib w cl view m s dur e" and lib: "x509_lib lib" "clock_ok lib" "paced w (withDefaults (manager_options m))"
    and typed: "typed_references m"
  shows "represents lib w m (view s) dur e"
  using assms(1)
proof (induction rule: managed.induct)
  case (first_reconciled s0 ord st ch e0 dur s e)
  from reconcile_written_back [OF first_reconciled(8,1) typed first_reconciled(7)] obtain st' t d e1 where
    rd: "readCertificateChain m cl (next_read ord) (initial_read s0) = (Ok (), st')"
    "snapshot m (view s0) (rs_chain st')" "well_read (rs_chain st')"
    "Update lib (manager_options m) (rs_chain st') e0 = (Ok t, d, e1)" "dur = Sub t (clock_at lib e1)" "e = tick e1"
    and wb: "full_data d \<Longrightarrow> written_back m (view s0) (rs_objects st') (rs_chain st') d (view s)" by metis
  have st: "st' = st" using rd(1) first_reconciled(4) by simp
  have "clock_at lib e1 \<le> clock_at lib e" using lib(2) rd(6) by (simp add: clock_ok_def clock_at_def monoD)
  with first_reconciled(9) have "clock_at lib e1 \<le> clock_at lib e0 + w" by simp
  moreover have "hostnames_ok lib (rs_chain st)"
    using snapshot_hostnames [OF rd(2) first_reconciled(2) well_read_distinct(1) [OF rd(3)]] by (simp add: st)
  ultimately have mt: "maintained lib w (manager_options m) d t e1"
    using rotated_all [OF well_read_distinct [OF rd(3)] _ first_reconciled(5,6) [folded st] rd(4)] by (simp add: st)
  from represents_written [OF mt maintained_full [OF lib mt] first_reconciled(3) wb] rd(5,6) show ?case by simp
next
  case (reconciled s dur e s1 e1 ord dur' s' e')
  from reconciled.IH obtain d0 t0 e0 where apart: "named_apart m (view s1)" "configs_exist m (view s1)" and m0: "maintained lib w (manager_options m) d0 t0 e0"
    and e: "e = tick e0" and same: "\<And>d2. snapshot m (view s1) d2 \<Longrightarrow> well_read d2 \<Longrightarrow> same_data d2 d0"
    unfolding represents_def reconciled(2) by blast
  from reconcile_written_back [OF reconciled(5) apart(1) typed reconciled(4)] obtain st t d e2 where
    rd: "readCertificateChain m cl (next_read ord) (initial_read s1) = (Ok (), st)"
    "snapshot m (view s1) (rs_chain st)" "well_read (rs_chain st)"
    "Update lib (manager_options m) (rs_chain st) e1 = (Ok t, d, e2)" "dur' = Sub t (clock_at lib e2)" "e' = tick e2"
    and wb: "full_data d \<Longrightarrow> written_back m (view s1) (rs_objects st) (rs_chain st) d (view s')" by metis
  have "clock_at lib e2 \<le> clock_at lib e'" using lib(2) rd(6) by (simp add: clock_ok_def clock_at_def monoD)
  with reconciled(6) have le: "clock_at lib e2 \<le> clock_at lib e1 + w" by simp
  have "ticks e0 \<le> ticks e1" using reconciled(3) by (simp add: e)
  then have mt: "maintained lib w (manager_options m) d t e2" by (rule updated [OF m0 same [OF rd(2,3)] _ rd(4) le])
  from represents_written [OF mt maintained_full [OF lib mt] apart(2) wb] rd(5,6) show ?case by simp
qed

lemma managed_VerifyTLS:
  assumes "managed lib w cl view m s dur e" and lib: "x509_lib lib" "clock_ok lib" "paced w (withDefaults (manager_options m))"
    and typed: "typed_references m" and s1: "view s1 = view s" and later: "ticks e \<le> ticks e1"
    and v: "Manager_VerifyTLS lib cl ord m s1 e1 = (r, s2, e2)" and early: "clock_at lib e2 < last_reading lib e + dur"
  shows "r = Ok () \<or> (\<exists>er. r = Fail (Wrap er ''Failed reading certificate data''))"
proof -
  from managed_represents [OF assms(1-5)] obtain d t e0 where apart: "named_apart m (view s1)"
    and m: "maintained lib w (manager_options m) d t e0" and dur: "dur = Sub t (clock_at lib e0)" "e = tick e0"
    and same: "\<And>d2. snapshot m (view s1) d2 \<Longrightarrow> well_read d2 \<Longrightarrow> same_data d2 d"
    unfolding represents_def s1 by blast
  let ?m = "m\<lparr>verifying := True\<rparr>"
  obtain rr st where rd: "readCertificateChain ?m cl (next_read ord) (initial_read s1) = (rr, st)" by fastforce
  then have run: "read_run ?m cl (start_state ?m s1) rr st" by (intro readObjectsToChain_run) (simp add: readCertificateChain_start)
  have "\<not> is_Panic rr" by (rule read_run_no_panic [OF run readable_start]) (simp add: typed)
  then consider (ok) "rr = Ok ()" | (bad) er where "rr = Fail er" by (cases rr) auto
  then show ?thesis
  proof cases
    case ok
    have snap: "snapshot m (view s1) (rs_chain st)" using read_snapshot(1) [OF run [unfolded ok]] apart typed by simp
    have well: "well_read (rs_chain st)" by (rule read_run_well_read [OF run well_read_start])
    obtain vr d2 e3 where ver: "Verify lib (manager_options m) (rs_chain st) e1 = (vr, d2, e3)" by (metis prod_cases3)
    have e2: "e2 = e3" and vr: "vr = Ok () \<Longrightarrow> r = Ok ()"
      using v rd ok ver by (auto simp: Manager_VerifyTLS_def split: result.splits)
    have e0: "ticks e0 \<le> ticks e1" using later dur(2) by simp
    have ticks: "ticks e1 \<le> ticks e3" using Verify_ticks [OF ver] .
    have le: "clock_at lib e0 \<le> clock_at lib e3" using lib(2) e0 ticks by (simp add: clock_ok_def clock_at_def monoD)
    have "clock_at lib e3 < clock_at lib e0 + dur" using early e2 dur(2) by simp
    with le dur(1) have "clock_at lib e3 < t" by (auto simp: Sub_def min_duration_def max_duration_def split: if_splits)
    from x509_lib.maintained_Verify [OF lib(1) m lib(2,3) same [OF snap well] e0 ver this] vr show ?thesis by simp
  next
    case bad
    with v rd show ?thesis by (auto simp: Manager_VerifyTLS_def)
  qed
qed

end

end
