(* ===== verification/Cluster_Progress.thy ===== *)
theory Cluster_Progress
  imports Cluster_Lifecycle
begin

text \<open>
  When reconciling succeeds: with a client that works, with working cryptography, and when no two
  client configurations refer to the same service, so that no object is written twice.
\<close>

lemma toChainMapper_no_error:
  assumes "objectOperatorsMap k = Some ops"
  shows "toChainMapper ops p key ob os d \<noteq> Fail e"
  using assms
proof (cases rule: operators_kinds)
  case secret
  have "mapSecretToChain key ob d \<noteq> Fail e"
    by (auto simp: mapSecretToChain_def mapCASecretToChain_def mapServiceSecretToChain_def Let_def
        split: Object.splits option.splits if_splits)
  with secret(2) show ?thesis by (cases "mapSecretToChain key ob d") auto
qed auto

section \<open>A client that works\<close>

locale kube_live = kube_cluster cl view for cl :: "'s kube_client" and view :: "'s \<Rightarrow> view" +
  fixes ready :: "'s \<Rightarrow> bool"
  assumes ready_Get: "ready s \<Longrightarrow> client_Get cl k n s = (r, s') \<Longrightarrow> ready s' \<and> (\<forall>e. r = Inl e \<longrightarrow> (\<exists>x. e = NotFound x))"
    and ready_Create: "ready s \<Longrightarrow> view s (object_kind ob) (object_name ob) = None \<Longrightarrow> client_Create cl ob s = (er, s') \<Longrightarrow>
      er = None \<and> ready s'"
    and ready_Update: "ready s \<Longrightarrow> view s (object_kind ob) (object_name ob) \<noteq> None \<Longrightarrow> client_Update cl ob s = (er, s') \<Longrightarrow>
      er = None \<and> ready s'"
begin

lemma ready_get:
  assumes "get cl name ob s = (r, ob', s')" "ready s"
  shows "ready s' \<and> (r = Ok () \<or> IsNotFound r)"
proof -
  have "ready (snd (ob', s')) \<and> (r = Ok () \<or> IsNotFound r)"
  proof (rule PollImmediate_rule [OF assms(1) [unfolded get_def], where I = "\<lambda>st. ready (snd st)"])
    fix st r st' assume i: "ready (snd st)" and a: "get_attempt cl name st = (r, st')"
    obtain res s1 where g: "client_Get cl (object_kind (fst st)) name (snd st) = (res, s1)" by fastforce
    note g' = ready_Get [OF i g]
    show "case r of Ok b \<Rightarrow> if b then ready (snd st') \<and> (Ok () = Ok () \<or> IsNotFound (Ok ()))
        else ready (snd st') \<and> ready (snd st') \<and> (Fail ErrWaitTimeout = Ok () \<or> IsNotFound (Fail ErrWaitTimeout))
      | Fail e \<Rightarrow> ready (snd st') \<and> (Fail e = Ok () \<or> IsNotFound (Fail e))
      | Panic x \<Rightarrow> ready (snd st') \<and> (Panic x = Ok () \<or> IsNotFound (Panic x))"
      using a g g' by (cases res) (auto simp: get_attempt_def IsNotFound_def)
  qed (use assms(2) in simp)
  then show ?thesis by simp
qed

text \<open>Reading succeeds.\<close>

lemma readObjectToChain_succeeds:
  assumes "readObjectToChain m cl p st = (r, st')" "readable (rs_objects st) (rs_chain st)" "\<not> verifying m" "ready (rs_cluster st)"
  shows "r = Ok () \<and> ready (rs_cluster st')"
  using assms(1)
proof (cases rule: readObjectToChain_cases)
  case skipped
  then show ?thesis using assms(4) by simp
next
  case (no_kind ko)
  then show ?thesis using readObjectToChain_no_panic [OF assms(1,2)] by simp
next
  case (not_read ko ops ob s1)
  from ready_get [OF not_read(4) assms(4)] not_read(5) have nf: "IsNotFound r" by simp
  show ?thesis
    using assms(1,3) not_read nf
      toChainMapper_no_error [OF not_read(3), of p "obj_key ko" ob "set_kobject p ob (rs_objects st)" "rs_chain st"]
    by (auto simp: readObjectToChain_def Let_def IsNotFound_def split: result.splits error.splits prod.splits)
next
  case (mapped ko ops g ob s1 v)
  have rd: "ready s1" using ready_get [OF mapped(4) assms(4)] by simp
  have "\<not> is_Panic r" by (rule readObjectToChain_no_panic [OF assms(1,2)])
  moreover have "v \<noteq> Fail e" for e unfolding mapped(6) [symmetric] by (rule toChainMapper_no_error [OF mapped(3)])
  ultimately show ?thesis using mapped(7) rd by (cases v) auto
qed

lemma read_run_succeeds:
  "read_run m cl st r st' \<Longrightarrow> readable (rs_objects st) (rs_chain st) \<Longrightarrow> \<not> verifying m \<Longrightarrow> ready (rs_cluster st) \<Longrightarrow>
   r = Ok () \<and> ready (rs_cluster st')"
proof (induction rule: read_run.induct)
  case (read_one p st st1 r st2)
  then show ?case using readObjectToChain_readable readObjectToChain_succeeds by blast
next
  case (read_fails p st r st1)
  then show ?case using readObjectToChain_succeeds by blast
qed auto

end

section \<open>Verifying succeeds\<close>

lemma exist_verifying [simp]:
  "configs_exist (m\<lparr>verifying := v\<rparr>) V = configs_exist m V" "secrets_exist (m\<lparr>verifying := v\<rparr>) V = secrets_exist m V"
  unfolding secrets_exist_def verifying_irrelevant by (simp_all add: configs_exist_def)

lemma reading_exists:
  assumes "reading m V os d" "configs_exist m V" "secrets_exist m V" "map_of (entries os) p = Some ko"
  shows "V (Kind (obj_key ko)) (key_Name (obj_key ko)) \<noteq> None"
proof (cases "Kind (obj_key ko) = secretType")
  case True
  have "entry_ok m V d ko" using assms(1,4) unfolding reading_def objects_ok_def by blast
  then consider "obj_key ko = ca_key m" | key n svc b where "(key, n, svc, b) \<in> hook_refs m V" "obj_key ko = secret_key svc"
    unfolding entry_ok_def if_P [OF True] by blast
  then show ?thesis
  proof cases
    case 1
    with assms(3) show ?thesis by (simp add: secrets_exist_def)
  next
    case 2
    with assms(3) have "V secretType (key_Name (secret_key svc)) \<noteq> None" unfolding secrets_exist_def by blast
    with 2(2) show ?thesis by simp
  qed
next
  case False
  have "entry_ok m V d ko" using assms(1,4) unfolding reading_def objects_ok_def by blast
  then obtain w where "w \<in> set (webhooks m)" "obj_key ko = config_key w"
    unfolding entry_ok_def if_not_P [OF False] by blast
  with assms(2) show ?thesis by (simp add: configs_exist_def)
qed

context kube_live
begin

lemma readObjectToChain_verifies:
  assumes "readObjectToChain m cl p st = (r, st')" "readable (rs_objects st) (rs_chain st)" "ready (rs_cluster st)"
    and "reading m V (rs_objects st) (rs_chain st)" "view (rs_cluster st) = V" "configs_exist m V" "secrets_exist m V"
  shows "r = Ok () \<and> ready (rs_cluster st')"
  using assms(1)
proof (cases rule: readObjectToChain_cases)
  case skipped
  then show ?thesis using assms(3) by simp
next
  case (no_kind ko)
  then show ?thesis using readObjectToChain_no_panic [OF assms(1,2)] by simp
next
  case (not_read ko ops ob s1)
  have kind: "object_kind (creator ops (Name (key_Name (obj_key ko))) (Namespace (key_Name (obj_key ko)))) = Kind (obj_key ko)"
    using creator_kind [OF not_read(3)] .
  from ready_get [OF not_read(4) assms(3)] not_read(5) have "IsNotFound r" by simp
  from get_view_kept(4) [OF not_read(4) this] kind reading_exists [OF assms(4,6,7) not_read(1)] assms(5)
  show ?thesis by simp
next
  case (mapped ko ops g ob s1 v)
  have rd: "ready s1" using ready_get [OF mapped(4) assms(3)] by simp
  have "\<not> is_Panic r" by (rule readObjectToChain_no_panic [OF assms(1,2)])
  moreover have "v \<noteq> Fail e" for e unfolding mapped(6) [symmetric] by (rule toChainMapper_no_error [OF mapped(3)])
  ultimately show ?thesis using mapped(7) rd by (cases v) auto
qed

lemma read_run_verifies:
  "read_run m cl st r st' \<Longrightarrow> readable (rs_objects st) (rs_chain st) \<Longrightarrow> ready (rs_cluster st) \<Longrightarrow>
   reading m V (rs_objects st) (rs_chain st) \<Longrightarrow> view (rs_cluster st) = V \<Longrightarrow> named_apart m V \<Longrightarrow> typed_references m \<Longrightarrow>
   configs_exist m V \<Longrightarrow> secrets_exist m V \<Longrightarrow> r = Ok ()"
proof (induction rule: read_run.induct)
  case (read_one p st st1 r st2)
  then show ?case
    using readObjectToChain_readable readObjectToChain_verifies readObjectToChain_reading [OF read_one.hyps(2)] by blast
next
  case (read_fails p st r st1)
  then show ?case using readObjectToChain_verifies by blast
qed auto

lemma managed_VerifyTLS_succeeds:
  assumes "managed lib w cl view m s dur e" and lib: "x509_lib lib" "clock_ok lib" "paced w (withDefaults (manager_options m))"
    and typed: "typed_references m" and s1: "view s1 = view s" and later: "ticks e \<le> ticks e1"
    and v: "Manager_VerifyTLS lib cl ord m s1 e1 = (r, s2, e2)" and early: "clock_at lib e2 < last_reading lib e + dur"
    and "ready s1"
  shows "r = Ok ()"
proof -
  have rep: "named_apart m (view s1)" "configs_exist m (view s1)" "secrets_exist m (view s1)"
    using managed_represents [OF assms(1-5)] by (simp_all add: represents_def s1)
  let ?m = "m\<lparr>verifying := True\<rparr>"
  obtain rr st where rd: "readCertificateChain ?m cl (next_read ord) (initial_read s1) = (rr, st)" by fastforce
  then have run: "read_run ?m cl (start_state ?m s1) rr st" by (intro readObjectsToChain_run) (simp add: readCertificateChain_start)
  have "rr = Ok ()"
    by (rule read_run_verifies [OF run readable_start _ reading_start])
      (use typed rep assms(10) in \<open>simp_all add: start_state_def s1\<close>)
  with v rd have "r \<noteq> Fail (Wrap er ''Failed reading certificate data'')" for er
    by (auto simp: Manager_VerifyTLS_def split: result.splits prod.splits)
  with managed_VerifyTLS [OF assms(1-9)] show ?thesis by blast
qed

end

section \<open>Every object is listed once\<close>

text \<open>The references are different, and so are the services of the client configurations.\<close>

definition distinct_refs :: "Manager \<Rightarrow> view \<Rightarrow> bool" where
  "distinct_refs m V \<longleftrightarrow> distinct (webhooks m)
     \<and> (\<forall>(key, n, svc, b) \<in> hook_refs m V. \<forall>(key', n', svc', b') \<in> hook_refs m V.
          secret_key svc = secret_key svc' \<longrightarrow> key = key' \<and> n = n')"

lemma distinct_refs_secret:
  "distinct_refs m V \<Longrightarrow> (key, n, svc, b) \<in> hook_refs m V \<Longrightarrow> (key', n', svc', b') \<in> hook_refs m V \<Longrightarrow>
   secret_key svc = secret_key svc' \<Longrightarrow> key = key' \<and> n = n'"
  unfolding distinct_refs_def by (drule conjunct2, drule (1) bspec, simp only: prod.case, drule (1) bspec, simp only: prod.case)

definition unique_keys :: "objectMap \<Rightarrow> bool" where
  "unique_keys os \<longleftrightarrow> (\<forall>p q a b. map_of (entries os) p = Some a \<longrightarrow> map_of (entries os) q = Some b \<longrightarrow> obj_key a = obj_key b \<longrightarrow> p = q)"

definition pending_at :: "objectMap \<Rightarrow> nat \<Rightarrow> objectKey \<Rightarrow> bool" where
  "pending_at os p key \<longleftrightarrow> Kind key \<noteq> secretType \<and> map_of (entries os) p = Some \<lparr>obj_key = key, kobject = None\<rparr>"

text \<open>The secrets of a webhook configuration that was not read are not yet listed.\<close>

definition unclaimed :: "view \<Rightarrow> objectMap \<Rightarrow> bool" where
  "unclaimed V os \<longleftrightarrow> (\<forall>p key. pending_at os p key \<longrightarrow> (\<forall>(k, n, svc, b) \<in> key_refs V key. \<not> has_entry os (secret_key svc)))"

lemma unique_keys_add: "unique_keys os \<Longrightarrow> fresh os \<Longrightarrow> \<not> has_entry os key \<Longrightarrow> unique_keys (add_object key os)"
  unfolding unique_keys_def has_entry_def by (auto simp: map_of_add_fresh)

lemma unique_keys_set_kobject: "unique_keys os \<Longrightarrow> unique_keys (set_kobject p ob os)"
  unfolding unique_keys_def map_of_set_kobject by (auto split: if_splits)

lemma has_entry_add_iff: "fresh os \<Longrightarrow> has_entry (add_object key os) key' \<longleftrightarrow> key' = key \<or> has_entry os key'"
  unfolding has_entry_def by (auto simp: map_of_add_fresh fresh_def) (metis less_irrefl option.distinct(1))

lemma pending_at_add_secret: "fresh os \<Longrightarrow> pending_at (add_object (secret_key svc) os) p key \<Longrightarrow> pending_at os p key"
  by (auto simp: pending_at_def map_of_add_fresh split: if_splits)

text \<open>Listing the secrets of a webhook configuration.\<close>

lemma webhook_to_chain_loop_unique:
  assumes "V (Kind key) (key_Name key) = Some ob" "\<exists>w \<in> set (webhooks m). key = config_key w" "distinct_refs m V"
  shows "fresh os \<Longrightarrow> unique_keys os \<Longrightarrow> set cm \<subseteq> set (clientConfigMap ob) \<Longrightarrow> distinct (map fst cm) \<Longrightarrow>
    \<forall>(n, i) \<in> set cm. \<forall>svc. Service (ClientConfig (object_webhooks ob ! i)) = Some svc \<longrightarrow> \<not> has_entry os (secret_key svc) \<Longrightarrow>
    webhook_to_chain_loop (objectKey_String key) (object_webhooks ob) cm os d = (os', d') \<Longrightarrow>
    unique_keys os' \<and> (\<forall>p key. pending_at os' p key \<longrightarrow> pending_at os p key)
    \<and> (\<forall>k. has_entry os' k \<longrightarrow> has_entry os k \<or> (\<exists>(key', n, svc, b) \<in> key_refs V key. k = secret_key svc))"
proof (induction cm arbitrary: os d)
  case (Cons kv cm)
  obtain n i where kv: "kv = (n, i)" by fastforce
  let ?w = "object_webhooks ob ! i"
  obtain svc where svc: "Service (ClientConfig ?w) = Some svc"
    using Cons.prems(3) clientConfigMap_entry [of n i ob] by (auto simp: kv)
  have refs: "(key, n', svc', CABundle (ClientConfig (object_webhooks ob ! i'))) \<in> key_refs V key"
    if "(n', i') \<in> set (kv # cm)" "Service (ClientConfig (object_webhooks ob ! i')) = Some svc'" for n' i' svc'
    using that Cons.prems(3) assms(1) by (auto simp: key_refs_def object_refs_def)
  have hook: "r \<in> hook_refs m V" if "r \<in> key_refs V key" for r using that assms(2) unfolding hook_refs_def by auto
  define d1 where "d1 = chain_with_bundle (objectKey_String key) n (ClientConfig ?w) svc d"
  define os1 where "os1 = add_object (secret_key svc) os"
  have none: "\<not> has_entry os (secret_key svc)" using Cons.prems(5) svc by (auto simp: kv)
  have os1: "fresh os1" "unique_keys os1" unfolding os1_def using Cons.prems(1,2) none by (simp_all add: unique_keys_add)
  have "\<not> has_entry os1 (secret_key svc')"
    if i': "(n', i') \<in> set cm" "Service (ClientConfig (object_webhooks ob ! i')) = Some svc'" for n' i' svc'
  proof -
    have "n' \<noteq> n" using Cons.prems(4) i'(1) by (force simp: kv)
    then have "secret_key svc' \<noteq> secret_key svc"
      using distinct_refs_secret [OF assms(3) hook hook, OF refs refs, of n' i' svc' n i svc] i' svc by (auto simp: kv)
    moreover have "\<not> has_entry os (secret_key svc')" using Cons.prems(5) i' by auto
    ultimately show ?thesis using Cons.prems(1) by (simp add: os1_def has_entry_add_iff)
  qed
  then have rest: "\<forall>(n, i) \<in> set cm. \<forall>svc. Service (ClientConfig (object_webhooks ob ! i)) = Some svc \<longrightarrow> \<not> has_entry os1 (secret_key svc)"
    by blast
  have l: "webhook_to_chain_loop (objectKey_String key) (object_webhooks ob) cm os1 d1 = (os', d')"
    using Cons.prems(6) svc
    by (simp add: kv webhook_to_chain_loop_step d1_def os1_def secret_key_def secretType_def del: webhook_to_chain_loop.simps)
  have cm: "set cm \<subseteq> set (clientConfigMap ob)" "distinct (map fst cm)" using Cons.prems(3,4) by simp_all
  note IH = Cons.IH [OF os1 cm rest l]
  have pend: "pending_at os' p key' \<Longrightarrow> pending_at os p key'" for p key'
    using IH pending_at_add_secret [OF Cons.prems(1), of svc p key'] unfolding os1_def by blast
  have "(key, n, svc, CABundle (ClientConfig ?w)) \<in> key_refs V key" using refs [of n i svc] svc by (simp add: kv)
  then have "has_entry os k \<or> (\<exists>(key', n, svc, b) \<in> key_refs V key. k = secret_key svc)" if "has_entry os' k" for k
    using IH that has_entry_add_iff [OF Cons.prems(1)] unfolding os1_def by blast
  with IH pend show ?case by blast
qed simp

lemma pending_at_set_kobject: "pending_at (set_kobject p ob os) q key \<longleftrightarrow> q \<noteq> p \<and> pending_at os q key"
proof (cases "q = p")
  case True
  have "z\<lparr>kobject := Some ob\<rparr> \<noteq> \<lparr>obj_key = key, kobject = None\<rparr>" for z by (metis keyedObject.ext_inject keyedObject.surjective keyedObject.update_convs(2) option.distinct(1))
  with True show ?thesis by (auto simp: pending_at_def map_of_set_kobject)
qed (simp add: pending_at_def map_of_set_kobject)

lemma unclaimed_config:
  assumes r: "reading m V os d" and u: "unique_keys os" "unclaimed V os" and dr: "distinct_refs m V"
    and ko: "map_of (entries os) p = Some ko" "kobject ko = None" "Kind (obj_key ko) \<noteq> secretType"
    and V: "V (Kind (obj_key ko)) (key_Name (obj_key ko)) = Some ob"
    and l: "webhook_to_chain_loop (objectKey_String (obj_key ko)) (object_webhooks ob) (clientConfigMap ob) (set_kobject p ob os) d = (os', d')"
  shows "unique_keys os' \<and> unclaimed V os'"
proof -
  let ?key = "obj_key ko"
  have entry: "\<exists>w \<in> set (webhooks m). key = config_key w" if "pending_at os q key" for q key
    using that r by (force simp: reading_def objects_ok_def entry_ok_def pending_at_def)
  have hook: "key_refs V key \<subseteq> hook_refs m V" if "pending_at os q key" for q key
    using entry [OF that] by (auto simp: hook_refs_def)
  have p: "pending_at os p ?key" using ko by (cases ko) (simp add: pending_at_def)
  have none: "\<forall>(n, i) \<in> set (clientConfigMap ob). \<forall>svc. Service (ClientConfig (object_webhooks ob ! i)) = Some svc \<longrightarrow>
      \<not> has_entry (set_kobject p ob os) (secret_key svc)"
  proof (intro ballI, clarify)
    fix n i svc assume "(n, i) \<in> set (clientConfigMap ob)" "Service (ClientConfig (object_webhooks ob ! i)) = Some svc"
      and h: "has_entry (set_kobject p ob os) (secret_key svc)"
    then have "(?key, n, svc, CABundle (ClientConfig (object_webhooks ob ! i))) \<in> key_refs V ?key"
      using V by (auto simp: key_refs_def object_refs_def)
    with u(2) p h show False unfolding unclaimed_def by fastforce
  qed
  have "fresh (set_kobject p ob os)" using r by (simp add: reading_def objects_ok_def)
  from webhook_to_chain_loop_unique [OF V entry [OF p] dr this unique_keys_set_kobject [OF u(1)] subset_refl clientConfigMap_distinct none l]
  have os': "unique_keys os'" "\<And>q key. pending_at os' q key \<Longrightarrow> q \<noteq> p \<and> pending_at os q key"
    "\<And>k. has_entry os' k \<Longrightarrow> has_entry os k \<or> (\<exists>(key', n, svc, b) \<in> key_refs V ?key. k = secret_key svc)"
    by (auto simp: pending_at_set_kobject)
  have "\<not> has_entry os' (secret_key svc)" if q: "pending_at os' q key" and r: "(k, n, svc, b) \<in> key_refs V key" for q key k n svc b
  proof
    assume h: "has_entry os' (secret_key svc)"
    have q': "q \<noteq> p" "pending_at os q key" using os'(2) [OF q] by simp_all
    with u(2) r have "\<not> has_entry os (secret_key svc)" unfolding unclaimed_def by fast
    with os'(3) [OF h] obtain key1 n1 svc1 b1 where r1: "(key1, n1, svc1, b1) \<in> key_refs V ?key" "secret_key svc = secret_key svc1" by blast
    have "(k, n, svc, b) \<in> hook_refs m V" "(key1, n1, svc1, b1) \<in> hook_refs m V"
      using r r1(1) hook [OF q'(2)] hook [OF p] by blast+
    from distinct_refs_secret [OF dr this r1(2)] key_refs_key [OF r] key_refs_key [OF r1(1)] have "key = ?key" by simp
    with q' p u(1) show False unfolding unique_keys_def pending_at_def by fastforce
  qed
  with os'(1) show ?thesis unfolding unclaimed_def by blast
qed

context kube_cluster
begin

lemma readObjectToChain_unique:
  assumes "readObjectToChain m cl p st = (Ok (), st')" "reading m V (rs_objects st) (rs_chain st)" "view (rs_cluster st) = V"
    and "distinct_refs m V" and u: "unique_keys (rs_objects st)" "unclaimed V (rs_objects st)"
  shows "unique_keys (rs_objects st') \<and> unclaimed V (rs_objects st')"
  using assms(1)
proof (cases rule: readObjectToChain_cases)
  case skipped
  then show ?thesis using u by simp
next
  case (mapped ko ops g ob s1 v)
  let ?os = "set_kobject p ob (rs_objects st)"
  have f: "V (Kind (obj_key ko)) (key_Name (obj_key ko)) = Some ob \<or> clientConfigMap ob = [] \<or> Kind (obj_key ko) = secretType"
    using get_found [OF mapped(3) _ mapped(4)] mapped(5) assms(3) by (auto split: if_splits)
  have os: "unique_keys ?os" "unclaimed V ?os"
    using unique_keys_set_kobject [OF u(1)] u(2) unfolding unclaimed_def pending_at_set_kobject has_entry_set_kobject by blast+
  show ?thesis
    using mapped(3)
  proof (cases rule: operators_kinds)
    case webhook
    obtain os' d' where w: "mapWebhookToChain p (obj_key ko) ob ?os (rs_chain st) = (os', d')" by fastforce
    with mapped(6,7) webhook have st': "rs_objects st' = os'" by auto
    show ?thesis
    proof (cases "clientConfigMap ob = []")
      case True
      with w have os': "os' = delete_object p ?os" by (auto simp: mapWebhookToChain_def)
      then have del: "map_of (entries os') q = (if q = p then None else map_of (entries ?os) q)" for q by (simp add: map_of_delete_object)
      then have "has_entry os' key \<Longrightarrow> has_entry ?os key" "pending_at os' q key \<Longrightarrow> pending_at ?os q key" for q key
        unfolding has_entry_def pending_at_def by (metis option.distinct(1))+
      with os have "unclaimed V os'" unfolding unclaimed_def by blast
      moreover have "unique_keys os'" using os(1) unfolding unique_keys_def del by auto
      ultimately show ?thesis by (simp add: st')
    next
      case False
      with f webhook(1) have V: "V (Kind (obj_key ko)) (key_Name (obj_key ko)) = Some ob" by simp
      from False w have "webhook_to_chain_loop (objectKey_String (obj_key ko)) (object_webhooks ob) (clientConfigMap ob) ?os (rs_chain st) = (os', d')"
        by (simp add: mapWebhookToChain_def Let_def)
      from unclaimed_config [OF assms(2) u assms(4) mapped(1,2) webhook(1) V this] show ?thesis by (simp add: st')
    qed
  next
    case secret
    have "rs_objects st' = ?os" using mapped(6,7) secret by (cases "mapSecretToChain (obj_key ko) ob (rs_chain st)") auto
    with os show ?thesis by simp
  qed
qed auto

lemma read_run_unique:
  "read_run m cl st r st' \<Longrightarrow> reading m V (rs_objects st) (rs_chain st) \<Longrightarrow> view (rs_cluster st) = V \<Longrightarrow>
   named_apart m V \<Longrightarrow> typed_references m \<Longrightarrow> distinct_refs m V \<Longrightarrow> unique_keys (rs_objects st) \<Longrightarrow> unclaimed V (rs_objects st) \<Longrightarrow>
   r = Ok () \<Longrightarrow> unique_keys (rs_objects st')"
proof (induction rule: read_run.induct)
  case (read_one p st st1 r st2)
  then show ?case
    using readObjectToChain_reading [OF read_one.hyps(2)] readObjectToChain_unique [OF read_one.hyps(2)] by blast
qed auto

end

lemma config_key_inject [simp]: "config_key w = config_key w' \<longleftrightarrow> w = w'"
  by (auto simp: config_key_def newObjectKey_def)

lemma init_webhooks_unique:
  "fresh os \<Longrightarrow> unique_keys os \<Longrightarrow> distinct ws \<Longrightarrow> \<forall>w \<in> set ws. \<not> has_entry os (config_key w) \<Longrightarrow> unique_keys (init_webhooks ws os)"
proof (induction ws arbitrary: os)
  case (Cons w ws)
  let ?os = "add_object (config_key w) os"
  have "unique_keys ?os" using Cons.prems by (simp add: unique_keys_add)
  moreover have "\<forall>v \<in> set ws. \<not> has_entry ?os (config_key v)" using Cons.prems by (auto simp: has_entry_add_iff)
  ultimately have "unique_keys (init_webhooks ws ?os)" using Cons by simp
  then show ?case by (simp add: config_key_def)
qed simp

lemma unique_start:
  assumes "typed_references m" "distinct_refs m V" "named_apart m V"
  shows "unique_keys (rs_objects (start_state m s)) \<and> unclaimed V (rs_objects (start_state m s))"
proof -
  define os where "os = init_webhooks (webhooks m) empty_objectMap"
  have e: "fresh empty_objectMap" "\<And>k. \<not> has_entry empty_objectMap k" "unique_keys empty_objectMap"
    by (simp_all add: fresh_def has_entry_def unique_keys_def empty_objectMap_def)
  then have os: "fresh os" "unique_keys os" unfolding os_def
    using init_webhooks_keeps init_webhooks_unique assms(2) by (auto simp: distinct_refs_def)
  have st: "rs_objects (start_state m s) = add_object (ca_key m) os"
    by (simp add: start_state_def initObjects_def os_def ca_key_def Let_def)
  have keys: "\<exists>w \<in> set (webhooks m). key = config_key w" if "has_entry os key" for key
    using that init_webhooks_entries [OF e(1)] unfolding has_entry_def os_def by (fastforce simp: empty_objectMap_def)
  have kind: "Kind key \<noteq> secretType" if "has_entry os key" for key
    using keys [OF that] typed_reference_kind [OF assms(1)] by (auto simp: config_key_def newObjectKey_def)
  have "\<not> has_entry os (ca_key m)" using kind ca_key_sel(1) by blast
  with os have "unique_keys (add_object (ca_key m) os)" by (simp add: unique_keys_add)
  moreover have "\<not> has_entry (add_object (ca_key m) os) (secret_key svc)"
    if q: "pending_at (add_object (ca_key m) os) q key" and r: "(k, n, svc, b) \<in> key_refs V key" for q key k n svc b
  proof -
    have "has_entry os key" using q os(1) unfolding has_entry_def pending_at_def by (fastforce simp: map_of_add_fresh split: if_splits)
    then have "(k, n, svc, b) \<in> hook_refs m V" using keys r unfolding hook_refs_def by blast
    then have "secret_key svc \<noteq> ca_key m" by (rule secret_key_not_ca [OF assms(3)])
    moreover have "\<not> has_entry os (secret_key svc)" using kind secret_key_sel by blast
    ultimately show ?thesis using os(1) by (simp add: has_entry_add_iff)
  qed
  ultimately show ?thesis unfolding st unclaimed_def by blast
qed

section \<open>Writing succeeds\<close>

text \<open>An entry whose object is as it was read.\<close>

definition unwritten :: "view \<Rightarrow> CertificateChainData \<Rightarrow> view \<Rightarrow> keyedObject \<Rightarrow> bool" where
  "unwritten V0 d V ko \<longleftrightarrow> covered d (obj_key ko) \<and> (\<exists>old. kobject ko = Some old \<and> found V0 (obj_key ko) old)
     \<and> V (Kind (obj_key ko)) (key_Name (obj_key ko)) = V0 (Kind (obj_key ko)) (key_Name (obj_key ko))"

lemma object_kind_known: "known_kind (object_kind ob)"
  by (cases ob) (simp_all add: known_kind_def)

context kube_live
begin

lemma writeObjectFromChain_succeeds:
  assumes "ready s" and ko: "map_of (entries os) p = Some ko" and u: "unwritten V0 d (view s) ko"
    and w: "writeObjectFromChain cl d p os s = (r, os', s')"
  shows "r = Ok () \<and> ready s' \<and> (\<exists>ob. os' = set_kobject p ob os)
    \<and> (\<forall>key. key \<noteq> obj_key ko \<longrightarrow> view s' (Kind key) (key_Name key) = view s (Kind key) (key_Name key))"
proof -
  let ?key = "obj_key ko"
  from u obtain old where old: "kobject ko = Some old" "found V0 ?key old" and cov: "covered d ?key"
    and V: "view s (Kind ?key) (key_Name ?key) = V0 (Kind ?key) (key_Name ?key)" by (auto simp: unwritten_def)
  then have kind: "object_kind old = Kind ?key" and name: "object_name old = key_Name ?key" by (simp_all add: found_def)
  obtain g current s1 where g: "get cl (key_Name ?key) old s = (g, current, s1)" by (metis prod_cases3)
  note get = get_view_kept [OF g, unfolded kind]
  have gg: "ready s1" "g = Ok () \<or> IsNotFound g" using ready_get [OF g assms(1)] by auto
  have cur: "current = old" using get(2,3) V old(2) by (cases "g = Ok ()") (auto simp: found_def)
  from known_kind_operators [OF object_kind_known, of old] kind obtain ops where ops: "objectOperatorsMap (Kind ?key) = Some ops" by auto
  obtain ob where ob: "fromChainMapper ops ?key d old = Ok ob" using fromChainMapper_no_panic [OF ops kind] by blast
  note h = fromChainMapper_holds [OF ops ob kind cov]
  have eq: "Kind key' = Kind ?key \<and> key_Name key' = key_Name ?key \<longleftrightarrow> key' = ?key" for key' :: objectKey by auto
  show ?thesis
    using w ko old(1) g
  proof (cases rule: writeObjectFromChain_cases)
    case (written ops' ob' er)
    then have ob': "ob' = ob" using ops ob cur by simp
    have "er = None \<and> ready s'"
    proof (cases "IsNotFound g")
      case True
      with get(4) h(2,3) name have "view s1 (object_kind ob) (object_name ob) = None" using get(1) by simp
      with ready_Create [OF gg(1) this] written(6) True ob' show ?thesis by simp
    next
      case False
      with gg(2) get(1,2) h(2,3) name have "view s1 (object_kind ob) (object_name ob) \<noteq> None" by simp
      with ready_Update [OF gg(1) this] written(6) False ob' show ?thesis by simp
    qed
    moreover have "view s' k n = view s k n" if "\<not> (k = Kind ?key \<and> n = key_Name ?key)" for k n
      using written(6) calculation create_ok [of ob s1 s'] update_ok [of ob s1 s'] get(1) h(2,3) name that ob'
      by (cases "IsNotFound g") auto
    ultimately show ?thesis using written(7,8) eq by auto
  next
    case (noop ops' ob')
    then show ?thesis using gg(1) get(1) by auto
  next
    case not_mapped
    then show ?thesis using ops ob cur by simp
  next
    case (changed ops' ob')
    then show ?thesis using cur by simp
  qed (use gg in simp)
qed

lemma writeObjectsFromChain_succeeds:
  "ready s \<Longrightarrow> distinct ps \<Longrightarrow> unique_keys os \<Longrightarrow>
   \<forall>p \<in> set ps. \<exists>ko. map_of (entries os) p = Some ko \<and> unwritten V0 d (view s) ko \<Longrightarrow>
   writeObjectsFromChain cl d ps os s = (r, os', s') \<Longrightarrow> r = Ok () \<and> ready s'"
proof (induction ps arbitrary: os s)
  case (Cons p ps)
  from Cons.prems(4) obtain ko where ko: "map_of (entries os) p = Some ko" "unwritten V0 d (view s) ko" by auto
  obtain r1 os1 s1 where one: "writeObjectFromChain cl d p os s = (r1, os1, s1)" by (metis prod_cases3)
  from writeObjectFromChain_succeeds [OF Cons.prems(1) ko one] obtain ob where r1: "r1 = Ok ()" "ready s1" "os1 = set_kobject p ob os"
    and other: "\<And>key. key \<noteq> obj_key ko \<Longrightarrow> view s1 (Kind key) (key_Name key) = view s (Kind key) (key_Name key)" by blast
  have "\<exists>k. map_of (entries os1) q = Some k \<and> unwritten V0 d (view s1) k" if q: "q \<in> set ps" for q
  proof -
    from q Cons.prems(2,4) obtain k where k: "q \<noteq> p" "map_of (entries os) q = Some k" "unwritten V0 d (view s) k" by auto
    then have "obj_key k \<noteq> obj_key ko" using Cons.prems(3) ko(1) unfolding unique_keys_def by blast
    from other [OF this] k show ?thesis by (simp add: r1(3) map_of_set_kobject unwritten_def)
  qed
  moreover have "writeObjectsFromChain cl d ps os1 s1 = (r, os', s')" using Cons.prems(5) one r1(1) by simp
  moreover have "unique_keys os1" using unique_keys_set_kobject [OF Cons.prems(3)] by (simp add: r1(3))
  ultimately show ?case using Cons.IH [OF r1(2)] Cons.prems(2) by simp
qed simp

end

section \<open>Reconciling succeeds\<close>

text \<open>The order of a loop over a map visits every entry once.\<close>

definition visits_once :: "map_order \<Rightarrow> bool" where
  "visits_once ord = (\<forall>ps. distinct (write_order ord ps) \<and> set (write_order ord ps) = set ps)"

lemma visits_once_all: "visits_once ord \<Longrightarrow> visits_all ord"
  by (simp add: visits_once_def visits_all_def)

context kube_live
begin

lemma reconcile_progress:
  assumes "ready s" "\<not> verifying m" and typed: "typed_references m" and apart: "named_apart m (view s)" and dr: "distinct_refs m (view s)"
    and "options_ok (withDefaults (manager_options m))" "zero_time \<le> clock_at lib e" "visits_once ord"
    and "all_named_certs lib (rs_chain (snd (readCertificateChain m cl (next_read ord) (initial_read s))))"
  shows "\<exists>r s' e'. reconcileCertificates lib cl ord m s e = (r, s', e')
    \<and> ((\<exists>dur. r = Ok dur \<and> ready s') \<or> (\<exists>er. r = Fail (Wrap er ''Failed updating certificate data'') \<and> crypto_error lib er \<and> view s' = view s))"
proof -
  obtain r st where rd: "readCertificateChain m cl (next_read ord) (initial_read s) = (r, st)" by fastforce
  then have run: "read_run m cl (start_state m s) r st" by (intro readObjectsToChain_run) (simp add: readCertificateChain_start)
  have st: "r = Ok ()" "ready (rs_cluster st)"
    using read_run_succeeds [OF run readable_start [OF typed] assms(2)] assms(1) by (auto simp: start_state_def)
  note snap = read_snapshot [OF run [unfolded st(1)] apart typed]
  have well: "well_read (rs_chain st)" by (rule read_run_well_read [OF run well_read_start])
  have "unique_keys (rs_objects st)"
    by (rule read_run_unique [OF run reading_start [OF typed] _ apart typed dr _ _ st(1)])
      (use unique_start [OF typed dr apart, of s] in \<open>simp_all add: start_state_def\<close>)
  note uniq = this
  have "issues_named (rs_chain st)"
    using well by (fastforce simp: issues_named_def well_read_def issue_for_def serviceHostname_def)
  moreover have "all_named_certs lib (rs_chain st)" using assms(9) rd by simp
  ultimately have oc: "ok_or_crypto lib (fst (Update lib (manager_options m) (rs_chain st) e))"
    using assms(6,7) well_read_distinct(2) [OF well] by (intro Update_errors)
  obtain ur d e1 where up: "Update lib (manager_options m) (rs_chain st) e = (ur, d, e1)" by (metis prod_cases3)
  show ?thesis
  proof (cases ur)
    case (Ok t)
    have start: "writing (view s) d (rs_objects st) (view (rs_cluster st))"
      unfolding snap(3) by (rule writing_start [OF snap(1,2) Update_updated_from [OF up [unfolded Ok]]])
    let ?ps = "write_order ord (map fst (entries (rs_objects st)))"
    have ps: "distinct ?ps" "set ?ps = fst ` set (entries (rs_objects st))" using assms(8) by (simp_all add: visits_once_def)
    have "\<exists>ko. map_of (entries (rs_objects st)) p = Some ko \<and> unwritten (view s) d (view (rs_cluster st)) ko" if "p \<in> set ?ps" for p
    proof -
      from that ps(2) obtain ko where ko: "map_of (entries (rs_objects st)) p = Some ko" by (metis map_of_eq_None_iff not_Some_eq)
      with start have "covered d (obj_key ko)" by (auto simp: writing_def entry_written_def)
      with ko snap(2,3) show ?thesis unfolding unwritten_def objects_read_def by auto
    qed
    moreover obtain wr os' s' where wr: "writeObjectsFromChain cl d ?ps (rs_objects st) (rs_cluster st) = (wr, os', s')" by (metis prod_cases3)
    ultimately have "wr = Ok () \<and> ready s'" using writeObjectsFromChain_succeeds [OF st(2) ps(1) uniq] by blast
    with wr rd st up Ok show ?thesis by (simp add: reconcileCertificates_def writeCertificateChain_def)
  next
    case (Fail er)
    with oc up rd st snap(3) show ?thesis by (simp add: reconcileCertificates_def)
  qed (use oc up in simp)
qed

end

interpretation live: kube_live "store_client n" store_view "\<lambda>s. delay s = 0" for n
  by unfold_locales (auto simp: store_client_def store_put_def split: if_splits option.splits)

end
