(* ===== verification/Cluster_Theorems.thy ===== *)
theory Cluster_Theorems
  imports Cluster_Progress Config_Theorems Chain_Theorems
begin

text \<open>
  The properties that span reading, updating, writing and verifying, in a cluster that nobody else
  changes while the manager works on it.
\<close>

section \<open>Reading\<close>

text \<open>C6. A complete read of the cluster, in whatever order, represents it exactly. Every client
  configuration with a service has an entry under the host name of the service, with the names of
  the service, with its CA bundle under the name of the configuration, and with the key and the
  certificates of the secret of the service, if it has both. There are no other entries and no
  other bundles, and the CA is the one of the CA secret. Names are assumed not to collide
  (\<open>named_apart\<close>): services have no dot in their name, none has the name of the CA secret, and
  configurations of a service have different bundle names.\<close>

theorem complete_read_represents_cluster:
  assumes "kube_cluster cl view" "typed_references m" "named_apart m (view s)"
      "readCertificateChain m cl pick (initial_read s) = (Ok (), st)"
  shows "(\<forall>(key, n, svc, b) \<in> hook_refs m (view s). \<exists>ci.
        map_of (CertificatesIssued (rs_chain st)) (serviceHostname (Service_Name svc) (Service_Namespace svc)) = Some ci
        \<and> issue_for (Service_Name svc) (Service_Namespace svc) ci
        \<and> map_of (CACertPEM ci) (caBundleName (objectKey_String key) n) = Some b
        \<and> (KeyPEM ci, CertPEM ci) = tls_pair (view s) svc)
    \<and> (\<forall>h ci. map_of (CertificatesIssued (rs_chain st)) h = Some ci \<longrightarrow>
        (\<exists>(key, n, svc, b) \<in> hook_refs m (view s). h = serviceHostname (Service_Name svc) (Service_Namespace svc))
        \<and> (\<forall>k b. map_of (CACertPEM ci) k = Some b \<longrightarrow> (\<exists>(key, n, svc, b') \<in> hook_refs m (view s).
             h = serviceHostname (Service_Name svc) (Service_Namespace svc) \<and> k = caBundleName (objectKey_String key) n \<and> b = b')))
    \<and> (CA_KeyPEM (Chain_CA (rs_chain st)), CA_CertPEM (Chain_CA (rs_chain st))) = ca_pair (view s) m
    \<and> CA_Name (Chain_CA (rs_chain st)) = NamespacedName_String (secretCAName m)"
proof -
  have "read_run m cl (start_state m s) (Ok ()) st"
    by (rule readObjectsToChain_run) (use assms(4) in \<open>simp add: readCertificateChain_start\<close>)
  then have snap: "snapshot m (view s) (rs_chain st)" by (rule kube_cluster.read_snapshot(1) [OF assms(1) _ assms(3,2)])
  have "\<exists>ci. map_of (CertificatesIssued (rs_chain st)) (host_of svc) = Some ci \<and> issue_for (Service_Name svc) (Service_Namespace svc) ci
      \<and> map_of (CACertPEM ci) (caBundleName (objectKey_String key) n) = Some b \<and> (KeyPEM ci, CertPEM ci) = tls_pair (view s) svc"
    if r: "(key, n, svc, b) \<in> hook_refs m (view s)" for key n svc b
    by (rule snapshot_issue [OF snap assms(3) r])
  moreover have "sound_issue m (view s) h ci" if "map_of (CertificatesIssued (rs_chain st)) h = Some ci" for h ci
    using snap that by (simp add: snapshot_def sound_def)
  ultimately show ?thesis
    using snap unfolding snapshot_def sound_def sound_issue_def ca_at_def host_of_def by blast
qed

text \<open>A cluster with one webhook configuration, of one hook, and a client that is ready.\<close>

definition ready_store :: store where
  "ready_store = (demo_store [demo_webhook ''a.b.c''])\<lparr>delay := 0\<rparr>"

definition demo_order :: map_order where
  "demo_order = \<lparr>next_read = hd, write_order = remdups\<rparr>"

lemma demo_refs: "hook_refs demo_manager (store_view ready_store) =
  {(newObjectKey MutatingWebhook [] ''cfg'', ''a.b.c'', \<lparr>Service_Namespace = ''ns'', Service_Name = ''web'', service_rest = []\<rparr>, None)}"
  by (auto simp: hook_refs_def key_refs_def object_refs_def config_key_def newObjectKey_def demo_manager_def ready_store_def
      demo_store_def store_view_def demo_config_def demo_webhook_def clientConfigMap_def object_name_def mutatingWebhookType_def)

lemma demo_apart: "named_apart demo_manager (store_view ready_store)" "distinct_refs demo_manager (store_view ready_store)"
  "hosts_ok demo_lib demo_manager (store_view ready_store)" "typed_references demo_manager"
  by (simp_all add: named_apart_def distinct_refs_def hosts_ok_def demo_refs, simp_all add: demo_manager_def secret_key_def newObjectKey_def
      secretCAName_def NamespacedName_String_def hostname_ok_def demo_lib_def ref_ParseIP_def typed_references_def)

definition demo_first_read :: "unit result \<times> store read_state" where
  "demo_first_read = readCertificateChain demo_manager (store_client 6) (next_read demo_order) (initial_read ready_store)"

lemma demo_first_read_ok: "fst demo_first_read = Ok ()"
  by code_simp

lemma demo_first_read_run:
  "readCertificateChain demo_manager (store_client 6) (next_read demo_order) (initial_read ready_store) = (Ok (), snd demo_first_read)"
  using demo_first_read_ok unfolding demo_first_read_def by (metis prod.collapse)

lemma demo_first_data: "map_values (\<lambda>ci. (CertPEM ci, CACertPEM ci)) (CertificatesIssued (rs_chain (snd demo_first_read)))
  = [(''web.ns.svc'', None, [(''Mutating//cfg-a.b.c'', None)])]"
  by code_simp

theorem complete_read_represents_cluster_witness:
  "\<exists>ci. map_of (CertificatesIssued (rs_chain (snd demo_first_read))) (serviceHostname ''web'' ''ns'') = Some ci
     \<and> map_of (CACertPEM ci) (caBundleName (objectKey_String (newObjectKey MutatingWebhook [] ''cfg'')) ''a.b.c'') = Some None"
proof -
  from complete_read_represents_cluster [OF store.kube_cluster_axioms demo_apart(4,1) demo_first_read_run] demo_refs
  show ?thesis by simp blast
qed

section \<open>Reconciling\<close>


lemma demo_first_named: "all_named_certs demo_lib (rs_chain (snd demo_first_read))"
proof -
  have "CertPEM ci = None" if "(n, ci) \<in> set (CertificatesIssued (rs_chain (snd demo_first_read)))" for n ci
  proof -
    have "(n, CertPEM ci, CACertPEM ci) \<in> set (map_values (\<lambda>ci. (CertPEM ci, CACertPEM ci)) (CertificatesIssued (rs_chain (snd demo_first_read))))"
      using that by (auto simp: mem_map_values)
    then show ?thesis unfolding demo_first_data by simp
  qed
  then show ?thesis by (auto simp: all_named_certs_def named_certs_def)
qed

lemma demo_manager_options: "manager_options demo_manager = demo_options"
  by (simp add: demo_manager_def demo_options_def)

lemma demo_order_once: "visits_once demo_order"
  by (simp add: visits_once_def demo_order_def)

lemma demo_ready: "delay ready_store = 0" "\<not> verifying demo_manager" "options_ok (withDefaults (manager_options demo_manager))"
    "zero_time \<le> clock_at demo_lib demo_env"
  using demo_paced by (simp_all add: ready_store_def demo_manager_options paced_def zero_time_def, simp add: demo_manager_def)


section \<open>Writing one object\<close>

lemma fromChainMapper_keeps:
  assumes "objectOperatorsMap k = Some ops" "fromChainMapper ops key d ob = Ok ob'"
  shows "object_kind ob' = object_kind ob" "object_name ob' = object_name ob"
proof -
  show "object_kind ob' = object_kind ob" by (rule object_kind_FromChain [OF assms])
  from assms consider "ob' = mapWebhookFromChain key d ob" | "mapSecretFromChain key d ob = Ok ob'"
    by (auto simp: objectOperatorsMap_def webhook_operators_def split: if_splits)
  then show "object_name ob' = object_name ob"
  proof cases
    case 1
    then show ?thesis using mapWebhookFromChain_nth(4) [of key d ob] by (simp add: object_name_def)
  next
    case 2
    then show ?thesis
      by (auto simp: object_name_def mapSecretFromChain_def mapCASecretFromChain_def mapServiceSecretFromChain_def Let_def
          split: Object.splits option.splits if_splits)
  qed
qed

text \<open>C8. Writing an entry changes nothing in the cluster, or only the object of the entry. An object
  that is in the cluster is changed only if it is still equal to the one that was read, and then to
  what the chain makes of it; one that differs is left alone. An object that is not in the cluster is
  created from the copy that was read, also if it was there at that time and was deleted since: a
  deletion does not count as a change, only the server may refuse the copy. A write that succeeds
  without changing anything had nothing to change.\<close>

theorem write_changes_only_what_was_read:
  assumes "kube_cluster cl view" "map_of (entries os) p = Some ko" "kobject ko = Some old"
    and "key = obj_key ko" "object_kind old = Kind key" "object_name old = key_Name key"
    and "writeObjectFromChain cl d p os s = (r, os', s')"
    and "current = (case view s (Kind key) (key_Name key) of Some x \<Rightarrow> x | None \<Rightarrow> old)"
  shows "view s' = view s \<and> (r = Ok () \<longrightarrow> (\<exists>ops ob. objectOperatorsMap (Kind key) = Some ops
          \<and> fromChainMapper ops key d current = Ok ob \<and> DeepEqual old ob))
    \<or> DeepEqual old current \<and> r = Ok () \<and> (\<exists>ops ob rest. objectOperatorsMap (Kind key) = Some ops
          \<and> fromChainMapper ops key d current = Ok ob \<and> \<not> DeepEqual old ob
          \<and> (\<forall>k n. view s' k n = (if k = Kind key \<and> n = key_Name key then Some (with_rest rest ob) else view s k n)))"
proof -
  obtain g cur s1 where g: "get cl (key_Name (obj_key ko)) old s = (g, cur, s1)" by (metis prod_cases3)
  note store = kube_cluster.axioms(1) [OF assms(1)]
  note get = kube_store.get_view_kept [OF store g, unfolded assms(4) [symmetric] assms(5)]
  have cur: "cur = current" if "g = Ok () \<or> IsNotFound g"
    using that get(2-4) assms(8) by (cases "g = Ok ()") (auto simp: IsNotFound_def)
  have at: "object_kind current = Kind key \<and> object_name current = key_Name key"
    using assms(5,6,8) kube_cluster.view_key [OF assms(1)] by (cases "view s (Kind key) (key_Name key)") auto
  show ?thesis
    using assms(7,2,3) g
  proof (cases rule: writeObjectFromChain_cases)
    case (noop ops ob)
    with cur get(1) show ?thesis unfolding assms(4) by blast
  next
    case (written ops ob er)
    have ops: "objectOperatorsMap (Kind key) = Some ops" "fromChainMapper ops key d current = Ok ob"
      using written(1-3) cur assms(4) by simp_all
    have ob: "object_kind ob = Kind key" "object_name ob = key_Name key" using fromChainMapper_keeps [OF ops] at by simp_all
    show ?thesis
    proof (cases er)
      case None
      have "\<exists>rest. \<forall>k n. view s' k n = (if k = Kind key \<and> n = key_Name key then Some (with_rest rest ob) else view s k n)"
        using written(6) None kube_store.create_ok [OF store, of ob s1 s', unfolded ob get(1)]
          kube_store.update_ok [OF store, of ob s1 s', unfolded ob get(1)]
        by (cases "IsNotFound g") (simp_all only: if_True if_False simp_thms)
      with ops written(1,4,5,7) cur None show ?thesis by auto
    next
      case (Some x)
      have "view s' = view s"
        using written(6) Some kube_store.create_error [OF store, of ob s1 x s'] kube_store.update_error [OF store, of ob s1 x s'] get(1)
        by (cases "IsNotFound g") simp_all
      with written(7) Some show ?thesis by simp
    qed
  qed (use get(1) in auto)
qed

theorem write_changes_only_what_was_read_witness:
  "\<exists>ob rest. store_view (snd (snd demo_write)) secretType (key_Name demo_secret_key) = Some (with_rest rest ob)"
proof -
  let ?old = "initSecret ''web'' ''ns''" and ?ko = "\<lparr>obj_key = demo_secret_key, kobject = Some (initSecret ''web'' ''ns'')\<rparr>"
  have ko: "map_of (entries demo_objects) 1 = Some ?ko" "kobject ?ko = Some ?old" "demo_secret_key = obj_key ?ko"
    and old: "object_kind ?old = Kind demo_secret_key" "object_name ?old = key_Name demo_secret_key"
    by (simp_all add: demo_objects_def Let_def demo_secret_key_def newObjectKey_def initSecret_def object_name_def)
  have none: "store_view (demo_store []) (Kind demo_secret_key) (key_Name demo_secret_key) = None"
    by (simp add: store_view_def demo_store_def demo_secret_key_def newObjectKey_def secretType_def mutatingWebhookType_def MutatingWebhook_def)
  obtain os' s' where w: "demo_write = (Ok (), os', s')" using demo_write_ok by (metis prod.collapse)
  have no: "\<not> DeepEqual ?old ob" if "objectOperatorsMap (Kind demo_secret_key) = Some ops"
    "fromChainMapper ops demo_secret_key demo_issued ?old = Ok ob" for ops ob
  proof -
    have key: "Kind demo_secret_key = secretType"
      "NamespacedName_String (key_Name demo_secret_key) \<noteq> CA_Name (Chain_CA demo_issued)"
      "map_of (CertificatesIssued demo_issued) (serviceHostname (Name (key_Name demo_secret_key))
         (Namespace (key_Name demo_secret_key))) = Some (snd (hd (CertificatesIssued demo_issued)))"
      by (simp_all add: demo_secret_key_def newObjectKey_def demo_issued_def NamespacedName_String_def
          serviceHostname_def serviceSubdomain_def)
    with that objectOperatorsMap_secret have "mapSecretFromChain demo_secret_key demo_issued ?old = Ok ob" by simp
    from secret_from_chain [OF this key(2,3)] obtain x m
      where "ob = SecretObject (x\<lparr>secret_Type := SecretTypeTLS, Data := Some m\<rparr>)" .
    then show ?thesis by (simp add: initSecret_def data_equal_def)
  qed
  from write_changes_only_what_was_read [OF store.kube_cluster_axioms ko old w [unfolded demo_write_def] refl] no
  obtain ob rest where "store_view s' k n = (if k = Kind demo_secret_key \<and> n = key_Name demo_secret_key
      then Some (with_rest rest ob) else store_view (demo_store []) k n)" for k n
    unfolding none option.case by blast
  then show ?thesis unfolding w by (auto simp: demo_secret_key_def newObjectKey_def)
qed

section \<open>From reconciling to verifying\<close>

text \<open>C1. After a reconciliation that rotated everything, and any number of further ones, in whatever
  order maps are read, \<^verbatim>\<open>VerifyTLS\<close> reads the cluster and succeeds at every moment before the time
  the last reconciliation asked to wait has passed. This assumes that nobody else changes the
  cluster and the client is ready, that the webhook configurations exist, that names do not
  collide and host names are no IP addresses, that the clock does not go back, that a
  reconciliation takes no longer than \<open>w\<close> and that the intervals leave room for that.\<close>

theorem reconciled_cluster_verifies:
  assumes "kube_live cl view ready" "x509_lib lib" "clock_ok lib" "paced w (withDefaults (manager_options m))" "typed_references m"
    and "managed lib w cl view m s dur e" "view s1 = view s" "ready s1" "ticks e \<le> ticks e1"
    and "Manager_VerifyTLS lib cl ord m s1 e1 = (r, s2, e2)" "clock_at lib e2 < last_reading lib e + dur"
  shows "r = Ok ()"
  using kube_live.managed_VerifyTLS_succeeds [OF assms(1,6,2-5,7,9-11,8)] .

definition demo_ready_chain :: certificateChain where
  "demo_ready_chain = \<lparr>chain_Options = withDefaults demo_options, chain_data = decode_data demo_lib (rs_chain (snd demo_first_read))\<rparr>"

lemma demo_ready_bundles:
  obtains ci where "CertificatesIssued (chain_data demo_ready_chain) = [(''web.ns.svc'', ci)]"
    "issue_caCerts ci = [(''Mutating//cfg-a.b.c'', [])]"
proof -
  obtain ci where ci: "CertificatesIssued (rs_chain (snd demo_first_read)) = [(''web.ns.svc'', ci)]" "CACertPEM ci = [(''Mutating//cfg-a.b.c'', None)]"
    using demo_first_data by (auto simp: map_values_def)
  show ?thesis
    by (rule that [of "decode_issue demo_lib ci"])
      (simp_all add: demo_ready_chain_def decode_data_def decode_issue_def ci split: prod.splits)
qed

lemma demo_ready_due: "full_rotation_due demo_lib demo_ready_chain demo_env" "has_bundle demo_ready_chain"
proof -
  obtain ci where ci: "CertificatesIssued (chain_data demo_ready_chain) = [(''web.ns.svc'', ci)]"
    "issue_caCerts ci = [(''Mutating//cfg-a.b.c'', [])]" by (rule demo_ready_bundles)
  then show "full_rotation_due demo_lib demo_ready_chain demo_env"
    by (simp add: full_rotation_due_def findRotationDeadlineForCA_def all_caCerts_def Before_def zero_time_def)
  show "has_bundle demo_ready_chain" using ci by (simp add: has_bundle_def)
qed

lemma demo_configs: "configs_exist demo_manager (store_view ready_store)"
  by (simp add: configs_exist_def config_key_def newObjectKey_def demo_manager_def ready_store_def demo_store_def store_view_def
      demo_config_def object_name_def mutatingWebhookType_def)

lemma demo_reconciled:
  obtains dur s e where "managed demo_lib Second (store_client 6) store_view demo_manager s dur e"
    "delay s = 0" "0 < dur"
proof -
  let ?d = "rs_chain (snd demo_first_read)"
  obtain dur s e where rc: "reconcileCertificates demo_lib (store_client 6) demo_order demo_manager ready_store demo_env = (Ok dur, s, e)"
    and s: "delay s = 0"
    using live.reconcile_progress [OF demo_ready(1,2) demo_apart(4,1,2) demo_ready(3,4) demo_order_once
      demo_first_named [unfolded demo_first_read_def]] demo_crypto
    by (auto simp: crypto_ok_def crypto_error_def)
  have nc: "newChain demo_lib (manager_options demo_manager) ?d = Ok demo_ready_chain"
    using demo_ready(3) by (simp add: newChain_Ok demo_ready_chain_def demo_manager_options)
  have m: "managed demo_lib Second (store_client 6) store_view demo_manager s dur e"
    by (rule first_reconciled [where view = store_view and ?s0.0 = ready_store, OF demo_apart(1,3) demo_configs
          demo_first_read_run nc demo_ready_due(1) visits_once_all [OF demo_order_once] rc])
      (simp add: Second_def)
  obtain st t d e1 where up: "readCertificateChain demo_manager (store_client 6) (next_read demo_order) (initial_read ready_store) = (Ok (), st)"
      "well_read (rs_chain st)" "Update demo_lib (manager_options demo_manager) (rs_chain st) demo_env = (Ok t, d, e1)" "dur = Sub t (clock_at demo_lib e1)"
    using store.reconcile_written_back [OF rc demo_apart(1,4) visits_once_all [OF demo_order_once]] by metis
  have st: "rs_chain st = ?d" using up(1) demo_first_read_run by simp
  have "clock_at demo_lib demo_env < t"
    by (rule x509_lib.Update_future [OF demo_lib_laws demo_clock_ok demo_paced nc [unfolded demo_manager_options] demo_ready_due(2) _ up(3) [unfolded st demo_manager_options]])
      (use demo_ready_due(1) well_read_distinct(2) [OF up(2)] st in \<open>simp_all add: Second_def\<close>)
  then have "0 < dur" unfolding up(4) by (simp add: Sub_def max_duration_def min_duration_def)
  with m s that show ?thesis by blast
qed

theorem reconciled_cluster_verifies_witness:
  "\<exists>dur s e s2 e2. managed demo_lib Second (store_client 6) store_view demo_manager s dur e
     \<and> Manager_VerifyTLS demo_lib (store_client 6) demo_order demo_manager s e = (Ok (), s2, e2)"
proof -
  obtain dur s e where m: "managed demo_lib Second (store_client 6) store_view demo_manager s dur e" "delay s = 0" "0 < dur"
    by (rule demo_reconciled)
  obtain r s2 e2 where v: "Manager_VerifyTLS demo_lib (store_client 6) demo_order demo_manager s e = (r, s2, e2)" by (metis prod_cases3)
  have "last_reading demo_lib e = 31536000000000000000"
    by (simp add: last_reading_def demo_lib_def OneYearDuration_value)
  with m(3) have "clock_at demo_lib e2 < last_reading demo_lib e + dur" by simp
  from reconciled_cluster_verifies [OF live.kube_live_axioms demo_lib_laws demo_clock_ok
      demo_paced(1) [folded demo_manager_options] demo_apart(4) m(1) refl m(2) order_refl v this]
  show ?thesis using m(1) v by blast
qed

end
