(* ===== verification/Spec2Isabelle.thy ===== *)
theory Spec2Isabelle
  imports Manager_Theorems Update_Theorems Certificate_Theorems Cluster_Theorems
begin

text \<open>
  Verification of kube-admission-webhook: a Go library with which an operator serves Kubernetes
  admission webhooks and keeps the TLS certificates of the services behind them.

  \<^bold>\<open>The program.\<close> The packages of the repository are modelled bottom up.

  \<^item> \<^verbatim>\<open>src/pkg/certificate/triple\<close>: PEM encoding and parsing (\<^verbatim>\<open>pem.go\<close>), certificate templates,
    signing and verification (\<^verbatim>\<open>cert.go\<close>), CA, server and client key pairs (\<^verbatim>\<open>triple.go\<close>).
  \<^item> \<^verbatim>\<open>src/pkg/certificate/chain\<close>: a certificate chain in memory, that is a CA and one certificate
    list per service with its CA bundles (\<^verbatim>\<open>api.go\<close>, \<^verbatim>\<open>chain.go\<close>), its options (\<^verbatim>\<open>options.go\<close>), the
    times at which it has to change (\<^verbatim>\<open>deadlines.go\<close>), and its rotation and clean-up
    (\<^verbatim>\<open>rotation.go\<close>, \<^verbatim>\<open>cleanup.go\<close>). \<^verbatim>\<open>Update\<close> decodes the stored PEM data, rotates what is due,
    cleans up what has expired and returns the time of the next update; \<^verbatim>\<open>Verify\<close> checks the chain.
  \<^item> \<^verbatim>\<open>src/pkg/certificate\<close>: the manager reads the chain from secrets and webhook configurations,
    updates it and writes it back (\<^verbatim>\<open>configuration.go\<close>, \<^verbatim>\<open>manager.go\<close>, \<^verbatim>\<open>client.go\<close>, \<^verbatim>\<open>types.go\<close>);
    the controller runs it on events and at the time of the next update (\<^verbatim>\<open>controller.go\<close>).
  \<^item> \<^verbatim>\<open>src/pkg/webhook/server\<close>: the webhook server, which adds the manager to the process and
    serves once the certificates verify (\<^verbatim>\<open>server.go\<close>).

  \<^bold>\<open>The model.\<close> Every Go function is a HOL function of the same name. A call ends in a value, an
  error or a run-time panic (type \<open>result\<close> of \<open>Prelude\<close>); pointers to structures that are updated in
  place are passed and returned, together with what an error leaves of them. Byte slices are
  optional strings, so that nil and empty differ. Maps are association lists in the order in which
  \<^verbatim>\<open>range\<close> visits them; the theorems hold for every order. (The loops of one update share an order,
  those of different updates and of reading and writing do not.) Times are integers of nanoseconds since
  the zero time; durations saturate as in Go, and floating point rounding is computed
  (\<open>Go_Time\<close>). The clock and the source of randomness are sequences; the record \<open>env\<close> counts how
  many values have been consumed.

  Code outside the repository is a parameter. The record \<open>go_lib\<close> (theory \<open>X509\<close>) holds the
  operations of \<^verbatim>\<open>crypto/x509\<close>, \<^verbatim>\<open>crypto/rsa\<close> and \<^verbatim>\<open>net\<close>; the locale \<open>x509_lib\<close> states what is
  relied on: parsing keeps the raw bytes, a created certificate parses to the members of its
  template at whole seconds, generated keys survive PKCS1, and a certificate issued by a CA in the
  pool verifies while both are valid. (The first law is stated for all templates, the real library
  has it for those that \<^verbatim>\<open>cert.go\<close> makes, and no other is ever used.) Whether an operation of the
  library succeeds is not assumed; \<open>crypto_error\<close> (theory \<open>Chain_Total\<close>) says of an error that one of
  the calls the program makes failed with it. \<open>X509_Ref\<close> interprets it on an executable library, in which
  witnesses are evaluated. The record \<open>kube_client\<close> (theory \<open>Configuration\<close>) is the Kubernetes
  client over a cluster state of any type; \<open>kube_api\<close> asks that objects have the kind that was
  asked for, \<open>kube_store\<close> that nobody else changes the cluster, that reads see earlier writes and
  that the server sets nothing but members the program does not look at, \<open>kube_cluster\<close> that an
  object is found under its own kind and name, \<open>kube_live\<close> that a ready
  client has no errors of its own. Each extends the one before, and all are interpreted on an association list of objects with
  a cache that is not ready at first (\<open>Config_Writing\<close>, \<open>Cluster_Progress\<close>). The
  controller-runtime manager is the record \<open>runtime\<close>. \<^verbatim>\<open>wait.PollImmediate\<close> takes the number of
  ticks that are delivered before the timeout as a parameter, so polling ends.

  \<^bold>\<open>The theories.\<close>

  \<^item> \<open>Prelude\<close>: results, slices, maps. \<open>Go_Time\<close>: times, durations, \<^verbatim>\<open>float64\<close>.
  \<^item> \<open>Pem_Codec\<close>: base64 and PEM at the level of bytes, with the contract \<open>pem_codec\<close>. \<open>X509\<close>,
    \<open>X509_Ref\<close>: the library. \<open>Triple\<close>: \<^verbatim>\<open>pem.go\<close>, \<^verbatim>\<open>cert.go\<close>, \<^verbatim>\<open>triple.go\<close>.
  \<^item> \<open>Cert_Options\<close>: \<^verbatim>\<open>options.go\<close>. \<open>Cert_Chain\<close>: the data, decoding, setters and \<^verbatim>\<open>verifyTLS\<close>.
    \<open>Deadlines\<close>, \<open>Cleanup\<close>, \<open>Rotation\<close>: the files of these names. \<open>Chain_Update\<close>: \<^verbatim>\<open>update\<close>,
    \<^verbatim>\<open>Update\<close>, \<^verbatim>\<open>Verify\<close>, and the ways an update ends.
  \<^item> \<open>Services\<close>: what an update keeps. \<open>Chain_Progress\<close>: deadlines lie in the future.
    \<open>Chain_Ownership\<close>: data whose certificates all come from its own CA, and that each branch of an
    update makes or keeps such data. \<open>Chain_Storage\<close>: stored data, up to the order of its maps.
    \<open>Chain_Lifecycle\<close>: the inductive predicate \<open>maintained\<close> of data
    after successive updates, storage in between. \<open>Chain_Total\<close>: no panic, and no error but those
    of the crypto library.
  \<^item> \<open>Kube_Objects\<close>: \<^verbatim>\<open>types.go\<close>, resources, names, the object map and the mappers of
    \<^verbatim>\<open>configuration.go\<close>. \<open>Configuration\<close>: \<^verbatim>\<open>client.go\<close>, reading and writing. Reading is the
    relation \<open>read_run\<close> of all orders, on which the invariants are proved, and a terminating
    function whose runs are among them.
    \<open>Cert_Manager\<close>: \<^verbatim>\<open>manager.go\<close> and \<^verbatim>\<open>controller.go\<close>. \<open>Webhook_Server\<close>: \<^verbatim>\<open>server.go\<close>.
  \<^item> \<open>Config_Mapping\<close>, \<open>Config_Reading\<close>, \<open>Config_Writing\<close>, \<open>Manager_Safety\<close>: the lemmas on them.
  \<^item> \<open>Cluster_View\<close>: the references to services in a cluster, and that a complete read represents it
    (\<open>snapshot\<close>). \<open>Cluster_Write\<close>: what the write loop leaves in the cluster. \<open>Cluster_Lifecycle\<close>:
    what was written is read back, and the inductive predicate \<open>managed\<close> of clusters after
    successive reconciliations, which represent \<open>maintained\<close> data. \<open>Cluster_Progress\<close>: reading,
    writing and verifying succeed with a client that is ready.
  \<^item> \<open>Certificate_Theorems\<close>, \<open>Chain_Theorems\<close>, \<open>Update_Theorems\<close>, \<open>Config_Theorems\<close>,
    \<open>Manager_Theorems\<close>, \<open>Cluster_Theorems\<close>: the properties, C1 and on, with their instances.

  \<^bold>\<open>What is shown.\<close> A cluster that is reconciled in time verifies at every moment in between (C1).
  This rests on four parts. Chain data kept by successive updates verifies, as it is stored and
  whatever the order of its maps, until the time the last update returned. A complete read
  represents the objects of the cluster. What a reconciliation writes is what the next one reads.
  And reconciling succeeds but for errors of the crypto library, which leave the cluster unchanged.
  Updates keep trusted certificates trusted, do nothing before they are due, return a time in the
  future and do not panic. Clean-up, parsing and the minima agree with declarative definitions;
  encodings, secrets and bundles round-trip; deadlines are exact up to 1024 nanoseconds; the
  defaults of the options and their validation are given in closed form. Reading terminates in
  every order and does not panic; an object in the cluster is only overwritten if it still is the
  one that was read; reconciling does not panic; verifying only reads; the server does not serve
  before a verification succeeded. The last properties state behaviour that is not intended:
  panics of \<^verbatim>\<open>VerifyTLS\<close>, duplicate entries for a secret and the failure they cause, the rotation of
  a chain without services, and a leaf certificate that does not match the key.

  \<^bold>\<open>Hypotheses on names.\<close> \<open>named_apart\<close>: service names have no dot (a rule of Kubernetes), no service
  has the secret of the CA, and no two client configurations of a service have the same bundle name.
  \<open>distinct_refs\<close>, where reconciling has to succeed: no two client configurations share a service,
  since the second entry for its secret makes the first reconciliation fail. \<open>all_named_certs\<close>: no
  stored certificate list starts with a certificate without a DNS name, since verifying it panics.

  \<^bold>\<open>Hypotheses on time.\<close> \<open>paced w\<close> bounds the duration \<open>w\<close> of an update by the intervals and the CA
  interval by $2^{60}$ nanoseconds (36 years), which keeps rounding errors below two microseconds;
  \<open>spaced\<close> asks for a second and 1024 nanoseconds between an overlap and its interval.

  \<^bold>\<open>Not modelled.\<close> Logging; the HTTP server and the handling of admission requests, which are
  controller-runtime's; the mutex of the manager, whose operations are single steps here, so that
  interleavings of two managers appear only as changes of the cluster between calls;
  \<^verbatim>\<open>version/version.go\<close> and \<^verbatim>\<open>tools.go\<close>, which have no behaviour.
\<close>

end
